(* ===== verification/TestosPrelude.thy ===== *)
theory TestosPrelude
  imports Main "HOL-Library.Word" "HOL-Library.Signed_Division" "HOL-Library.Monad_Syntax"
begin

text \<open>
  Shared vocabulary of the development: the C integer types of \<^verbatim>\<open>include/types.h\<close>, the
  conversions and the arithmetic the RV64 target gives them, byte literals, character
  pointers, local arrays, digit expansions, and the list and word lemmas that several
  components use.

  Conventions.  Unsigned integers are words of their width.  Signed integers are HOL
  integers; every signed operation that can leave its range is wrapped explicitly
  (\<open>s32\<close>, \<open>s64\<close>), which is what the \<^verbatim>\<open>-O0\<close> build of the Makefile computes.
  \<^verbatim>\<open>char\<close> is unsigned (RISC-V ABI), hence an 8-bit word.  A result \<open>None\<close> of a
  modelled function means that the C function has no defined result: it never returns, or
  it reads or writes outside a local array.
\<close>

unbundle bit_operations_syntax

named_theorems width_simps
  \<comment> \<open>conversions between widths and their bounds\<close>

named_theorems io_frame
  \<comment> \<open>what console traffic leaves unchanged\<close>

type_synonym u8 = "8 word"
type_synonym u32 = "32 word"
type_synonym u64 = "64 word"

text \<open>Signed values: two's complement truncation to the width of \<^verbatim>\<open>int\<close> and \<^verbatim>\<open>long\<close>.\<close>

definition s32 :: "int \<Rightarrow> int" where
  "s32 n = sint (word_of_int n :: u32)"

definition s64 :: "int \<Rightarrow> int" where
  "s64 n = sint (word_of_int n :: u64)"

text \<open>
  The M extension's \<^verbatim>\<open>divu\<close>: division by zero does not trap, it gives all ones.
\<close>

definition divu :: "u64 \<Rightarrow> u64 \<Rightarrow> u64" where
  "divu a b = (if b = 0 then - 1 else a div b)"

text \<open>The alignment macros of \<^verbatim>\<open>include/types.h\<close>.\<close>

definition ALIGN_UP :: "u64 \<Rightarrow> u64 \<Rightarrow> u64" where
  "ALIGN_UP addr algn = (addr + algn - 1) AND NOT (algn - 1)"

definition ALIGN_DOWN :: "u64 \<Rightarrow> u64 \<Rightarrow> u64" where
  "ALIGN_DOWN addr algn = addr AND NOT (algn - 1)"

section \<open>Bytes, strings and pointers\<close>

abbreviation ch :: "char \<Rightarrow> u8" where
  "ch \<equiv> of_char"

definition str :: "string \<Rightarrow> u8 list" where
  "str s = map of_char s"

text \<open>
  A \<^verbatim>\<open>const char *\<close> that is only read through is the function that gives the byte at
  each offset from it (offsets wrap at 64 bits, as addresses do).  \<open>ram_ptr\<close> is a pointer
  into memory, \<open>obj\<close> one to an array object, \<open>lit\<close> one to a string literal.
\<close>

type_synonym cptr = "u64 \<Rightarrow> u8"
type_synonym ram = "u64 \<Rightarrow> u8"

definition ram_ptr :: "ram \<Rightarrow> u64 \<Rightarrow> cptr" where
  "ram_ptr m p = (\<lambda>i. m (p + i))"

definition obj :: "u8 list \<Rightarrow> cptr" where
  "obj bs = (\<lambda>i. if unat i < length bs then bs ! unat i else 0)"

text \<open>The line end \<^verbatim>\<open>"\r\n"\<close> of the kernel's messages, and \<^verbatim>\<open>"\n"\<close>.\<close>

definition crnl :: string where
  "crnl = [CHR 0x0D, CHR 0x0A]"

definition nl :: string where
  "nl = [CHR 0x0A]"

definition lit :: "string \<Rightarrow> cptr" where
  "lit s = obj (str s @ [0])"

text \<open>The pointer \<open>v\<close> points to the NUL-terminated string with the bytes \<open>s\<close>.\<close>

definition is_cstr :: "cptr \<Rightarrow> u8 list \<Rightarrow> bool" where
  "is_cstr v s \<longleftrightarrow> length s < 2 ^ 64 \<and> 0 \<notin> set s \<and>
     (\<forall>i < length s. v (of_nat i) = s ! i) \<and> v (of_nat (length s)) = 0"

text \<open>
  A local array that is filled from its start: the list of the bytes stored so far.
  Storing past the declared size is outside C's defined behaviour.
\<close>

definition push :: "nat \<Rightarrow> u8 list \<Rightarrow> u8 \<Rightarrow> u8 list option" where
  "push cap buf c = (if length buf < cap then Some (buf @ [c]) else None)"

text \<open>A local array given as a whole, written by index.\<close>

definition store :: "u8 list \<Rightarrow> u64 \<Rightarrow> u8 \<Rightarrow> u8 list option" where
  "store buf i c = (if unat i < length buf then Some (buf[unat i := c]) else None)"

section \<open>Words in memory\<close>

text \<open>Little-endian loads and stores of 32 and 64 bits.\<close>

definition load32 :: "ram \<Rightarrow> u64 \<Rightarrow> u32" where
  "load32 m a = ucast (m a) OR push_bit 8 (ucast (m (a + 1))) OR push_bit 16 (ucast (m (a + 2)))
     OR push_bit 24 (ucast (m (a + 3)))"

fun store_bytes :: "nat \<Rightarrow> ram \<Rightarrow> u64 \<Rightarrow> u64 \<Rightarrow> ram" where
  "store_bytes 0 m a v = m"
| "store_bytes (Suc n) m a v = store_bytes n (m(a := ucast v)) (a + 1) (drop_bit 8 v)"

definition store64 :: "ram \<Rightarrow> u64 \<Rightarrow> u64 \<Rightarrow> ram" where
  "store64 m a v = store_bytes 8 m a v"

fun load_bytes :: "nat \<Rightarrow> ram \<Rightarrow> u64 \<Rightarrow> u64" where
  "load_bytes 0 m a = 0"
| "load_bytes (Suc n) m a = ucast (m a) OR push_bit 8 (load_bytes n m (a + 1))"

definition load64 :: "ram \<Rightarrow> u64 \<Rightarrow> u64" where
  "load64 m a = load_bytes 8 m a"

section \<open>Word lemmas\<close>

lemma unat_pred_less: "n \<noteq> 0 \<Longrightarrow> unat (n - 1 :: 'a::len word) < unat n"
  by (metis Suc_pred' lessI unat_gt_0 unat_minus_one)

lemma unat_dist_less:
  "i < n \<Longrightarrow> unat (n - (i + 1) :: 'a::len word) < unat (n - i)"
  by (metis (no_types, lifting) add_diff_cancel_left' cancel_ab_semigroup_add_class.diff_right_commute
      diff_diff_add eq_iff_diff_eq_0 less_irrefl unat_pred_less)

lemma unat_succ: "unat i < unat n \<Longrightarrow> unat (i + 1) = Suc (unat i)"
  for i n :: "'a::len word"
  by unat_arith

lemma unat_less_64 [width_simps]: "unat (x :: u64) < 2 ^ 64"
proof -
  have "unat x < 2 ^ LENGTH(64)" by (rule unsigned_less)
  then show ?thesis by simp
qed

lemma unat_of_nat_64 [width_simps]: "n < 2 ^ 64 \<Longrightarrow> unat (of_nat n :: u64) = n"
  by (simp add: unat_of_nat take_bit_nat_eq_self)

lemma of_nat_64_inj:
  "m < 2 ^ 64 \<Longrightarrow> n < 2 ^ 64 \<Longrightarrow> (of_nat m :: u64) = of_nat n \<longleftrightarrow> m = n"
  by (metis unat_of_nat_64)

lemma word_plus_of_nat_cancel:
  "m < 2 ^ 64 \<Longrightarrow> n < 2 ^ 64 \<Longrightarrow> (p :: u64) + of_nat m = p + of_nat n \<longleftrightarrow> m = n"
  by (simp add: of_nat_64_inj)

lemma s32_id [width_simps]: "- (2 ^ 31) \<le> n \<Longrightarrow> n < 2 ^ 31 \<Longrightarrow> s32 n = n"
  by (simp add: s32_def signed_of_int signed_take_bit_int_eq_self)

lemma s64_id [width_simps]: "- (2 ^ 63) \<le> n \<Longrightarrow> n < 2 ^ 63 \<Longrightarrow> s64 n = n"
  by (simp add: s64_def signed_of_int signed_take_bit_int_eq_self)

lemma ucast_8_32_8 [simp]: "ucast (ucast (c :: u8) :: u32) = c"
  by (rule bit_word_eqI) (simp add: bit_simps)

lemma ucast_8_64_8 [simp]: "ucast (ucast (c :: u8) :: u64) = c"
  by (rule bit_word_eqI) (simp add: bit_simps)

section \<open>Alignment\<close>

lemma and_not_mask: "x AND NOT (mask k) = push_bit k (drop_bit k x)" for x :: "'a::len word"
  by (rule bit_word_eqI) (auto simp: bit_simps)

lemma unat_and_not_mask: "unat (x AND NOT (mask k)) = unat x div 2 ^ k * 2 ^ k" for x :: u64
proof -
  have "unat x div 2 ^ k * 2 ^ k < 2 ^ 64"
    using unat_less_64 [of x] div_times_less_eq_dividend [of "unat x" "2 ^ k"] by (rule le_less_trans [rotated])
  moreover have "unat (push_bit k (drop_bit k x)) = take_bit 64 (push_bit k (drop_bit k (take_bit 64 (unat x))))"
    by (simp only: unsigned_push_bit_eq unsigned_drop_bit_eq) simp
  ultimately show ?thesis
    unfolding and_not_mask by (simp add: take_bit_nat_eq_self unat_less_64 [simplified] drop_bit_nat_def push_bit_nat_def)
qed

definition round_up :: "nat \<Rightarrow> nat \<Rightarrow> nat" where
  "round_up n a = (n + a - 1) div a * a"

lemma round_up_bounds:
  assumes "0 < a"
  shows "n \<le> round_up n a" "round_up n a < n + a" "a dvd round_up n a"
proof -
  have "round_up n a + (n + a - 1) mod a = n + a - 1" by (simp add: round_up_def)
  moreover have "(n + a - 1) mod a < a" using assms by simp
  ultimately show "n \<le> round_up n a" "round_up n a < n + a" using assms by linarith+
qed (simp add: round_up_def)

lemma word_pow_mask: "(2 :: u64) ^ k - 1 = mask k"
  by (simp add: mask_eq_exp_minus_1)

lemma unat_pow_64: "k < 64 \<Longrightarrow> unat ((2 :: u64) ^ k) = 2 ^ k"
  using unat_of_nat_64 [of "2 ^ k"] power_strict_increasing [of k 64 "2 :: nat"] by simp

lemma unat_ALIGN_UP:
  assumes "unat a + 2 ^ k - 1 < 2 ^ 64" and "k < 64"
  shows "unat (ALIGN_UP a (2 ^ k)) = round_up (unat a) (2 ^ k)"
proof -
  have "unat (a + mask k) = unat a + 2 ^ k - 1"
  proof -
    have "unat (mask k :: u64) = 2 ^ k - 1"
      using unat_pow_64 [OF assms(2)] unat_minus_one [of "(2 :: u64) ^ k"] assms(2) by (simp flip: word_pow_mask)
    then show ?thesis using assms(1) by (simp add: unat_word_ariths)
  qed
  then show ?thesis
    by (simp add: ALIGN_UP_def round_up_def unat_and_not_mask word_pow_mask add_diff_eq [symmetric])
qed

lemma unat_ALIGN_DOWN: "unat (ALIGN_DOWN a (2 ^ k)) = unat a div 2 ^ k * 2 ^ k"
  by (simp add: ALIGN_DOWN_def unat_and_not_mask word_pow_mask)

text \<open>The power-of-two test of \<^verbatim>\<open>aligned_alloc\<close>.\<close>

lemma power_of_two_test:
  assumes "x \<noteq> (0 :: u64)" and "x AND (x - 1) = 0"
  shows "\<exists>k < 64. x = 2 ^ k"
proof -
  have pos: "0 < unat x" using assms(1) by (simp add: unat_gt_0)
  obtain k where k: "2 ^ k \<le> unat x" "unat x < 2 ^ (k + 1)"
    using ex_power_ivl1 [of 2 "unat x"] pos by auto
  have k64: "k < 64"
    using le_less_trans [OF k(1) unat_less_64] by (rule nat_power_less_imp_less [rotated]) simp
  have bit: "bit (w :: u64) k" if "2 ^ k \<le> unat w" "unat w < 2 ^ (k + 1)" for w
  proof -
    have "unat w div 2 ^ k = 1" using that by (simp add: div_nat_eqI)
    then have "bit (unat w) k" by (simp add: bit_iff_odd)
    then show ?thesis by (simp add: bit_unsigned_iff)
  qed
  have "unat x = 2 ^ k"
  proof (rule ccontr)
    assume "unat x \<noteq> 2 ^ k"
    then have "bit (x AND (x - 1)) k"
      using k bit [of x] bit [of "x - 1"] unat_minus_one [OF assms(1)] by (simp add: bit_and_iff)
    then show False using assms(2) by simp
  qed
  then show ?thesis using k64 unat_pow_64 [OF k64] by (metis word_unat_eq_iff)
qed

text \<open>\<^verbatim>\<open>(char)(reg & 0xFF)\<close>\<close>

lemma low_byte:
  "ucast (v AND 0xFF :: u32) = (ucast v :: u8)"
  "ucast (ucast (ucast v :: u8) AND 0xFF :: u32) = (ucast v :: u8)"
proof -
  have mask8: "(0xFF :: u32) = mask 8" by (simp add: mask_eq_exp_minus_1)
  show "ucast (v AND 0xFF :: u32) = (ucast v :: u8)"
    "ucast (ucast (ucast v :: u8) AND 0xFF :: u32) = (ucast v :: u8)"
    unfolding mask8 by (rule bit_word_eqI, simp add: bit_simps)+
qed

text \<open>A hexadecimal digit of a word.\<close>

lemma nibble: "unat (drop_bit (i * 4) v AND 0xF :: u64) = unat v div 16 ^ i mod 16"
proof -
  have "unat (drop_bit (i * 4) v AND mask 4) = take_bit 4 (drop_bit (i * 4) (unat v))"
    by (simp only: take_bit_eq_mask [symmetric] unsigned_take_bit_eq unsigned_drop_bit_eq)
      (simp only: take_bit_nat_eq_self [OF unsigned_less])
  moreover have "(0xF :: u64) = mask 4" by (simp add: mask_eq_exp_minus_1)
  moreover have "(2 :: nat) ^ (i * 4) = 16 ^ i" by (subst mult.commute) (simp add: power_mult)
  ultimately show ?thesis
    by (simp only: take_bit_nat_def drop_bit_nat_def) simp
qed

section \<open>NUL-terminated strings\<close>

lemma str_simps [simp]:
  "str [] = []" "str (c # cs) = of_char c # str cs"
  by (simp_all add: str_def)

lemma str_append [simp]: "str (s @ t) = str s @ str t"
  by (simp add: str_def)

lemma length_str [simp]: "length (str s) = length s"
  by (simp add: str_def)

lemma is_cstr_len: "is_cstr v s \<Longrightarrow> length s < 2 ^ 64"
  by (simp add: is_cstr_def)

lemma is_cstr_nth: "is_cstr v s \<Longrightarrow> i < length s \<Longrightarrow> v (of_nat i) = s ! i"
  by (simp add: is_cstr_def)

lemma is_cstr_nz: "is_cstr v s \<Longrightarrow> i < length s \<Longrightarrow> s ! i \<noteq> 0"
  unfolding is_cstr_def using nth_mem by metis

lemma is_cstr_end: "is_cstr v s \<Longrightarrow> v (of_nat (length s)) = 0"
  by (simp add: is_cstr_def)

lemma is_cstr_obj:
  assumes "0 \<notin> set s" and "length s + length t < 2 ^ 64"
  shows "is_cstr (obj (s @ 0 # t)) s"
  using assms by (auto simp: is_cstr_def obj_def unat_of_nat_64 nth_append)

lemma is_cstr_lit:
  assumes "0 \<notin> set (str s)" and "length s < 2 ^ 64"
  shows "is_cstr (lit s) (str s)"
  using is_cstr_obj [of "str s" "[]"] assms by (simp add: lit_def)

lemma is_cstr_shift:
  assumes "is_cstr v s" and "k \<le> length s"
  shows "is_cstr (\<lambda>i. v (of_nat k + i)) (drop k s)"
  unfolding is_cstr_def
proof (intro conjI allI impI)
  show "length (drop k s) < 2 ^ 64" using is_cstr_len [OF assms(1)] by simp
  show "0 \<notin> set (drop k s)" using assms(1) by (auto simp: is_cstr_def dest: in_set_dropD)
  show "v (of_nat k + of_nat (length (drop k s))) = 0"
    using is_cstr_end [OF assms(1)] assms(2) by (simp flip: of_nat_add)
next
  fix i assume "i < length (drop k s)"
  then show "v (of_nat k + of_nat i) = drop k s ! i"
    using is_cstr_nth [OF assms(1), of "k + i"] by simp
qed

section \<open>Digit expansions\<close>

text \<open>The digits of \<open>n\<close> in base \<open>b\<close>, least significant first; none for 0.\<close>

fun digits_of :: "nat \<Rightarrow> nat \<Rightarrow> nat list" where
  "digits_of b n = (if b < 2 \<or> n = 0 then [] else n mod b # digits_of b (n div b))"

declare digits_of.simps [simp del]

text \<open>The lower-case digit character of a value below 16.\<close>

definition digit_char :: "nat \<Rightarrow> u8" where
  "digit_char d = (if d < 10 then of_nat (48 + d) else of_nat (87 + d))"

text \<open>The usual representation, most significant digit first.\<close>

definition show_nat :: "nat \<Rightarrow> nat \<Rightarrow> u8 list" where
  "show_nat b n = (if n = 0 then [48] else rev (map digit_char (digits_of b n)))"

definition show_int :: "int \<Rightarrow> u8 list" where
  "show_int n = (if n < 0 then 45 # show_nat 10 (nat (- n)) else show_nat 10 (nat n))"

lemma digits_of_0 [simp]: "digits_of b 0 = []"
  by (simp add: digits_of.simps)

lemma digits_of_pos: "2 \<le> b \<Longrightarrow> 0 < n \<Longrightarrow> digits_of b n = n mod b # digits_of b (n div b)"
  by (subst digits_of.simps) simp

lemma digits_of_less: "2 \<le> b \<Longrightarrow> d \<in> set (digits_of b n) \<Longrightarrow> d < b"
proof (induction b n rule: digits_of.induct)
  case (1 b n)
  then show ?case by (cases "n = 0") (auto simp: digits_of_pos)
qed

lemma digits_of_value: "2 \<le> b \<Longrightarrow> foldr (\<lambda>d a. d + b * a) (digits_of b n) 0 = n"
proof (induction b n rule: digits_of.induct)
  case (1 b n)
  then show ?case by (cases "n = 0") (auto simp: digits_of_pos)
qed

lemma length_digits_of: "2 \<le> b \<Longrightarrow> n < b ^ k \<Longrightarrow> length (digits_of b n) \<le> k"
proof (induction k arbitrary: n)
  case 0
  then show ?case by simp
next
  case (Suc k)
  show ?case
  proof (cases "n = 0")
    case False
    have "n div b < b ^ k"
      using Suc.prems by (simp add: less_mult_imp_div_less mult.commute)
    then show ?thesis using Suc False by (simp add: digits_of_pos)
  qed simp
qed

lemma unat_digit_char: "d < 16 \<Longrightarrow> unat (digit_char d) = (if d < 10 then 48 + d else 87 + d)"
  unfolding digit_char_def by (simp only: unat_of_nat split: if_split) (simp add: take_bit_nat_eq_self)

text \<open>Digit characters start at \<open>'0'\<close>: no NUL, no line feed, no minus sign.\<close>

lemma show_nat_chars:
  assumes "2 \<le> b" and "b \<le> 16" and "c \<in> set (show_nat b n)"
  shows "48 \<le> unat c"
proof (cases "n = 0")
  case True
  then show ?thesis using assms(3) by (simp add: show_nat_def)
next
  case False
  then obtain d where "d < b" "c = digit_char d"
    using assms by (auto simp: show_nat_def dest!: digits_of_less)
  then show ?thesis using assms(2) unat_digit_char [of d] by simp
qed

lemma show_int_chars: "c \<in> set (show_int n) \<Longrightarrow> 45 \<le> unat c"
  using show_nat_chars [of 10 c] by (force simp: show_int_def split: if_splits)

lemma length_show_nat:
  assumes "2 \<le> b" and "n < b ^ k" and "0 < k"
  shows "length (show_nat b n) \<le> k"
  using length_digits_of [OF assms(1,2)] assms(3) by (auto simp: show_nat_def)

lemma show_nat_nz: "2 \<le> b \<Longrightarrow> b \<le> 16 \<Longrightarrow> 0 \<notin> set (show_nat b n)"
  using show_nat_chars [of b 0 n] by auto

lemma show_int_nz: "0 \<notin> set (show_int n)"
  using show_int_chars [of 0 n] by auto

lemma show_int_no_lf: "10 \<notin> set (show_int n)"
  using show_int_chars [of 10 n] by auto

lemma length_show_int:
  assumes "- (2 ^ 63) \<le> n" and "n < 2 ^ 63"
  shows "length (show_int n) \<le> 20"
proof -
  have "nat \<bar>n\<bar> < 10 ^ 19" using assms by (simp add: nat_less_iff)
  then have "length (show_nat 10 (nat \<bar>n\<bar>)) \<le> 19" by (intro length_show_nat) simp_all
  then show ?thesis by (simp add: show_int_def abs_if split: if_splits)
qed

lemma digit_char_dec: "d < 10 \<Longrightarrow> digit_char d = word_of_int (48 + int d)"
  by (simp add: digit_char_def)

lemma show_nat_step:
  assumes "2 \<le> b"
  shows "show_nat b n = (if n < b then [digit_char n] else show_nat b (n div b) @ [digit_char (n mod b)])"
proof -
  have "n < b \<Longrightarrow> 0 < n \<Longrightarrow> digits_of b n = [n]"
    using assms digits_of_pos [of b n] by (simp add: digits_of.simps [of b 0])
  moreover have "digit_char 0 = 48" by (simp add: digit_char_def)
  moreover have "\<not> n < b \<Longrightarrow> n div b \<noteq> 0 \<and> 0 < n" using assms by (auto simp: div_eq_0_iff)
  ultimately show ?thesis using assms by (auto simp: show_nat_def digits_of_pos)
qed

lemma show_nat_nonempty: "2 \<le> b \<Longrightarrow> show_nat b n \<noteq> []"
  by (auto simp: show_nat_def digits_of.simps [of b n])

section \<open>Reversal in place\<close>

text \<open>
  The two-pointer loop \<^verbatim>\<open>while (start < end) { swap; start++; end--; }\<close> of
  \<^verbatim>\<open>itoa_decimal\<close>, \<^verbatim>\<open>itoa_hex\<close> and \<^verbatim>\<open>dw_uart_print_dec\<close>, on array indices.
\<close>

fun swap_loop :: "u8 list \<Rightarrow> nat \<Rightarrow> nat \<Rightarrow> u8 list" where
  "swap_loop buf s e =
     (if s < e then swap_loop (buf[s := buf ! e, e := buf ! s]) (s + 1) (e - 1) else buf)"

declare swap_loop.simps [simp del]

lemma swap_loop_length [simp]: "length (swap_loop buf s e) = length buf"
proof (induction buf s e rule: swap_loop.induct)
  case (1 buf s e)
  then show ?case by (subst swap_loop.simps) simp
qed

lemma swap_loop_nth:
  "e < length buf \<Longrightarrow> i < length buf \<Longrightarrow>
   swap_loop buf s e ! i = (if s \<le> i \<and> i \<le> e then buf ! (s + e - i) else buf ! i)"
proof (induction buf s e rule: swap_loop.induct)
  case (1 buf s e)
  show ?case
  proof (cases "s < e")
    case True
    let ?b = "buf[s := buf ! e, e := buf ! s]"
    have "swap_loop buf s e ! i = swap_loop ?b (s + 1) (e - 1) ! i"
      using True by (subst swap_loop.simps) simp
    also have "\<dots> = (if s + 1 \<le> i \<and> i \<le> e - 1 then ?b ! (s + 1 + (e - 1) - i) else ?b ! i)"
      using "1.IH" [OF True] "1.prems" by simp
    also have "\<dots> = (if s \<le> i \<and> i \<le> e then buf ! (s + e - i) else buf ! i)"
      using True "1.prems" by (auto simp: nth_list_update)
    finally show ?thesis .
  next
    case False
    then have "s \<le> i \<and> i \<le> e \<Longrightarrow> s + e - i = i" by arith
    then show ?thesis using False by (subst swap_loop.simps) auto
  qed
qed

lemma swap_loop_mid:
  assumes "xs \<noteq> []"
  shows "swap_loop (pre @ xs @ post) (length pre) (length pre + length xs - 1) = pre @ rev xs @ post"
proof (rule nth_equalityI)
  have xs: "0 < length xs" using assms by simp
  fix i assume "i < length (swap_loop (pre @ xs @ post) (length pre) (length pre + length xs - 1))"
  then have i: "i < length pre + length xs + length post" by simp
  consider "i < length pre" | "length pre \<le> i" "i < length pre + length xs" | "length pre + length xs \<le> i"
    by linarith
  then show "swap_loop (pre @ xs @ post) (length pre) (length pre + length xs - 1) ! i = (pre @ rev xs @ post) ! i"
  proof cases
    case 2
    then obtain j where j: "i = length pre + j" "j < length xs" by (metis le_Suc_ex nat_add_left_cancel_less)
    then have e: "length pre + (length pre + length xs - 1) - i = length pre + (length xs - Suc j)"
      and c: "length pre \<le> i \<and> i \<le> length pre + length xs - 1" and l: "length xs - Suc j < length xs"
      using xs by linarith+
    have "swap_loop (pre @ xs @ post) (length pre) (length pre + length xs - 1) ! i =
        (pre @ xs @ post) ! (length pre + (length xs - Suc j))"
      using swap_loop_nth [of "length pre + length xs - 1" "pre @ xs @ post" i "length pre"] i xs
      unfolding if_P [OF c] e by simp
    also have "\<dots> = xs ! (length xs - Suc j)"
      using l by (simp only: nth_append_length_plus) (simp only: nth_append if_True)
    also have "\<dots> = (pre @ rev xs @ post) ! i"
      using j by (simp add: nth_append rev_nth)
    finally show ?thesis .
  next
    case 3
    then have "\<not> i \<le> length pre + length xs - 1" "\<not> i < length pre" "\<not> i - length pre < length xs"
      using xs by linarith+
    then show ?thesis using i xs by (simp add: swap_loop_nth nth_append)
  qed (use i xs in \<open>simp add: swap_loop_nth nth_append\<close>)
qed simp

lemma swap_loop_rev: "xs \<noteq> [] \<Longrightarrow> swap_loop (pre @ xs) (length pre) (length pre + length xs - 1) = pre @ rev xs"
  using swap_loop_mid [of xs pre "[]"] by simp

section \<open>Options\<close>

lemma bind_SomeI: "f = Some x \<Longrightarrow> g x = Some y \<Longrightarrow> f \<bind> g = Some y"
  by simp

lemma push_Some: "length buf < cap \<Longrightarrow> push cap buf c = Some (buf @ [c])"
  by (simp add: push_def)

lemma store_Some: "unat i < length buf \<Longrightarrow> store buf i c = Some (buf[unat i := c])"
  by (simp add: store_def)

section \<open>Decimal digits into a local array\<close>

text \<open>
  \<^verbatim>\<open>do { *p++ = '0' + (value % 10); value /= 10; } while (value > 0);\<close> into a local array
  of \<open>cap\<close> bytes; \<^verbatim>\<open>%\<close> and \<^verbatim>\<open>/\<close> truncate towards zero.
\<close>

function dec_digits_loop :: "nat \<Rightarrow> u8 list \<Rightarrow> int \<Rightarrow> u8 list option" where
  "dec_digits_loop cap buf val =
     (case push cap buf (word_of_int (48 + val smod 10)) of
        None \<Rightarrow> None
      | Some buf' \<Rightarrow> if val sdiv 10 > 0 then dec_digits_loop cap buf' (val sdiv 10) else Some buf')"
  by pat_completeness auto
termination
  by (relation "measure (\<lambda>(cap, buf, val). cap - length buf)") (auto simp: push_def split: if_splits)

declare dec_digits_loop.simps [simp del]

lemma dec_digits_loop_eq:
  "dec_digits_loop cap buf (int n) =
     (if length buf + length (show_nat 10 n) \<le> cap then Some (buf @ rev (show_nat 10 n)) else None)"
proof (induction cap buf "int n" arbitrary: n rule: dec_digits_loop.induct)
  case (1 cap buf)
  have sdiv: "int n sdiv 10 = int (n div 10)" "int n smod 10 = int (n mod 10)"
    by (simp_all add: signed_divide_int_def signed_modulo_int_def zdiv_int zmod_int sgn_if)
  have step: "show_nat 10 n = (if n < 10 then [digit_char n] else show_nat 10 (n div 10) @ [digit_char (n mod 10)])"
    using show_nat_step [of 10 n] by simp
  have c: "48 + word_of_nat (n mod 10) = digit_char (n mod 10)"
    by (simp add: digit_char_dec)
  show ?case
  proof (cases "length buf < cap")
    case False
    then show ?thesis
      using show_nat_nonempty [of 10 n]
      by (subst dec_digits_loop.simps) (cases "show_nat 10 n"; simp add: push_def)
  next
    case True
    note push = push_Some [OF True, of "digit_char (n mod 10)"]
    show ?thesis
    proof (cases "n < 10")
      case True
      then show ?thesis using push c step by (subst dec_digits_loop.simps) (simp add: sdiv Suc_le_eq \<open>length buf < cap\<close>)
    next
      case False
      then have pos: "int n sdiv 10 > 0" unfolding sdiv by simp
      have "dec_digits_loop cap buf (int n) = dec_digits_loop cap (buf @ [digit_char (n mod 10)]) (int (n div 10))"
        using push pos by (subst dec_digits_loop.simps) (simp add: c sdiv)
      also have "\<dots> = (if length (buf @ [digit_char (n mod 10)]) + length (show_nat 10 (n div 10)) \<le> cap
        then Some ((buf @ [digit_char (n mod 10)]) @ rev (show_nat 10 (n div 10))) else None)"
        using push by (intro "1.hyps") (use pos in \<open>auto simp: c sdiv\<close>)
      finally show ?thesis using False step by simp
    qed
  qed
qed

section \<open>Clearing memory\<close>

text \<open>
  \<^verbatim>\<open>for (; i < len; i++) bytes[i] = 0;\<close> from index \<open>i\<close>: how \<^verbatim>\<open>calloc\<close> clears a block and
  \<^verbatim>\<open>strncpy\<close> pads.
\<close>

function zero_bytes :: "u64 \<Rightarrow> u64 \<Rightarrow> u64 \<Rightarrow> ram \<Rightarrow> ram" where
  "zero_bytes bytes len i m = (if i < len then zero_bytes bytes len (i + 1) (m(bytes + i := 0)) else m)"
  by pat_completeness auto
termination
  by (relation "measure (\<lambda>(bytes, len, i, m). unat (len - i))") (simp_all add: unat_dist_less)

declare zero_bytes.simps [simp del]

text \<open>The clearing loop writes the \<open>len\<close> bytes from \<open>bytes\<close> and nothing else.\<close>

lemma zero_bytes_from:
  "zero_bytes bytes len i m = (\<lambda>a. if i \<le> a - bytes \<and> a - bytes < len then 0 else m a)"
proof (induction bytes len i m rule: zero_bytes.induct)
  case (1 bytes len i m)
  show ?case
  proof (cases "i < len")
    case True
    have next_i: "i + 1 \<le> x \<longleftrightarrow> i \<le> x \<and> x \<noteq> i" for x
      using True unat_succ [of i len] by (auto simp: word_le_nat_alt word_less_nat_alt word_unat_eq_iff)
    have "zero_bytes bytes len i m = zero_bytes bytes len (i + 1) (m(bytes + i := 0))"
      using True by (subst zero_bytes.simps) simp
    also have "\<dots> = (\<lambda>a. if i + 1 \<le> a - bytes \<and> a - bytes < len then 0 else (m(bytes + i := 0)) a)"
      by (rule "1.IH" [OF True])
    also have "\<dots> = (\<lambda>a. if i \<le> a - bytes \<and> a - bytes < len then 0 else m a)"
      using True by (auto simp: fun_eq_iff next_i)
    finally show ?thesis .
  next
    case False
    then show ?thesis by (subst zero_bytes.simps) (auto simp: fun_eq_iff)
  qed
qed

lemma zero_bytes: "zero_bytes p len 0 m = (\<lambda>a. if a - p < len then 0 else m a)"
  by (simp add: zero_bytes_from)

end
