(* ===== verification/Machine.thy ===== *)
theory Machine
  imports TestosPrelude
begin

text \<open>
  The hardware the kernel runs on, as far as its C code touches it: byte-addressed memory,
  memory-mapped device registers, the \<^verbatim>\<open>time\<close> counter, the SBI timer call and the
  supervisor CSRs, with the build-time configuration of \<^verbatim>\<open>include/cfg/cfg.h\<close>.

  Devices are not program code, so nothing is assumed of them here: the record carries, for
  every register address, the whole sequence of values its reads will return
  (\<open>mmio_rd a k\<close> is what the \<open>k\<close>-th read of \<open>a\<close> returns) and the log of all writes.
  Every behaviour of a device shows up as some choice of these sequences; what a driver
  relies on (a transmitter that keeps becoming ready) is a named hypothesis on them.
\<close>

section \<open>Build-time configuration\<close>

datatype platform = PLATFORM_QEMU | PLATFORM_SG2002

datatype uart_type = UART_TYPE_DW | UART_TYPE_PL011

fun UART_BASE :: "platform \<Rightarrow> u64" where
  "UART_BASE PLATFORM_QEMU = 0x10000000"
| "UART_BASE PLATFORM_SG2002 = 0x4140000"

fun UART_CLOCK :: "platform \<Rightarrow> u32" where
  "UART_CLOCK PLATFORM_QEMU = 10000000"
| "UART_CLOCK PLATFORM_SG2002 = 3686400"

text \<open>The driver \<^verbatim>\<open>cfg.h\<close> selects: the DesignWare (16550) one on both platforms.\<close>

fun cfg_uart_type :: "platform \<Rightarrow> uart_type" where
  "cfg_uart_type PLATFORM_QEMU = UART_TYPE_DW"
| "cfg_uart_type PLATFORM_SG2002 = UART_TYPE_DW"

definition UART_BAUDRATE :: u32 where
  "UART_BAUDRATE = 115200"

definition MEM_START :: u64 where
  "MEM_START = 0x80000000"

definition MEM_SIZE :: u64 where
  "MEM_SIZE = 0x10000000"

definition LOAD_ADDR :: u64 where
  "LOAD_ADDR = 0x80200000"

definition TIMER_FREQ_HZ :: u64 where
  "TIMER_FREQ_HZ = 10000000"

definition TIMER_TICK_MS :: u64 where
  "TIMER_TICK_MS = 10"

definition TIMER_FREQUENCY_HZ :: u64 where
  "TIMER_FREQUENCY_HZ = 1000 div TIMER_TICK_MS"

section \<open>The machine\<close>

record machine =
  plat :: platform
  uart_ty :: uart_type
  ram :: ram
  mmio_rd :: "u64 \<Rightarrow> nat \<Rightarrow> u32"
  mmio_cnt :: "u64 \<Rightarrow> nat"
  mmio_log :: "(u64 \<times> u32) list"
  time_rd :: "nat \<Rightarrow> u64"
  time_cnt :: nat
  sbi_timer :: "u64 list"
  csr_sie :: u64
  csr_sstatus :: u64
  csr_stvec :: u64
  csr_sscratch :: u64

text \<open>A 32-bit volatile load and store at a device address.\<close>

definition mmio_load :: "u64 \<Rightarrow> 'a machine_scheme \<Rightarrow> u32 \<times> 'a machine_scheme" where
  "mmio_load a w = (mmio_rd w a (mmio_cnt w a), w\<lparr>mmio_cnt := (mmio_cnt w)(a := Suc (mmio_cnt w a))\<rparr>)"

definition mmio_store :: "u32 \<Rightarrow> u64 \<Rightarrow> 'a machine_scheme \<Rightarrow> 'a machine_scheme" where
  "mmio_store v a w = w\<lparr>mmio_log := mmio_log w @ [(a, v)]\<rparr>"

text \<open>\<^verbatim>\<open>READ_TIME()\<close>: each read of the counter takes its next value.\<close>

definition READ_TIME :: "'a machine_scheme \<Rightarrow> u64 \<times> 'a machine_scheme" where
  "READ_TIME w = (time_rd w (time_cnt w), w\<lparr>time_cnt := Suc (time_cnt w)\<rparr>)"

text \<open>The bits of \<^verbatim>\<open>include/sysreg.h\<close> that the code uses.\<close>

definition SSTATUS_SIE :: u64 where
  "SSTATUS_SIE = push_bit 1 1"

definition SIE_STIE :: u64 where
  "SIE_STIE = push_bit 5 1"

definition INTERRUPT_BIT :: u64 where
  "INTERRUPT_BIT = push_bit 63 1"

definition READ_SIE :: "'a machine_scheme \<Rightarrow> u64" where
  "READ_SIE w = csr_sie w"

definition CSR_WRITE_sie :: "u64 \<Rightarrow> 'a machine_scheme \<Rightarrow> 'a machine_scheme" where
  "CSR_WRITE_sie v w = w\<lparr>csr_sie := v\<rparr>"

definition READ_SSTATUS :: "'a machine_scheme \<Rightarrow> u64" where
  "READ_SSTATUS w = csr_sstatus w"

definition WRITE_SSTATUS :: "u64 \<Rightarrow> 'a machine_scheme \<Rightarrow> 'a machine_scheme" where
  "WRITE_SSTATUS v w = w\<lparr>csr_sstatus := v\<rparr>"

definition CSR_SET_sstatus :: "u64 \<Rightarrow> 'a machine_scheme \<Rightarrow> 'a machine_scheme" where
  "CSR_SET_sstatus v w = w\<lparr>csr_sstatus := csr_sstatus w OR v\<rparr>"

definition CSR_WRITE_sscratch :: "u64 \<Rightarrow> 'a machine_scheme \<Rightarrow> 'a machine_scheme" where
  "CSR_WRITE_sscratch v w = w\<lparr>csr_sscratch := v\<rparr>"

section \<open>Console traffic\<close>

text \<open>
  Both UARTs have their data register at the base address, and a status register that says
  whether the transmitter can take a byte and whether one has been received.
\<close>

definition uart_data :: "'a machine_scheme \<Rightarrow> u64" where
  "uart_data w = UART_BASE (plat w)"

definition UART_REG_SHIFT :: "platform \<Rightarrow> nat" where
  "UART_REG_SHIFT p = (case p of PLATFORM_QEMU \<Rightarrow> 0 | PLATFORM_SG2002 \<Rightarrow> 2)"

definition DW_UART_LSR :: "platform \<Rightarrow> u64" where
  "DW_UART_LSR p = UART_BASE p + push_bit (UART_REG_SHIFT p) 0x05"

definition UART_FR :: u64 where
  "UART_FR = 0x18"

definition uart_status :: "'a machine_scheme \<Rightarrow> u64" where
  "uart_status w = (case uart_ty w of UART_TYPE_DW \<Rightarrow> DW_UART_LSR (plat w)
                                    | UART_TYPE_PL011 \<Rightarrow> UART_BASE (plat w) + UART_FR)"

text \<open>
  What a status value says.  DesignWare: \<^verbatim>\<open>THRE\<close> (bit 5) and \<^verbatim>\<open>DR\<close> (bit 0) of the
  line status register; PL011: \<^verbatim>\<open>TXFF\<close> (bit 5, full) and \<^verbatim>\<open>RXFE\<close> (bit 4, empty) of the
  flag register.
\<close>

definition tx_ok :: "uart_type \<Rightarrow> u32 \<Rightarrow> bool" where
  "tx_ok t v = (case t of UART_TYPE_DW \<Rightarrow> bit v 5 | UART_TYPE_PL011 \<Rightarrow> \<not> bit v 5)"

definition rx_ok :: "uart_type \<Rightarrow> u32 \<Rightarrow> bool" where
  "rx_ok t v = (case t of UART_TYPE_DW \<Rightarrow> bit v 0 | UART_TYPE_PL011 \<Rightarrow> \<not> bit v 4)"

text \<open>
  The documented liveness of the device: from any point on, the status register will again
  report a ready transmitter (\<open>tx_live\<close>), and a received byte (\<open>rx_live\<close>).
\<close>

definition tx_live :: "'a machine_scheme \<Rightarrow> bool" where
  "tx_live w \<longleftrightarrow> (\<forall>k. \<exists>j \<ge> k. tx_ok (uart_ty w) (mmio_rd w (uart_status w) j))"

definition rx_live :: "'a machine_scheme \<Rightarrow> bool" where
  "rx_live w \<longleftrightarrow> (\<forall>k. \<exists>j \<ge> k. rx_ok (uart_ty w) (mmio_rd w (uart_status w) j))"

text \<open>The bytes still to be received: what successive reads of the data register give.\<close>

definition rx_input :: "'a machine_scheme \<Rightarrow> nat \<Rightarrow> u8" where
  "rx_input w j = ucast (mmio_rd w (uart_data w) (mmio_cnt w (uart_data w) + j))"

text \<open>
  \<open>uart_io k bs w w'\<close>: from \<open>w\<close> to \<open>w'\<close> exactly \<open>k\<close> bytes were received and the bytes \<open>bs\<close>
  transmitted; apart from that only the status register has been polled.
\<close>

definition uart_io :: "nat \<Rightarrow> u8 list \<Rightarrow> 'a machine_scheme \<Rightarrow> 'a machine_scheme \<Rightarrow> bool" where
  "uart_io k bs w w' \<longleftrightarrow> (\<exists>n. w' = w\<lparr>
     mmio_cnt := (mmio_cnt w)(uart_data w := mmio_cnt w (uart_data w) + k, uart_status w := n),
     mmio_log := mmio_log w @ map (\<lambda>b. (uart_data w, ucast b)) bs\<rparr>)"

lemma data_not_status [simp]: "uart_data w \<noteq> uart_status w" "uart_status w \<noteq> uart_data w"
  by (cases "plat w"; cases "uart_ty w";
      simp add: uart_data_def uart_status_def DW_UART_LSR_def UART_REG_SHIFT_def UART_FR_def)+

lemma uart_io_frame [io_frame]:
  assumes "uart_io k bs w w'"
  shows "plat w' = plat w" "uart_ty w' = uart_ty w" "ram w' = ram w" "mmio_rd w' = mmio_rd w"
    "time_rd w' = time_rd w" "time_cnt w' = time_cnt w" "sbi_timer w' = sbi_timer w"
    "csr_sie w' = csr_sie w" "csr_sstatus w' = csr_sstatus w" "csr_stvec w' = csr_stvec w"
    "csr_sscratch w' = csr_sscratch w" "machine.more w' = machine.more w"
  using assms by (auto simp: uart_io_def)

lemma uart_io_regs [io_frame]:
  assumes "uart_io k bs w w'"
  shows "uart_data w' = uart_data w" "uart_status w' = uart_status w"
    "mmio_log w' = mmio_log w @ map (\<lambda>b. (uart_data w, ucast b)) bs"
    "mmio_cnt w' (uart_data w) = mmio_cnt w (uart_data w) + k"
proof -
  show "uart_data w' = uart_data w" "uart_status w' = uart_status w"
    using uart_io_frame(1,2) [OF assms] by (simp_all only: uart_data_def uart_status_def)
  show "mmio_log w' = mmio_log w @ map (\<lambda>b. (uart_data w, ucast b)) bs"
    "mmio_cnt w' (uart_data w) = mmio_cnt w (uart_data w) + k"
    using assms by (auto simp: uart_io_def)
qed

lemma uart_io_refl: "uart_io 0 [] w w"
  unfolding uart_io_def by (rule exI [of _ "mmio_cnt w (uart_status w)"]) simp

lemma uart_io_poll: "uart_io 0 [] w (w\<lparr>mmio_cnt := (mmio_cnt w)(uart_status w := n)\<rparr>)"
  unfolding uart_io_def by (rule exI [of _ n]) simp

text \<open>Console traffic commutes with an update that does not touch the device.\<close>

lemma uart_io_upd:
  assumes upd: "\<And>w c l. upd (w\<lparr>mmio_cnt := c, mmio_log := l\<rparr>) = (upd w)\<lparr>mmio_cnt := c, mmio_log := l\<rparr>"
    and same: "plat (upd w) = plat w" "uart_ty (upd w) = uart_ty w" "mmio_cnt (upd w) = mmio_cnt w"
      "mmio_log (upd w) = mmio_log w"
    and io: "uart_io k bs w w'"
  shows "uart_io k bs (upd w) (upd w')"
proof -
  have regs: "uart_data (upd w) = uart_data w" "uart_status (upd w) = uart_status w"
    by (simp_all only: uart_data_def uart_status_def same)
  show ?thesis using io unfolding uart_io_def regs by (auto simp: upd same)
qed

lemma uart_io_trans:
  assumes "uart_io j as w w'" and "uart_io k bs w' w''"
  shows "uart_io (j + k) (as @ bs) w w''"
proof -
  obtain m where w': "w' = w\<lparr>mmio_cnt := (mmio_cnt w)(uart_data w := mmio_cnt w (uart_data w) + j, uart_status w := m),
     mmio_log := mmio_log w @ map (\<lambda>b. (uart_data w, ucast b)) as\<rparr>"
    using assms(1) by (auto simp: uart_io_def)
  have d: "uart_data w' = uart_data w" "uart_status w' = uart_status w"
    using uart_io_regs [OF assms(1)] by auto
  obtain n where "w'' = w'\<lparr>mmio_cnt := (mmio_cnt w')(uart_data w' := mmio_cnt w' (uart_data w') + k, uart_status w' := n),
     mmio_log := mmio_log w' @ map (\<lambda>b. (uart_data w', ucast b)) bs\<rparr>"
    using assms(2) by (auto simp: uart_io_def)
  then have "w'' = w\<lparr>mmio_cnt := (mmio_cnt w)(uart_data w := mmio_cnt w (uart_data w) + (j + k), uart_status w := n),
     mmio_log := mmio_log w @ map (\<lambda>b. (uart_data w, ucast b)) (as @ bs)\<rparr>"
    unfolding d unfolding w' by (simp add: fun_upd_twist add.assoc)
  then show ?thesis unfolding uart_io_def by blast
qed

lemma tx_live_io: "tx_live w \<Longrightarrow> uart_io k bs w w' \<Longrightarrow> tx_live w'"
  by (simp add: tx_live_def io_frame)

lemma rx_live_io: "rx_live w \<Longrightarrow> uart_io k bs w w' \<Longrightarrow> rx_live w'"
  by (simp add: rx_live_def io_frame)

lemma rx_input_io: "uart_io k bs w w' \<Longrightarrow> rx_input w' j = rx_input w (k + j)"
  by (simp add: rx_input_def uart_io_regs uart_io_frame(4) add.assoc)

lemma mmio_load_frame [simp]:
  "plat (snd (mmio_load a w)) = plat w" "uart_ty (snd (mmio_load a w)) = uart_ty w"
  "mmio_rd (snd (mmio_load a w)) = mmio_rd w"
  by (simp_all add: mmio_load_def)

section \<open>A machine whose UART is always ready\<close>

text \<open>
  One behaviour the devices may have, for evaluating the model on concrete inputs: the status
  register always reports a ready transmitter and a received byte.
\<close>

definition ready_machine :: "platform \<Rightarrow> uart_type \<Rightarrow> 'a \<Rightarrow> 'a machine_scheme" where
  "ready_machine p t x = \<lparr>plat = p, uart_ty = t, ram = (\<lambda>a. 0),
     mmio_rd = (\<lambda>a k. case t of UART_TYPE_DW \<Rightarrow> 0x61 | UART_TYPE_PL011 \<Rightarrow> 0),
     mmio_cnt = (\<lambda>a. 0), mmio_log = [], time_rd = of_nat, time_cnt = 0, sbi_timer = [],
     csr_sie = 0, csr_sstatus = 0, csr_stvec = 0, csr_sscratch = 0, \<dots> = x\<rparr>"

lemma ready_machine_live: "tx_live (ready_machine p t x)" "rx_live (ready_machine p t x)"
  by (cases t; auto simp: tx_live_def rx_live_def tx_ok_def rx_ok_def ready_machine_def)+

end
