(* ===== verification/Console.thy ===== *)
theory Console
  imports Machine
begin

text \<open>
  The loops the UART drivers and their clients share (polling a status register, walking a
  NUL-terminated string), and the console interface: what a client of a driver may rely
  on when it sends and receives bytes.  The drivers in \<open>DwUart\<close> and \<open>Pl011\<close> and the wrappers
  of \<open>Uart\<close> interpret the locale; its lemmas serve the printing and line-reading code.
\<close>

section \<open>Loops\<close>

text \<open>\<^verbatim>\<open>while (!ready()) nop;\<close>\<close>

partial_function (option) busy_wait :: "('s \<Rightarrow> bool \<times> 's) \<Rightarrow> 's \<Rightarrow> 's option" where
  "busy_wait ready w = (let (b, w') = ready w in if b then Some w' else busy_wait ready w')"

declare busy_wait.simps [code]

text \<open>\<^verbatim>\<open>while (*s) body(*s++);\<close> from offset \<open>i\<close> of \<open>s\<close>.\<close>

partial_function (option) for_chars :: "(u8 \<Rightarrow> 's \<Rightarrow> 's option) \<Rightarrow> cptr \<Rightarrow> u64 \<Rightarrow> 's \<Rightarrow> 's option" where
  "for_chars body s i w =
     (if s i = 0 then Some w else do { w' \<leftarrow> body (s i) w; for_chars body s (i + 1) w' })"

declare for_chars.simps [code]

text \<open>The same over the bytes of a string.\<close>

fun put_all :: "(u8 \<Rightarrow> 's \<Rightarrow> 's option) \<Rightarrow> u8 list \<Rightarrow> 's \<Rightarrow> 's option" where
  "put_all body [] w = Some w"
| "put_all body (c # cs) w = do { w' \<leftarrow> body c w; put_all body cs w' }"

lemma put_all_nil [simp]: "put_all body [] = Some"
  by (rule ext) simp

lemma put_all_single [simp]: "put_all body [c] = body c"
  by (rule ext) simp

lemma put_all_append:
  "put_all body (as @ bs) w = do { w' \<leftarrow> put_all body as w; put_all body bs w' }"
  by (induction as arbitrary: w) (auto split: bind_splits)

lemma put_all_concat:
  "put_all (\<lambda>c. put_all body (f c)) s w = put_all body (concat (map f s)) w"
  by (induction s arbitrary: w) (auto simp: put_all_append split: bind_splits)

lemma for_chars_drop:
  assumes "is_cstr v s" and "k \<le> length s"
  shows "for_chars body v (of_nat k) w = put_all body (drop k s) w"
  using assms(2)
proof (induction "length s - k" arbitrary: k w)
  case 0
  then show ?case using is_cstr_end [OF assms(1)] by (subst for_chars.simps) simp
next
  case (Suc n)
  then have "k < length s" by simp
  then have "v (of_nat k) = s ! k" "s ! k \<noteq> 0" "drop k s = s ! k # drop (Suc k) s"
    using is_cstr_nth [OF assms(1)] is_cstr_nz [OF assms(1)] by (auto simp: Cons_nth_drop_Suc)
  moreover have "for_chars body v (of_nat k + 1) = put_all body (drop (Suc k) s)"
  proof
    fix w' show "for_chars body v (of_nat k + 1) w' = put_all body (drop (Suc k) s) w'"
      using Suc.hyps(1) [of "Suc k" w'] Suc.hyps(2) \<open>k < length s\<close> by (simp add: add.commute)
  qed
  ultimately show ?case by (subst for_chars.simps) simp
qed

lemma for_chars_cstr: "is_cstr v s \<Longrightarrow> for_chars body v 0 w = put_all body s w"
  using for_chars_drop [of v s 0] by simp

text \<open>
  Polling a register whose reads keep giving an accepting value ends, and has read nothing
  but that register.
\<close>

lemma busy_wait_poll_from:
  assumes ready: "\<And>c. ready (w\<lparr>mmio_cnt := c\<rparr>) = (P (mmio_rd w a (c a)), w\<lparr>mmio_cnt := c(a := Suc (c a))\<rparr>)"
    and "P (mmio_rd w a j)" and "c a \<le> j"
  shows "\<exists>n. busy_wait ready (w\<lparr>mmio_cnt := c\<rparr>) = Some (w\<lparr>mmio_cnt := c(a := n)\<rparr>)"
  using assms(3)
proof (induction "j - c a" arbitrary: c rule: less_induct)
  case less
  show ?case
  proof (cases "P (mmio_rd w a (c a))")
    case True
    then show ?thesis by (subst busy_wait.simps) (auto simp: ready)
  next
    case False
    with less.prems assms(2) have "c a < j" by (metis le_neq_implies_less)
    then obtain n where "busy_wait ready (w\<lparr>mmio_cnt := c(a := Suc (c a))\<rparr>) = Some (w\<lparr>mmio_cnt := c(a := n)\<rparr>)"
      using less.hyps [of "c(a := Suc (c a))"] by (auto simp: diff_less_mono2)
    then show ?thesis using False by (subst busy_wait.simps) (auto simp: ready)
  qed
qed

lemma busy_wait_poll:
  assumes "\<And>c. ready (w\<lparr>mmio_cnt := c\<rparr>) = (P (mmio_rd w a (c a)), w\<lparr>mmio_cnt := c(a := Suc (c a))\<rparr>)"
    and "\<forall>k. \<exists>j \<ge> k. P (mmio_rd w a j)"
  shows "\<exists>n. busy_wait ready w = Some (w\<lparr>mmio_cnt := (mmio_cnt w)(a := n)\<rparr>)"
proof -
  obtain j where "mmio_cnt w a \<le> j" "P (mmio_rd w a j)" using assms(2) by blast
  then show ?thesis
    using busy_wait_poll_from [where c = "mmio_cnt w", OF assms(1)] by simp
qed

section \<open>What a function prints\<close>

definition outputs :: "('a machine_scheme \<Rightarrow> 'a machine_scheme option) \<Rightarrow> u8 list \<Rightarrow> 'a machine_scheme \<Rightarrow> bool" where
  "outputs f bs w \<longleftrightarrow> (\<exists>w'. f w = Some w' \<and> uart_io 0 bs w w')"

lemma outputsI: "f w = Some w' \<Longrightarrow> uart_io 0 bs w w' \<Longrightarrow> outputs f bs w"
  by (auto simp: outputs_def)

lemma outputsE:
  assumes "outputs f bs w"
  obtains w' where "f w = Some w'" "uart_io 0 bs w w'"
  using assms by (auto simp: outputs_def)

lemma outputs_bind:
  assumes "outputs f as w" and "\<And>w'. uart_io 0 as w w' \<Longrightarrow> outputs g bs w'"
  shows "outputs (\<lambda>w. f w \<bind> g) (as @ bs) w"
proof -
  obtain w' where w': "f w = Some w'" "uart_io 0 as w w'"
    using assms(1) by (rule outputsE)
  obtain w'' where "g w' = Some w''" "uart_io 0 bs w' w''"
    using assms(2) [OF w'(2)] by (rule outputsE)
  with w' show ?thesis
    using uart_io_trans [of 0 as w w' 0 bs w''] by (auto simp: outputs_def)
qed

lemma outputs_nil: "outputs Some [] w"
  by (auto simp: outputs_def intro: uart_io_refl)

text \<open>What a line feed becomes on the line: a carriage return comes first.\<close>

definition crlf :: "u8 \<Rightarrow> u8 list" where
  "crlf c = (if c = 10 then [13, 10] else [c])"

lemma concat_crlf: "10 \<notin> set s \<Longrightarrow> concat (map crlf s) = s"
  by (induction s) (auto simp: crlf_def)

section \<open>Line editing\<close>

text \<open>
  What a line reader does with the received bytes \<open>cs\<close> when \<open>acc\<close> is already on the line
  and at most \<open>cap\<close> bytes fit: backspace and delete rub out the last byte, a carriage return
  or line feed ends the line, anything else is echoed and added.  The result is the line, the
  bytes echoed and the number of bytes consumed; \<open>None\<close> if \<open>cs\<close> does not complete a line.
  \<open>eol c\<close> is the echo of the line end \<open>c\<close>.
\<close>

fun edit_line :: "(u8 \<Rightarrow> u8 list) \<Rightarrow> nat \<Rightarrow> u8 list \<Rightarrow> u8 list \<Rightarrow> (u8 list \<times> u8 list \<times> nat) option" where
  "edit_line eol cap acc [] = (if cap \<le> length acc then Some (acc, [], 0) else None)"
| "edit_line eol cap acc (c # cs) =
     (if cap \<le> length acc then Some (acc, [], 0)
      else if c = 8 \<or> c = 0x7F then
        map_option (\<lambda>(l, e, k). (l, (if acc = [] then [] else [8, 32, 8]) @ e, Suc k))
          (edit_line eol cap (butlast acc) cs)
      else if c = 13 \<or> c = 10 then Some (acc, eol c, 1)
      else map_option (\<lambda>(l, e, k). (l, c # e, Suc k)) (edit_line eol cap (acc @ [c]) cs))"

lemma edit_line_length: "edit_line eol cap acc cs = Some (l, e, k) \<Longrightarrow> length acc \<le> cap \<Longrightarrow> length l \<le> cap"
  by (induction eol cap acc cs arbitrary: l e k rule: edit_line.induct) (auto split: if_splits)

text \<open>
  The loop both line readers implement, as an equation over the reader \<open>G\<close>: array, index
  and machine in, array, returned length and machine out.
\<close>

definition line_reader ::
  "(u8 \<Rightarrow> 's \<Rightarrow> 's option) \<Rightarrow> ('s \<Rightarrow> (u8 \<times> 's) option) \<Rightarrow> (u8 \<Rightarrow> u8 list) \<Rightarrow> u64 \<Rightarrow>
   (u8 list \<Rightarrow> u64 \<Rightarrow> 's \<Rightarrow> (u8 list \<times> int \<times> 's) option) \<Rightarrow> bool" where
  "line_reader putc getc eol n G \<longleftrightarrow> (\<forall>buf i w. G buf i w =
     (if i < n - 1 then do {
        (c, w) \<leftarrow> getc w;
        if c = 8 \<or> c = 0x7F then
          do { w \<leftarrow> put_all putc (if i > 0 then [8, 32, 8] else []) w;
               G buf (if i > 0 then i - 1 else i) w }
        else if c = 13 \<or> c = 10 then
          do { w \<leftarrow> put_all putc (eol c) w; buf \<leftarrow> store buf i 0; Some (buf, s32 (uint i), w) }
        else do { w \<leftarrow> put_all putc [c] w; buf \<leftarrow> store buf i c; G buf (i + 1) w } }
      else do { buf \<leftarrow> store buf i 0; Some (buf, s32 (uint i), w) }))"

section \<open>The console interface\<close>

locale console_tx =
  fixes putc :: "u8 \<Rightarrow> 's \<Rightarrow> 's option"
    and enc :: "'s \<Rightarrow> u8 \<Rightarrow> u8 list"
    and live :: "'s \<Rightarrow> bool"
    and io :: "nat \<Rightarrow> u8 list \<Rightarrow> 's \<Rightarrow> 's \<Rightarrow> bool"
  assumes io_refl: "io 0 [] w w"
    and io_trans: "io j as w w' \<Longrightarrow> io k bs w' w'' \<Longrightarrow> io (j + k) (as @ bs) w w''"
    and live_io: "live w \<Longrightarrow> io k bs w w' \<Longrightarrow> live w'"
    and enc_io: "io k bs w w' \<Longrightarrow> enc w' = enc w"
    and putc_io: "live w \<Longrightarrow> \<exists>w'. putc c w = Some w' \<and> io 0 (enc w c) w w'"
begin

lemma put_all_io:
  assumes "live w"
  shows "\<exists>w'. put_all putc bs w = Some w' \<and> io 0 (concat (map (enc w) bs)) w w'"
  using assms
proof (induction bs arbitrary: w)
  case Nil
  then show ?case by (auto intro: io_refl)
next
  case (Cons b bs)
  obtain w1 where w1: "putc b w = Some w1" "io 0 (enc w b) w w1"
    using putc_io [OF Cons.prems] by blast
  obtain w2 where w2: "put_all putc bs w1 = Some w2" "io 0 (concat (map (enc w1) bs)) w1 w2"
    using Cons.IH [OF live_io [OF Cons.prems w1(2)]] by blast
  have "io 0 (concat (map (enc w) (b # bs))) w w2"
    using io_trans [OF w1(2) w2(2)] enc_io [OF w1(2)] by simp
  then show ?case using w1(1) w2(1) by auto
qed

lemma for_chars_io:
  assumes "live w" and "is_cstr v s"
  shows "\<exists>w'. for_chars putc v 0 w = Some w' \<and> io 0 (concat (map (enc w) s)) w w'"
  using put_all_io [OF assms(1), of s] for_chars_cstr [OF assms(2), of putc w] by simp

end

locale console = console_tx +
  fixes getc :: "'s \<Rightarrow> (u8 \<times> 's) option"
    and rx :: "'s \<Rightarrow> bool"
    and input :: "'s \<Rightarrow> nat \<Rightarrow> u8"
  assumes rx_io: "rx w \<Longrightarrow> io k bs w w' \<Longrightarrow> rx w'"
    and input_io: "io k bs w w' \<Longrightarrow> input w' j = input w (k + j)"
    and getc_io: "rx w \<Longrightarrow> \<exists>w'. getc w = Some (input w 0, w') \<and> io 1 [] w w'"
begin

text \<open>Reading a byte and then sending some: one step of every line-reading loop.\<close>

lemma get_then_put:
  assumes "rx w" and "live w"
  shows "\<exists>w1 w2. getc w = Some (input w 0, w1) \<and> put_all putc bs w1 = Some w2 \<and>
    io 1 (concat (map (enc w) bs)) w w2 \<and> rx w2 \<and> live w2 \<and> enc w2 = enc w \<and>
    (\<forall>j. input w2 j = input w (Suc j))"
proof -
  obtain w1 where w1: "getc w = Some (input w 0, w1)" "io 1 [] w w1"
    using getc_io [OF assms(1)] by blast
  obtain w2 where w2: "put_all putc bs w1 = Some w2" "io 0 (concat (map (enc w1) bs)) w1 w2"
    using put_all_io [OF live_io [OF assms(2) w1(2)]] by blast
  have io: "io 1 (concat (map (enc w) bs)) w w2"
    using io_trans [OF w1(2) w2(2)] enc_io [OF w1(2)] by simp
  then show ?thesis
    using w1(1) w2(1) rx_io [OF assms(1) io] live_io [OF assms(2) io] enc_io [OF io] input_io [OF io]
    by auto
qed

text \<open>
  A line reader stores exactly the edited line, NUL-terminated, and echoes what was edited:
  the result of reading into an array of \<open>len\<close> bytes.
\<close>

definition line_result ::
  "nat \<Rightarrow> u8 list \<Rightarrow> u8 list \<Rightarrow> nat \<Rightarrow> 's \<Rightarrow> (u8 list \<times> int \<times> 's) option \<Rightarrow> bool" where
  "line_result len line echo k w r \<longleftrightarrow> (\<exists>buf' w'. r = Some (buf', s32 (int (length line)), w') \<and>
     length buf' = len \<and> take (length line) buf' = line \<and> buf' ! length line = 0 \<and>
     io k (concat (map (enc w) echo)) w w')"

lemma line_result_done:
  assumes "length buf = len" "unat i = length line" "take (length line) buf = line" "length line < len"
    and "io k (concat (map (enc w) echo)) w w'"
  shows "line_result len line echo k w (do { buf \<leftarrow> store buf i 0; Some (buf, s32 (uint i), w') })"
  using assms by (auto simp: line_result_def store_Some uint_nat)

lemma line_result_step:
  assumes "line_result len line echo k w1 r" and "io 1 (concat (map (enc w) e1)) w w1" and "enc w1 = enc w"
  shows "line_result len line (e1 @ echo) (Suc k) w r"
  using assms(1) io_trans [OF assms(2), of k "concat (map (enc w) echo)"] assms(3)
  by (auto simp: line_result_def)

lemma line_reader_full:
  assumes G: "line_reader putc getc eol n G" and n: "0 < n" "unat n \<le> len"
    and "length buf = len" "unat i = length acc" "take (length acc) buf = acc" "length acc = unat n - 1"
  shows "line_result len acc [] 0 w (G buf i w)"
proof -
  have "unat (n - 1) = unat n - 1" "0 < unat n"
    using n(1) unat_minus_one [of n] by (simp_all add: word_gt_0 unat_gt_0)
  then show ?thesis
    using line_result_done [of buf len i acc 0 w "[]" w] assms(4-) n io_refl [of w]
    by (subst G [unfolded line_reader_def, rule_format]) (simp add: word_less_nat_alt)
qed

lemma line_reader_delete:
  assumes G: "line_reader putc getc eol n G" and less: "i < n - 1"
    and w: "rx w" "live w" "input w 0 = c" and c: "c = 8 \<or> c = 0x7F"
    and rest: "\<And>w'. rx w' \<Longrightarrow> live w' \<Longrightarrow> (\<forall>j. input w' j = input w (Suc j)) \<Longrightarrow>
      line_result len line e k w' (G buf (if i > 0 then i - 1 else i) w')"
  shows "line_result len line ((if i > 0 then [8, 32, 8] else []) @ e) (Suc k) w (G buf i w)"
proof -
  let ?bs = "if i > 0 then [8, 32, 8] else [] :: u8 list"
  obtain w1 w2 where s: "getc w = Some (c, w1)" "put_all putc ?bs w1 = Some w2"
    "io 1 (concat (map (enc w) ?bs)) w w2" "rx w2" "live w2" "enc w2 = enc w"
    "\<forall>j. input w2 j = input w (Suc j)"
    using get_then_put [OF w(1,2), unfolded w(3), of ?bs] by blast
  have "G buf i w = G buf (if i > 0 then i - 1 else i) w2"
    using s(1,2) c less
    by (subst G [unfolded line_reader_def, rule_format]) (cases "i > 0"; simp del: put_all.simps)
  then show ?thesis using line_result_step [OF rest [OF s(4,5,7)] s(3,6)] by simp
qed

lemma line_reader_eol:
  assumes G: "line_reader putc getc eol n G" and n: "0 < n" "unat n \<le> len" and less: "i < n - 1"
    and w: "rx w" "live w" "input w 0 = c" and c: "c = 13 \<or> c = 10"
    and buf: "length buf = len" "unat i = length acc" "take (length acc) buf = acc" "length acc \<le> unat n - 1"
  shows "line_result len acc (eol c) 1 w (G buf i w)"
proof -
  have n0: "0 < unat n" using n(1) by (simp add: word_gt_0 unat_gt_0)
  obtain w1 w2 where s: "getc w = Some (c, w1)" "put_all putc (eol c) w1 = Some w2"
    "io 1 (concat (map (enc w) (eol c))) w w2"
    using get_then_put [OF w(1,2), unfolded w(3), of "eol c"] by blast
  have "line_result len acc (eol c) 1 w (do { buf \<leftarrow> store buf i 0; Some (buf, s32 (uint i), w2) })"
    using buf n n0 s(3) by (intro line_result_done) auto
  moreover have "G buf i w = do { buf \<leftarrow> store buf i 0; Some (buf, s32 (uint i), w2) }"
    using s(1,2) c less by (subst G [unfolded line_reader_def, rule_format]) auto
  ultimately show ?thesis by simp
qed

lemma line_reader_char:
  assumes G: "line_reader putc getc eol n G" and less: "i < n - 1" and i: "unat i < length buf"
    and w: "rx w" "live w" "input w 0 = c" and c: "c \<notin> {8, 0x7F, 13, 10}"
    and rest: "\<And>w'. rx w' \<Longrightarrow> live w' \<Longrightarrow> (\<forall>j. input w' j = input w (Suc j)) \<Longrightarrow>
      line_result len line e k w' (G (buf[unat i := c]) (i + 1) w')"
  shows "line_result len line (c # e) (Suc k) w (G buf i w)"
proof -
  obtain w1 w2 where s: "getc w = Some (c, w1)" "put_all putc [c] w1 = Some w2"
    "io 1 (concat (map (enc w) [c])) w w2" "rx w2" "live w2" "enc w2 = enc w"
    "\<forall>j. input w2 j = input w (Suc j)"
    using get_then_put [OF w(1,2), unfolded w(3), of "[c]"] by blast
  have "G buf i w = G (buf[unat i := c]) (i + 1) w2"
    using s(1,2) c less store_Some [OF i]
    by (subst G [unfolded line_reader_def, rule_format]) (simp del: put_all.simps)
  then show ?thesis using line_result_step [OF rest [OF s(4,5,7)] s(3,6)] by simp
qed

text \<open>The index into the array after a deletion and after a character.\<close>

lemma index_delete:
  fixes i :: u64
  assumes "unat i = length acc" and "take (length acc) buf = acc"
  shows "i > 0 \<longleftrightarrow> acc \<noteq> []" and "unat (if i > 0 then i - 1 else i) = length (butlast acc)"
    and "take (length (butlast acc)) buf = butlast acc"
proof -
  show i0: "i > 0 \<longleftrightarrow> acc \<noteq> []" using assms(1) by (auto simp: word_gt_0 unat_eq_zero)
  show "unat (if i > 0 then i - 1 else i) = length (butlast acc)"
    using assms(1) i0 unat_minus_one [of i] by (auto simp: word_gt_0)
  show "take (length (butlast acc)) buf = butlast acc"
    using assms(2) by (metis butlast_conv_take length_butlast take_take min.idem min_def diff_le_self)
qed

lemma index_insert:
  fixes i n :: u64
  assumes "unat i = length acc" and "take (length acc) buf = acc" and "unat i < length buf" and "i < n"
  shows "unat (i + 1) = length (acc @ [c])" and "take (length (acc @ [c])) (buf[unat i := c]) = acc @ [c]"
  using assms unat_succ [OF assms(4) [unfolded word_less_nat_alt]] by (simp_all add: take_Suc_conv_app_nth take_update_cancel)

lemma line_reader_edit:
  assumes G: "line_reader putc getc eol n G"
    and n: "0 < n" "unat n \<le> len"
  shows "edit_line eol (unat n - 1) acc cs = Some (line, echo, k) \<Longrightarrow>
    rx w \<Longrightarrow> live w \<Longrightarrow> (\<forall>j < length cs. input w j = cs ! j) \<Longrightarrow>
    length buf = len \<Longrightarrow> unat i = length acc \<Longrightarrow> take (length acc) buf = acc \<Longrightarrow>
    length acc \<le> unat n - 1 \<Longrightarrow> line_result len line echo k w (G buf i w)"
proof (induction cs arbitrary: acc w buf i line echo k)
  case Nil
  then show ?case
    using line_reader_full [OF G n Nil.prems(5-7)] by (auto split: if_splits)
next
  case (Cons c cs)
  have n1: "unat (n - 1) = unat n - 1" using n(1) unat_minus_one [of n] by (simp add: word_gt_0)
  show ?case
  proof (cases "unat n - 1 \<le> length acc")
    case True
    then show ?thesis using line_reader_full [OF G n Cons.prems(5-7)] Cons.prems(1,8) by simp
  next
    case False
    have less: "i < n - 1" using False Cons.prems(6) n1 by (simp add: word_less_nat_alt)
    have inp: "input w 0 = c" and inp': "\<forall>j < length cs. input w (Suc j) = cs ! j"
      using Cons.prems(4) by auto
    consider (del) "c = 8 \<or> c = 0x7F" | (eol) "c = 13 \<or> c = 10" | (chr) "c \<notin> {8, 0x7F, 13, 10}"
      by auto
    then show ?thesis
    proof cases
      case del
      obtain e k' where e: "edit_line eol (unat n - 1) (butlast acc) cs = Some (line, e, k')"
        "echo = (if acc = [] then [] else [8, 32, 8]) @ e" "k = Suc k'"
        using Cons.prems(1) del False by auto
      note ix = index_delete [OF Cons.prems(6,7)]
      have "line_result len line e k' w' (G buf (if i > 0 then i - 1 else i) w')"
        if "rx w'" "live w'" "\<forall>j. input w' j = input w (Suc j)" for w'
        using Cons.IH [OF e(1) that(1,2)] that(3) inp' Cons.prems(5,8) ix(2,3) by simp
      then have "line_result len line ((if i > 0 then [8, 32, 8] else []) @ e) (Suc k') w (G buf i w)"
        by (rule line_reader_delete [OF G less Cons.prems(2,3) inp del])
      moreover have "echo = (if i > 0 then [8, 32, 8] else []) @ e" using e(2) ix(1) by auto
      ultimately show ?thesis by (simp only: e(3))
    next
      case eol
      have "line = acc" "echo = eol c" "k = 1" using Cons.prems(1) eol False by auto
      then show ?thesis
        by (simp only: line_reader_eol [OF G n less Cons.prems(2,3) inp eol Cons.prems(5-8)])
    next
      case chr
      obtain e k' where e: "edit_line eol (unat n - 1) (acc @ [c]) cs = Some (line, e, k')"
        "echo = c # e" "k = Suc k'"
        using Cons.prems(1) chr False by auto
      have il: "unat i < length buf" using False Cons.prems(5,6) n by simp
      note ix = index_insert [OF Cons.prems(6,7) il less, of c]
      have "line_result len line e k' w' (G (buf[unat i := c]) (i + 1) w')"
        if "rx w'" "live w'" "\<forall>j. input w' j = input w (Suc j)" for w'
        using Cons.IH [OF e(1) that(1,2)] that(3) inp' Cons.prems(5) False ix by simp
      then have "line_result len line (c # e) (Suc k') w (G buf i w)"
        by (rule line_reader_char [OF G less il Cons.prems(2,3) inp chr])
      then show ?thesis unfolding e(2,3) .
    qed
  qed
qed

end

end
