(* ===== verification/DwUart.thy ===== *)
theory DwUart
  imports Console
begin

text \<open>
  The DesignWare (16550-compatible) driver: \<^verbatim>\<open>src/dev/dw_uart.c\<close> and the register
  definitions of \<^verbatim>\<open>include/dw_uart.h\<close>.  All operations of the driver are modelled.
  Its promise is the console interface (interpretation \<open>dw\<close>); the register programming of
  \<open>dw_uart_early_init\<close> is checked against the documented effect of 16550 register writes.
\<close>

section \<open>Registers\<close>

definition DW_UART_RBR :: "platform \<Rightarrow> u64" where
  "DW_UART_RBR p = UART_BASE p + push_bit (UART_REG_SHIFT p) 0x00"

definition DW_UART_THR :: "platform \<Rightarrow> u64" where
  "DW_UART_THR p = UART_BASE p + push_bit (UART_REG_SHIFT p) 0x00"

definition DW_UART_IER :: "platform \<Rightarrow> u64" where
  "DW_UART_IER p = UART_BASE p + push_bit (UART_REG_SHIFT p) 0x01"

definition DW_UART_FCR :: "platform \<Rightarrow> u64" where
  "DW_UART_FCR p = UART_BASE p + push_bit (UART_REG_SHIFT p) 0x02"

definition DW_UART_LCR :: "platform \<Rightarrow> u64" where
  "DW_UART_LCR p = UART_BASE p + push_bit (UART_REG_SHIFT p) 0x03"

definition DW_UART_USR :: "platform \<Rightarrow> u64" where
  "DW_UART_USR p = UART_BASE p + 0x7C"

definition DW_UART_DLL :: "platform \<Rightarrow> u64" where
  "DW_UART_DLL p = UART_BASE p + push_bit (UART_REG_SHIFT p) 0x00"

definition DW_UART_DLM :: "platform \<Rightarrow> u64" where
  "DW_UART_DLM p = UART_BASE p + push_bit (UART_REG_SHIFT p) 0x01"

definition DW_UART_LSR_DR :: u32 where "DW_UART_LSR_DR = push_bit 0 1"
definition DW_UART_LSR_THRE :: u32 where "DW_UART_LSR_THRE = push_bit 5 1"
definition DW_UART_LSR_TEMT :: u32 where "DW_UART_LSR_TEMT = push_bit 6 1"
definition DW_UART_FCR_ENABLE_FIFO :: u32 where "DW_UART_FCR_ENABLE_FIFO = push_bit 0 1"
definition DW_UART_FCR_CLEAR_RCVR :: u32 where "DW_UART_FCR_CLEAR_RCVR = push_bit 1 1"
definition DW_UART_FCR_CLEAR_XMIT :: u32 where "DW_UART_FCR_CLEAR_XMIT = push_bit 2 1"
definition DW_UART_LCR_DLAB :: u32 where "DW_UART_LCR_DLAB = push_bit 7 1"
definition DW_UART_USR_BUSY :: u32 where "DW_UART_USR_BUSY = push_bit 0 1"

lemmas dw_reg_defs = DW_UART_RBR_def DW_UART_THR_def DW_UART_IER_def DW_UART_FCR_def
  DW_UART_LCR_def DW_UART_USR_def DW_UART_DLL_def DW_UART_DLM_def DW_UART_LSR_def
  UART_REG_SHIFT_def

section \<open>Operations\<close>

text \<open>Byte accesses on QEMU, 32-bit accesses on the SG2002.\<close>

definition read_reg :: "u64 \<Rightarrow> 'a machine_scheme \<Rightarrow> u32 \<times> 'a machine_scheme" where
  "read_reg addr w =
     (let (v, w') = mmio_load addr w
      in (case plat w of PLATFORM_QEMU \<Rightarrow> ucast (ucast v :: u8) | PLATFORM_SG2002 \<Rightarrow> v, w'))"

definition write_reg :: "u32 \<Rightarrow> u64 \<Rightarrow> 'a machine_scheme \<Rightarrow> 'a machine_scheme" where
  "write_reg val addr w =
     (case plat w of PLATFORM_QEMU \<Rightarrow> mmio_store (ucast (ucast val :: u8)) addr w
                   | PLATFORM_SG2002 \<Rightarrow> mmio_store val addr w)"

text \<open>The bounded wait of \<^verbatim>\<open>dw_uart_wait_idle\<close>, from the remaining \<^verbatim>\<open>timeout\<close>.\<close>

fun dw_wait_idle_loop :: "nat \<Rightarrow> 'a machine_scheme \<Rightarrow> 'a machine_scheme" where
  "dw_wait_idle_loop 0 w = w"
| "dw_wait_idle_loop (Suc timeout) w =
     (let (lsr, w1) = read_reg (DW_UART_LSR (plat w)) w
      in case plat w of
        PLATFORM_SG2002 \<Rightarrow>
          (let (usr, w2) = read_reg (DW_UART_USR (plat w)) w1
           in if usr AND DW_UART_USR_BUSY = 0 \<and> lsr AND DW_UART_LSR_TEMT \<noteq> 0 then w2
              else dw_wait_idle_loop timeout w2)
      | PLATFORM_QEMU \<Rightarrow>
          (if lsr AND DW_UART_LSR_TEMT \<noteq> 0 then w1 else dw_wait_idle_loop timeout w1))"

definition dw_uart_wait_idle :: "'a machine_scheme \<Rightarrow> 'a machine_scheme" where
  "dw_uart_wait_idle w = dw_wait_idle_loop 100000 w"

definition dw_uart_tx_ready :: "'a machine_scheme \<Rightarrow> bool \<times> 'a machine_scheme" where
  "dw_uart_tx_ready w =
     (let (v, w') = read_reg (DW_UART_LSR (plat w)) w in (v AND DW_UART_LSR_THRE \<noteq> 0, w'))"

definition dw_uart_rx_ready :: "'a machine_scheme \<Rightarrow> bool \<times> 'a machine_scheme" where
  "dw_uart_rx_ready w =
     (let (v, w') = read_reg (DW_UART_LSR (plat w)) w in (v AND DW_UART_LSR_DR \<noteq> 0, w'))"

definition dw_uart_early_init :: "'a machine_scheme \<Rightarrow> 'a machine_scheme" where
  "dw_uart_early_init w =
     (let p = plat w;
          w = dw_uart_wait_idle w;
          w = write_reg 0 (DW_UART_IER p) w;
          divisor = UART_CLOCK p div (16 * UART_BAUDRATE);
          (lcr, w) = read_reg (DW_UART_LCR p) w;
          w = write_reg (lcr OR DW_UART_LCR_DLAB) (DW_UART_LCR p) w;
          w = write_reg (divisor AND 0xFF) (DW_UART_DLL p) w;
          w = write_reg (drop_bit 8 divisor AND 0xFF) (DW_UART_DLM p) w;
          w = write_reg (lcr AND NOT DW_UART_LCR_DLAB) (DW_UART_LCR p) w;
          w = write_reg 0x3 (DW_UART_LCR p) w
      in write_reg (DW_UART_FCR_ENABLE_FIFO OR DW_UART_FCR_CLEAR_RCVR OR DW_UART_FCR_CLEAR_XMIT)
           (DW_UART_FCR p) w)"

definition dw_uart_init :: "'a machine_scheme \<Rightarrow> 'a machine_scheme" where
  "dw_uart_init w = dw_uart_early_init w"

definition dw_uart_putchar :: "u8 \<Rightarrow> 'a machine_scheme \<Rightarrow> 'a machine_scheme option" where
  "dw_uart_putchar c w = do {
     w \<leftarrow> (if c = ch CHR 0x0A
           then do { w \<leftarrow> busy_wait dw_uart_tx_ready w;
                     Some (write_reg (ucast (ch CHR 0x0D)) (DW_UART_THR (plat w)) w) }
           else Some w);
     w \<leftarrow> busy_wait dw_uart_tx_ready w;
     Some (write_reg (ucast c) (DW_UART_THR (plat w)) w) }"

definition dw_uart_puts :: "cptr \<Rightarrow> 'a machine_scheme \<Rightarrow> 'a machine_scheme option" where
  "dw_uart_puts s w = for_chars dw_uart_putchar s 0 w"

definition dw_uart_getchar :: "'a machine_scheme \<Rightarrow> (u8 \<times> 'a machine_scheme) option" where
  "dw_uart_getchar w = do {
     w \<leftarrow> busy_wait dw_uart_rx_ready w;
     let (v, w) = read_reg (DW_UART_RBR (plat w)) w;
     Some (ucast (v AND 0xFF), w) }"

definition dw_uart_try_getchar :: "'a machine_scheme \<Rightarrow> int \<times> 'a machine_scheme" where
  "dw_uart_try_getchar w =
     (let (b, w) = dw_uart_rx_ready w
      in if b then (let (v, w) = read_reg (DW_UART_RBR (plat w)) w in (uint (v AND 0xFF), w))
         else (- 1, w))"

text \<open>
  The line reader.  The caller's buffer is an array object; the loop state is the array,
  the index \<^verbatim>\<open>i\<close> and the machine.  The result is the array, the returned length and the
  machine.
\<close>

partial_function (option) dw_gets_loop ::
  "u64 \<Rightarrow> u8 list \<Rightarrow> u64 \<Rightarrow> 'a machine_scheme \<Rightarrow> (u8 list \<times> int \<times> 'a machine_scheme) option" where
  "dw_gets_loop buffer_size buffer i w =
     (if i < buffer_size - 1 then do {
        (c, w) \<leftarrow> dw_uart_getchar w;
        if c = ch CHR 0x08 \<or> c = 0x7F then
          (if i > 0 then do {
             w \<leftarrow> dw_uart_puts (obj [0x08, ch CHR '' '', 0x08, 0]) w;
             dw_gets_loop buffer_size buffer (i - 1) w }
           else dw_gets_loop buffer_size buffer i w)
        else do {
          w \<leftarrow> dw_uart_putchar c w;
          if c = ch CHR 0x0D \<or> c = ch CHR 0x0A then do {
            buffer \<leftarrow> store buffer i 0;
            w \<leftarrow> dw_uart_putchar (ch CHR 0x0A) w;
            Some (buffer, s32 (uint i), w) }
          else do {
            buffer \<leftarrow> store buffer i c;
            dw_gets_loop buffer_size buffer (i + 1) w } } }
      else do {
        buffer \<leftarrow> store buffer i 0;
        Some (buffer, s32 (uint i), w) })"

declare dw_gets_loop.simps [code]

definition dw_uart_gets ::
  "u8 list \<Rightarrow> u64 \<Rightarrow> 'a machine_scheme \<Rightarrow> (u8 list \<times> int \<times> 'a machine_scheme) option" where
  "dw_uart_gets buffer buffer_size w = dw_gets_loop buffer_size buffer 0 w"

definition dw_uart_data_available :: "'a machine_scheme \<Rightarrow> bool \<times> 'a machine_scheme" where
  "dw_uart_data_available w = dw_uart_rx_ready w"

text \<open>\<open>"0x"\<close> and all sixteen digits, upper case: \<^verbatim>\<open>buffer[17 - i]\<close> for \<open>i\<close> from 15 down to 0.\<close>

definition dw_uart_print_hex :: "u64 \<Rightarrow> 'a machine_scheme \<Rightarrow> 'a machine_scheme option" where
  "dw_uart_print_hex val w =
     (let hex = str ''0123456789ABCDEF'';
          buffer = [ch CHR ''0'', ch CHR ''x''] @
            map (\<lambda>i. hex ! unat (drop_bit (i * 4) val AND 0xF)) (rev [0..<16]) @ [0]
      in dw_uart_puts (obj buffer) w)"

definition dw_uart_print_dec :: "int \<Rightarrow> 'a machine_scheme \<Rightarrow> 'a machine_scheme option" where
  "dw_uart_print_dec val w = do {
     let (negative, val) = (if val < 0 then (True, s64 (- val)) else (False, val));
     buffer \<leftarrow> dec_digits_loop 32 [] val;
     buffer \<leftarrow> (if negative then push 32 buffer (ch CHR ''-'') else Some buffer);
     let buffer' = swap_loop buffer 0 (length buffer - 1);
     buffer' \<leftarrow> push 32 buffer' 0;
     dw_uart_puts (obj buffer') w }"

section \<open>The driver keeps the console contract\<close>

definition dw_live :: "'a machine_scheme \<Rightarrow> bool" where
  "dw_live w \<longleftrightarrow> uart_ty w = UART_TYPE_DW \<and> tx_live w"

definition dw_rx :: "'a machine_scheme \<Rightarrow> bool" where
  "dw_rx w \<longleftrightarrow> uart_ty w = UART_TYPE_DW \<and> rx_live w"

lemma and_bit_nz: "(v AND push_bit n 1 \<noteq> 0) = bit v n" for v :: "'a::len word"
  by (simp add: push_bit_eq_mult and_exp_eq_0_iff_not_bit)

lemma thre_bit: "v AND DW_UART_LSR_THRE \<noteq> 0 \<longleftrightarrow> bit v 5"
  unfolding DW_UART_LSR_THRE_def by (rule and_bit_nz)

lemma dr_bit: "v AND DW_UART_LSR_DR \<noteq> 0 \<longleftrightarrow> bit v 0"
  unfolding DW_UART_LSR_DR_def by (rule and_bit_nz)

lemma read_reg_bit:
  assumes "n < 8"
  shows "bit (fst (read_reg a w)) n = bit (mmio_rd w a (mmio_cnt w a)) n"
  using assms by (auto simp: read_reg_def mmio_load_def bit_ucast_iff split: platform.split)

lemma snd_read_reg:
  "snd (read_reg a w) = w\<lparr>mmio_cnt := (mmio_cnt w)(a := Suc (mmio_cnt w a))\<rparr>"
  by (simp add: read_reg_def mmio_load_def)

lemma dw_tx_ready_poll:
  "dw_uart_tx_ready w = (bit (mmio_rd w (DW_UART_LSR (plat w)) (mmio_cnt w (DW_UART_LSR (plat w)))) 5,
     w\<lparr>mmio_cnt := (mmio_cnt w)(DW_UART_LSR (plat w) := Suc (mmio_cnt w (DW_UART_LSR (plat w))))\<rparr>)"
  using read_reg_bit [of 5 "DW_UART_LSR (plat w)" w] snd_read_reg [of "DW_UART_LSR (plat w)" w]
  by (simp add: dw_uart_tx_ready_def thre_bit case_prod_unfold)

lemma dw_rx_ready_poll:
  "dw_uart_rx_ready w = (bit (mmio_rd w (DW_UART_LSR (plat w)) (mmio_cnt w (DW_UART_LSR (plat w)))) 0,
     w\<lparr>mmio_cnt := (mmio_cnt w)(DW_UART_LSR (plat w) := Suc (mmio_cnt w (DW_UART_LSR (plat w))))\<rparr>)"
  using read_reg_bit [of 0 "DW_UART_LSR (plat w)" w] snd_read_reg [of "DW_UART_LSR (plat w)" w]
  by (simp add: dw_uart_rx_ready_def dr_bit case_prod_unfold del: bit_0)

text \<open>Waiting for the transmitter or the receiver polls the line status register only.\<close>

lemma dw_wait_tx:
  assumes "dw_live w"
  shows "\<exists>n. busy_wait dw_uart_tx_ready w = Some (w\<lparr>mmio_cnt := (mmio_cnt w)(uart_status w := n)\<rparr>)"
proof (rule busy_wait_poll [where P = "\<lambda>v. bit v 5"])
  show "\<forall>k. \<exists>j \<ge> k. bit (mmio_rd w (uart_status w) j) 5"
    using assms by (auto simp: dw_live_def tx_live_def tx_ok_def)
qed (use assms in \<open>simp add: dw_tx_ready_poll dw_live_def uart_status_def\<close>)

lemma dw_wait_rx:
  assumes "dw_rx w"
  shows "\<exists>n. busy_wait dw_uart_rx_ready w = Some (w\<lparr>mmio_cnt := (mmio_cnt w)(uart_status w := n)\<rparr>)"
proof (rule busy_wait_poll [where P = "\<lambda>v. bit v 0"])
  show "\<forall>k. \<exists>j \<ge> k. bit (mmio_rd w (uart_status w) j) 0"
    using assms by (auto simp: dw_rx_def rx_live_def rx_ok_def simp del: bit_0)
qed (use assms in \<open>simp add: dw_rx_ready_poll dw_rx_def uart_status_def\<close>)

lemma dw_write_thr:
  "uart_io 0 [c] w (write_reg (ucast c) (DW_UART_THR (plat w)) w)"
  unfolding uart_io_def
  by (rule exI [of _ "mmio_cnt w (uart_status w)"])
    (simp add: write_reg_def mmio_store_def uart_data_def DW_UART_THR_def split: platform.split)

lemma dw_send:
  assumes "dw_live w"
  shows "\<exists>w1. busy_wait dw_uart_tx_ready w = Some w1 \<and>
    uart_io 0 [c] w (write_reg (ucast c) (DW_UART_THR (plat w1)) w1)"
proof -
  obtain w1 where w1: "busy_wait dw_uart_tx_ready w = Some w1" "uart_io 0 [] w w1"
    using dw_wait_tx [OF assms] uart_io_poll by blast
  show ?thesis using w1 uart_io_trans [OF w1(2) dw_write_thr] by simp
qed

lemma dw_live_io: "dw_live w \<Longrightarrow> uart_io k bs w w' \<Longrightarrow> dw_live w'"
  by (auto simp: dw_live_def io_frame intro: tx_live_io)

lemma dw_rx_io: "dw_rx w \<Longrightarrow> uart_io k bs w w' \<Longrightarrow> dw_rx w'"
  by (auto simp: dw_rx_def io_frame intro: rx_live_io)

lemma dw_putchar_io:
  assumes "dw_live w"
  shows "\<exists>w'. dw_uart_putchar c w = Some w' \<and> uart_io 0 (crlf c) w w'"
proof (cases "c = 10")
  case True
  obtain w1 where w1: "busy_wait dw_uart_tx_ready w = Some w1"
    "uart_io 0 [13] w (write_reg (ucast (13 :: u8)) (DW_UART_THR (plat w1)) w1)" (is "uart_io _ _ _ ?w1")
    using dw_send [OF assms] by blast
  obtain w2 where w2: "busy_wait dw_uart_tx_ready ?w1 = Some w2"
    "uart_io 0 [c] ?w1 (write_reg (ucast c) (DW_UART_THR (plat w2)) w2)"
    using dw_send [OF dw_live_io [OF assms w1(2)]] by blast
  show ?thesis
    using w1 w2 uart_io_trans [OF w1(2) w2(2)] True
    by (simp add: dw_uart_putchar_def crlf_def)
next
  case False
  then show ?thesis
    using dw_send [OF assms, of c] by (auto simp: dw_uart_putchar_def crlf_def)
qed

lemma read_rbr_io:
  "uart_io 1 [] w (snd (read_reg (DW_UART_RBR (plat w)) w))"
  "ucast (fst (read_reg (DW_UART_RBR (plat w)) w) AND 0xFF) = rx_input w 0"
proof -
  have data: "uart_data w = DW_UART_RBR (plat w)" by (simp add: uart_data_def DW_UART_RBR_def)
  show "uart_io 1 [] w (snd (read_reg (DW_UART_RBR (plat w)) w))"
    unfolding uart_io_def
    by (rule exI [of _ "mmio_cnt w (uart_status w)"])
      (simp add: snd_read_reg fun_upd_twist flip: data)
  show "ucast (fst (read_reg (DW_UART_RBR (plat w)) w) AND 0xFF) = rx_input w 0"
    by (simp add: read_reg_def mmio_load_def rx_input_def uart_data_def DW_UART_RBR_def low_byte
        split: platform.split)
qed

lemma dw_getchar_io:
  assumes "dw_rx w"
  shows "\<exists>w'. dw_uart_getchar w = Some (rx_input w 0, w') \<and> uart_io 1 [] w w'"
proof -
  obtain w1 where w1: "busy_wait dw_uart_rx_ready w = Some w1" "uart_io 0 [] w w1"
    using dw_wait_rx [OF assms] uart_io_poll by blast
  show ?thesis
    using w1 read_rbr_io [of w1] uart_io_trans [OF w1(2) read_rbr_io(1)] rx_input_io [OF w1(2), of 0]
    by (simp add: dw_uart_getchar_def case_prod_unfold)
qed

interpretation dw: console dw_uart_putchar "\<lambda>_. crlf" dw_live uart_io dw_uart_getchar dw_rx rx_input
  by unfold_locales
    (auto intro: uart_io_refl uart_io_trans dw_live_io dw_rx_io dw_putchar_io dw_getchar_io
      [unfolded One_nat_def] simp: rx_input_io)

section \<open>Printing\<close>

lemma dw_puts_outputs:
  assumes "dw_live w" and "is_cstr v s"
  shows "outputs (dw_uart_puts v) (concat (map crlf s)) w"
  using dw.for_chars_io [OF assms] by (simp add: outputs_def dw_uart_puts_def)

text \<open>A decimal number never fills the 32-byte buffer.\<close>

lemma dw_print_dec_outputs:
  assumes "dw_live w" and "- (2 ^ 63) < val" and "val < 2 ^ 63"
  shows "outputs (dw_uart_print_dec val) (show_int val) w"
proof -
  define n where "n = nat \<bar>val\<bar>"
  have len: "length (show_nat 10 n) \<le> 20"
    using length_show_int [of val] assms(2,3) by (simp add: show_int_def n_def abs_if split: if_splits)
  have neg: "val < 0 \<Longrightarrow> s64 (- val) = int n" "\<not> val < 0 \<Longrightarrow> val = int n"
    using assms(2,3) by (auto simp: n_def s64_id)
  have loop: "dec_digits_loop 32 [] (int n) = Some (rev (show_nat 10 n))"
    using dec_digits_loop_eq [of 32 "[]" n] len by simp
  have rev: "swap_loop xs 0 (length xs - 1) = rev xs" if "xs \<noteq> []" for xs
    using swap_loop_rev [of xs "[]"] that by simp
  have "dw_uart_print_dec val w = dw_uart_puts (obj (show_int val @ [0])) w"
    using neg loop len rev [of "rev (show_nat 10 n)"] rev [of "rev (show_nat 10 n) @ [45]"]
      show_nat_nonempty [of 10 n]
    by (cases "val < 0") (auto simp: dw_uart_print_dec_def push_Some show_int_def n_def)
  moreover have "is_cstr (obj (show_int val @ [0])) (show_int val)"
    using is_cstr_obj [of "show_int val" "[]"] show_int_nz length_show_int [of val] assms(2,3) by simp
  ultimately show ?thesis
    using dw_puts_outputs [OF assms(1)] concat_crlf [OF show_int_no_lf] by (metis outputs_def)
qed

text \<open>All sixteen digits of a 64-bit value, upper case, most significant first.\<close>

definition hex16 :: "u64 \<Rightarrow> u8 list" where
  "hex16 v = map (\<lambda>i. str ''0123456789ABCDEF'' ! (unat v div 16 ^ i mod 16)) (rev [0..<16])"

lemma hex16_chars: "c \<in> set (hex16 v) \<Longrightarrow> 48 \<le> unat c"
proof -
  have hex_len: "length (str ''0123456789ABCDEF'') = 16" by simp
  assume "c \<in> set (hex16 v)"
  then obtain i where "c = str ''0123456789ABCDEF'' ! (unat v div 16 ^ i mod 16)"
    unfolding hex16_def by (auto simp del: str_simps)
  then have "c \<in> set (str ''0123456789ABCDEF'')" by (metis length_str nth_mem mod_less_divisor hex_len zero_less_numeral)
  then show ?thesis by auto
qed

lemma length_hex16 [simp]: "length (hex16 v) = 16"
  by (simp add: hex16_def)

lemma dw_print_hex_outputs:
  assumes "dw_live w"
  shows "outputs (dw_uart_print_hex val) (str ''0x'' @ hex16 val) w"
proof -
  have "dw_uart_print_hex val w = dw_uart_puts (obj ((str ''0x'' @ hex16 val) @ [0])) w"
    unfolding dw_uart_print_hex_def hex16_def Let_def nibble by simp
  moreover have "is_cstr (obj ((str ''0x'' @ hex16 val) @ [0])) (str ''0x'' @ hex16 val)"
    using hex16_chars [of 0 val] by (intro is_cstr_obj) auto
  moreover have "concat (map crlf (str ''0x'' @ hex16 val)) = str ''0x'' @ hex16 val"
    using hex16_chars [of 10 val] by (intro concat_crlf) auto
  ultimately show ?thesis
    using dw_puts_outputs [OF assms] by (metis outputs_def)
qed

text \<open>
  The most negative value has no positive counterpart: \<^verbatim>\<open>-value\<close> is still negative, the
  loop stops after one digit, and what comes out is \<open>"-("\<close>.
\<close>

lemma dw_print_dec_min_outputs:
  assumes "dw_live w"
  shows "outputs (dw_uart_print_dec (- (2 ^ 63))) (str ''-('') w"
proof -
  have "dec_digits_loop 32 [] (- (2 ^ 63)) = Some [40]"
    by (subst dec_digits_loop.simps) (simp add: push_def signed_divide_int_def signed_modulo_int_def)
  then have "dw_uart_print_dec (- (2 ^ 63)) w = dw_uart_puts (obj (str ''-('' @ [0])) w"
    by (simp add: dw_uart_print_dec_def s64_def push_def swap_loop.simps)
  then show ?thesis
    using dw_puts_outputs [OF assms is_cstr_lit [of "''-(''"]] 
    by (simp add: lit_def outputs_def crlf_def)
qed

section \<open>Reading a line\<close>

lemma obj_rubout: "is_cstr (obj [8, 32, 8, 0]) [8, 32, 8]"
  using is_cstr_obj [of "[8, 32, 8]" "[]"] by simp

lemma dw_gets_line_reader:
  "line_reader dw_uart_putchar dw_uart_getchar (\<lambda>c. [c, 10]) n (dw_gets_loop n)"
  unfolding line_reader_def
proof (intro allI)
  fix buf :: "u8 list" and i and w :: "'a machine_scheme"
  have rub: "dw_uart_puts (obj [8, 32, 8, 0]) w = put_all dw_uart_putchar [8, 32, 8] w" for w :: "'a machine_scheme"
    using for_chars_cstr [OF obj_rubout, of dw_uart_putchar] by (simp add: dw_uart_puts_def)
  show "dw_gets_loop n buf i w =
     (if i < n - 1 then do {
        (c, w) \<leftarrow> dw_uart_getchar w;
        if c = 8 \<or> c = 0x7F then
          do { w \<leftarrow> put_all dw_uart_putchar (if i > 0 then [8, 32, 8] else []) w;
               dw_gets_loop n buf (if i > 0 then i - 1 else i) w }
        else if c = 13 \<or> c = 10 then
          do { w \<leftarrow> put_all dw_uart_putchar [c, 10] w; buf \<leftarrow> store buf i 0; Some (buf, s32 (uint i), w) }
        else do { w \<leftarrow> put_all dw_uart_putchar [c] w; buf \<leftarrow> store buf i c; dw_gets_loop n buf (i + 1) w } }
      else do { buf \<leftarrow> store buf i 0; Some (buf, s32 (uint i), w) })"
    by (subst dw_gets_loop.simps, cases "dw_uart_getchar w"; cases "store buf i 0"; cases "i > 0")
      (simp_all add: rub case_prod_unfold cong: if_cong)
qed

section \<open>Initialisation\<close>

text \<open>
  The documented effect of register writes on a 16550: offsets 0 and 1 are the divisor latch
  while \<^verbatim>\<open>DLAB\<close> (bit 7 of the line control register) is set, otherwise the transmit
  holding register and the interrupt enable register.
\<close>

record ns16550 =
  r_ier :: u8
  r_lcr :: u8
  r_fcr :: u8
  r_dll :: u8
  r_dlm :: u8
  sent :: "u8 list"

definition ns16550_write :: "platform \<Rightarrow> u64 \<times> u32 \<Rightarrow> ns16550 \<Rightarrow> ns16550" where
  "ns16550_write p av d =
     (let (a, x) = av; v = ucast x; dlab = bit (r_lcr d) 7
      in if a = DW_UART_LCR p then d\<lparr>r_lcr := v\<rparr>
         else if a = DW_UART_THR p then (if dlab then d\<lparr>r_dll := v\<rparr> else d\<lparr>sent := sent d @ [v]\<rparr>)
         else if a = DW_UART_IER p then (if dlab then d\<lparr>r_dlm := v\<rparr> else d\<lparr>r_ier := v\<rparr>)
         else if a = DW_UART_FCR p then d\<lparr>r_fcr := v\<rparr>
         else d)"

definition ns16550_run :: "platform \<Rightarrow> (u64 \<times> u32) list \<Rightarrow> ns16550 \<Rightarrow> ns16550" where
  "ns16550_run p ops d = fold (ns16550_write p) ops d"

definition dw_reg_val :: "platform \<Rightarrow> u32 \<Rightarrow> u32" where
  "dw_reg_val p v = (case p of PLATFORM_QEMU \<Rightarrow> ucast (ucast v :: u8) | PLATFORM_SG2002 \<Rightarrow> v)"

lemma write_reg_eq: "write_reg v a w = w\<lparr>mmio_log := mmio_log w @ [(a, dw_reg_val (plat w) v)]\<rparr>"
  by (simp add: write_reg_def mmio_store_def dw_reg_val_def split: platform.split)

lemma read_reg_eq:
  "read_reg a w = (dw_reg_val (plat w) (mmio_rd w a (mmio_cnt w a)),
     w\<lparr>mmio_cnt := (mmio_cnt w)(a := Suc (mmio_cnt w a))\<rparr>)"
  by (simp add: read_reg_def mmio_load_def dw_reg_val_def)

lemma ucast_dw_reg_val [simp]: "(ucast (dw_reg_val p v) :: u8) = ucast v"
  by (simp add: dw_reg_val_def split: platform.split)

lemma dw_wait_idle_frame:
  fixes w :: "'a machine_scheme"
  shows "\<exists>c. dw_wait_idle_loop t w = w\<lparr>mmio_cnt := c\<rparr>"
proof (induction t arbitrary: w)
  case 0
  show ?case by (rule exI [of _ "mmio_cnt w"]) simp
next
  case (Suc t)
  obtain f where f: "\<And>v :: 'a machine_scheme. dw_wait_idle_loop t v = v\<lparr>mmio_cnt := f v\<rparr>"
    using Suc.IH by metis
  show ?case
    by (cases "plat w") (auto simp: read_reg_eq f)
qed

text \<open>The bounded wait polls the line status register at most \<open>t\<close> times.\<close>

lemma dw_wait_idle_bound:
  "mmio_cnt (dw_wait_idle_loop t w) (DW_UART_LSR (plat w)) \<le> mmio_cnt w (DW_UART_LSR (plat w)) + t"
proof (induction t arbitrary: w)
  case (Suc t)
  show ?case
    using Suc.IH [of "snd (read_reg (DW_UART_LSR (plat w)) w)"]
      Suc.IH [of "snd (read_reg (DW_UART_USR (plat w)) (snd (read_reg (DW_UART_LSR (plat w)) w)))"]
    by (cases "plat w") (auto simp: read_reg_eq dw_reg_defs)
qed simp

lemma lcr_dlab:
  "bit (ucast ((lcr :: u32) OR DW_UART_LCR_DLAB) :: u8) 7"
  "\<not> bit (ucast (lcr AND NOT DW_UART_LCR_DLAB) :: u8) 7"
  unfolding DW_UART_LCR_DLAB_def
  by (simp_all add: bit_simps del: push_bit_of_1)

text \<open>The writes of \<open>dw_uart_early_init\<close>, for whatever value the line control register held.\<close>

definition dw_init_writes :: "platform \<Rightarrow> u32 \<Rightarrow> (u64 \<times> u32) list" where
  "dw_init_writes p lcr =
     [(DW_UART_IER p, 0), (DW_UART_LCR p, lcr OR DW_UART_LCR_DLAB),
      (DW_UART_DLL p, (UART_CLOCK p div (16 * UART_BAUDRATE)) AND 0xFF),
      (DW_UART_DLM p, drop_bit 8 (UART_CLOCK p div (16 * UART_BAUDRATE)) AND 0xFF),
      (DW_UART_LCR p, lcr AND NOT DW_UART_LCR_DLAB), (DW_UART_LCR p, 3),
      (DW_UART_FCR p, DW_UART_FCR_ENABLE_FIFO OR DW_UART_FCR_CLEAR_RCVR OR DW_UART_FCR_CLEAR_XMIT)]"

lemma dw_early_init_log:
  "\<exists>lcr. mmio_log (dw_uart_early_init w) =
     mmio_log w @ map (\<lambda>(a, v). (a, dw_reg_val (plat w) v)) (dw_init_writes (plat w) lcr)"
proof -
  obtain c where c: "dw_uart_wait_idle w = w\<lparr>mmio_cnt := c\<rparr>"
    using dw_wait_idle_frame by (auto simp: dw_uart_wait_idle_def)
  show ?thesis
    unfolding dw_uart_early_init_def dw_init_writes_def Let_def c
    by (simp add: write_reg_eq read_reg_eq) (rule exI, rule conjI [OF refl], rule refl)
qed

lemma dw_early_init_device:
  "ns16550_run (plat w) (drop (length (mmio_log w)) (mmio_log (dw_uart_early_init w))) d =
    d\<lparr>r_ier := (if bit (r_lcr d) 7 then r_ier d else 0), r_dll := (case plat w of PLATFORM_QEMU \<Rightarrow> 5 | PLATFORM_SG2002 \<Rightarrow> 2), r_dlm := 0,
      r_lcr := 3, r_fcr := 7\<rparr>"
proof -
  obtain lcr where lcr: "mmio_log (dw_uart_early_init w) =
     mmio_log w @ map (\<lambda>(a, v). (a, dw_reg_val (plat w) v)) (dw_init_writes (plat w) lcr)"
    using dw_early_init_log by blast
  show ?thesis
    using lcr_dlab [of lcr]
    by (cases "plat w"; cases "bit (r_lcr d) 7") (simp_all add: lcr dw_init_writes_def ns16550_run_def ns16550_write_def Let_def
      dw_reg_defs UART_BAUDRATE_def DW_UART_FCR_ENABLE_FIFO_def DW_UART_FCR_CLEAR_RCVR_def
      DW_UART_FCR_CLEAR_XMIT_def)
qed

section \<open>Properties\<close>

text \<open>
  C40.  Initialisation leaves a 16550 in any state with eight data bits without parity, FIFOs enabled and cleared, the divisor
  latch closed, and in it the clock divided by 16 times 115200, rounded down: 2 on the SG2002, which is 115200 baud, and 5 on
  QEMU, which at the configured 10 MHz is 125000.  The interrupts are off if the divisor latch was closed before; if
  it was open, the write meant for the interrupt enable register goes to the divisor, and that register keeps its value.  No
  byte is transmitted, and the bounded wait for the transmitter reads the line status register at most 100000 times.
\<close>

theorem dw_uart_init_programs:
  "ns16550_run (plat w) (drop (length (mmio_log w)) (mmio_log (dw_uart_init w))) d =
      d\<lparr>r_ier := (if bit (r_lcr d) 7 then r_ier d else 0),
        r_dll := (case plat w of PLATFORM_QEMU \<Rightarrow> 5 | PLATFORM_SG2002 \<Rightarrow> 2), r_dlm := 0,
        r_lcr := 3, r_fcr := 7\<rparr> \<and>
    UART_CLOCK (plat w) div (16 * UART_BAUDRATE) = (case plat w of PLATFORM_QEMU \<Rightarrow> 5 | PLATFORM_SG2002 \<Rightarrow> 2) \<and>
    mmio_cnt (dw_uart_wait_idle w) (DW_UART_LSR (plat w)) \<le> mmio_cnt w (DW_UART_LSR (plat w)) + 100000"
  using dw_early_init_device [of w d] dw_wait_idle_bound [of 100000 w]
  by (cases "plat w") (simp_all add: dw_uart_init_def dw_uart_wait_idle_def UART_BAUDRATE_def)

theorem dw_uart_init_programs_witness:
  "ns16550_run PLATFORM_QEMU (mmio_log (dw_uart_init (ready_machine PLATFORM_QEMU UART_TYPE_DW ())))
     \<lparr>r_ier = 1, r_lcr = 0, r_fcr = 0, r_dll = 0, r_dlm = 0, sent = []\<rparr> =
   \<lparr>r_ier = 0, r_lcr = 3, r_fcr = 7, r_dll = 5, r_dlm = 0, sent = []\<rparr>"
proof -
  have "plat (ready_machine PLATFORM_QEMU UART_TYPE_DW ()) = PLATFORM_QEMU"
    "mmio_log (ready_machine PLATFORM_QEMU UART_TYPE_DW ()) = []"
    by (simp_all add: ready_machine_def)
  then show ?thesis
    using dw_uart_init_programs [of "ready_machine PLATFORM_QEMU UART_TYPE_DW ()"
      "\<lparr>r_ier = 1, r_lcr = 0, r_fcr = 0, r_dll = 0, r_dlm = 0, sent = []\<rparr>"] by simp
qed

end
