(* ===== verification/Pl011.thy ===== *)
theory Pl011
  imports Console
begin

text \<open>
  The PL011 driver: \<^verbatim>\<open>src/dev/pl011.c\<close> and \<^verbatim>\<open>include/pl011.h\<close>, complete.  Neither platform
  of \<^verbatim>\<open>cfg.h\<close> selects it (\<open>cfg_uart_type\<close>); it is the second provider of the console
  interface (interpretation \<open>pl011\<close>).
\<close>

definition UART_DR :: u64 where "UART_DR = 0x00"
definition UART_IBRD :: u64 where "UART_IBRD = 0x24"
definition UART_FBRD :: u64 where "UART_FBRD = 0x28"
definition UART_LCR_H :: u64 where "UART_LCR_H = 0x2c"
definition UART_CR :: u64 where "UART_CR = 0x30"
definition UART_ICR :: u64 where "UART_ICR = 0x44"

definition UART_FR_TXFF :: u32 where "UART_FR_TXFF = push_bit 5 1"
definition UART_FR_RXFE :: u32 where "UART_FR_RXFE = push_bit 4 1"
definition UART_CR_UARTEN :: u32 where "UART_CR_UARTEN = push_bit 0 1"
definition UART_CR_TXE :: u32 where "UART_CR_TXE = push_bit 8 1"
definition UART_CR_RXE :: u32 where "UART_CR_RXE = push_bit 9 1"
definition UART_LCR_H_FEN :: u32 where "UART_LCR_H_FEN = push_bit 4 1"
definition UART_LCR_H_WLEN_8 :: u32 where "UART_LCR_H_WLEN_8 = push_bit 5 3"

definition write32 :: "u64 \<Rightarrow> u32 \<Rightarrow> 'a machine_scheme \<Rightarrow> 'a machine_scheme" where
  "write32 addr val w = mmio_store val addr w"

definition read32 :: "u64 \<Rightarrow> 'a machine_scheme \<Rightarrow> u32 \<times> 'a machine_scheme" where
  "read32 addr w = mmio_load addr w"

text \<open>The integer and fractional divisors that \<open>pl011_init\<close> computes from a clock.\<close>

definition pl011_divider :: "u32 \<Rightarrow> u32" where
  "pl011_divider clock = clock div (16 * UART_BAUDRATE)"

definition pl011_fraction :: "u32 \<Rightarrow> u32" where
  "pl011_fraction clock = (let remainder = clock mod (16 * UART_BAUDRATE) in (8 * remainder) div UART_BAUDRATE)"

definition pl011_init :: "'a machine_scheme \<Rightarrow> 'a machine_scheme" where
  "pl011_init w =
     (let b = UART_BASE (plat w);
          w = write32 (b + UART_CR) 0 w;
          w = write32 (b + UART_ICR) 0x7FF w;
          divider = pl011_divider (UART_CLOCK (plat w));
          fraction = pl011_fraction (UART_CLOCK (plat w));
          w = write32 (b + UART_IBRD) divider w;
          w = write32 (b + UART_FBRD) fraction w;
          w = write32 (b + UART_LCR_H) (UART_LCR_H_WLEN_8 OR UART_LCR_H_FEN) w
      in write32 (b + UART_CR) (UART_CR_UARTEN OR UART_CR_TXE OR UART_CR_RXE) w)"

text \<open>The conditions of the two polling loops.\<close>

definition pl011_tx_free :: "'a machine_scheme \<Rightarrow> bool \<times> 'a machine_scheme" where
  "pl011_tx_free w =
     (let (v, w') = read32 (UART_BASE (plat w) + UART_FR) w in (v AND UART_FR_TXFF = 0, w'))"

definition pl011_rx_full :: "'a machine_scheme \<Rightarrow> bool \<times> 'a machine_scheme" where
  "pl011_rx_full w =
     (let (v, w') = read32 (UART_BASE (plat w) + UART_FR) w in (v AND UART_FR_RXFE = 0, w'))"

definition pl011_putchar :: "u8 \<Rightarrow> 'a machine_scheme \<Rightarrow> 'a machine_scheme option" where
  "pl011_putchar c w = do {
     w \<leftarrow> busy_wait pl011_tx_free w;
     Some (write32 (UART_BASE (plat w) + UART_DR) (ucast c) w) }"

definition pl011_getchar :: "'a machine_scheme \<Rightarrow> (u8 \<times> 'a machine_scheme) option" where
  "pl011_getchar w = do {
     w \<leftarrow> busy_wait pl011_rx_full w;
     let (v, w) = read32 (UART_BASE (plat w) + UART_DR) w;
     Some (ucast (v AND 0xFF), w) }"

definition pl011_puts :: "cptr \<Rightarrow> 'a machine_scheme \<Rightarrow> 'a machine_scheme option" where
  "pl011_puts s w = for_chars (\<lambda>c w. do {
       w \<leftarrow> (if c = ch CHR 0x0A then pl011_putchar (ch CHR 0x0D) w else Some w);
       pl011_putchar c w }) s 0 w"

section \<open>The driver keeps the console contract\<close>

text \<open>Unlike the DesignWare driver's, this \<^verbatim>\<open>putchar\<close> sends the byte as it is.\<close>

definition pl011_live :: "'a machine_scheme \<Rightarrow> bool" where
  "pl011_live w \<longleftrightarrow> uart_ty w = UART_TYPE_PL011 \<and> tx_live w"

definition pl011_rx :: "'a machine_scheme \<Rightarrow> bool" where
  "pl011_rx w \<longleftrightarrow> uart_ty w = UART_TYPE_PL011 \<and> rx_live w"

lemma and_bit_z: "(v AND push_bit n 1 = 0) = (\<not> bit v n)" for v :: "'a::len word"
  by (simp add: push_bit_eq_mult and_exp_eq_0_iff_not_bit)

lemma txff_bit: "v AND UART_FR_TXFF = 0 \<longleftrightarrow> \<not> bit v 5"
  unfolding UART_FR_TXFF_def by (rule and_bit_z)

lemma rxfe_bit: "v AND UART_FR_RXFE = 0 \<longleftrightarrow> \<not> bit v 4"
  unfolding UART_FR_RXFE_def by (rule and_bit_z)

lemma pl011_wait_tx:
  assumes "pl011_live w"
  shows "\<exists>w1. busy_wait pl011_tx_free w = Some w1 \<and> uart_io 0 [] w w1"
proof -
  have "\<exists>n. busy_wait pl011_tx_free w = Some (w\<lparr>mmio_cnt := (mmio_cnt w)(uart_status w := n)\<rparr>)"
  proof (rule busy_wait_poll [where P = "\<lambda>v. \<not> bit v 5"])
    show "\<forall>k. \<exists>j \<ge> k. \<not> bit (mmio_rd w (uart_status w) j) 5"
      using assms by (auto simp: pl011_live_def tx_live_def tx_ok_def)
  qed (use assms in \<open>simp add: pl011_tx_free_def read32_def mmio_load_def txff_bit pl011_live_def uart_status_def\<close>)
  then show ?thesis using uart_io_poll by blast
qed

lemma pl011_wait_rx:
  assumes "pl011_rx w"
  shows "\<exists>w1. busy_wait pl011_rx_full w = Some w1 \<and> uart_io 0 [] w w1"
proof -
  have "\<exists>n. busy_wait pl011_rx_full w = Some (w\<lparr>mmio_cnt := (mmio_cnt w)(uart_status w := n)\<rparr>)"
  proof (rule busy_wait_poll [where P = "\<lambda>v. \<not> bit v 4"])
    show "\<forall>k. \<exists>j \<ge> k. \<not> bit (mmio_rd w (uart_status w) j) 4"
      using assms by (auto simp: pl011_rx_def rx_live_def rx_ok_def)
  qed (use assms in \<open>simp add: pl011_rx_full_def read32_def mmio_load_def rxfe_bit pl011_rx_def uart_status_def\<close>)
  then show ?thesis using uart_io_poll by blast
qed

lemma pl011_live_io: "pl011_live w \<Longrightarrow> uart_io k bs w w' \<Longrightarrow> pl011_live w'"
  by (auto simp: pl011_live_def io_frame intro: tx_live_io)

lemma pl011_rx_io: "pl011_rx w \<Longrightarrow> uart_io k bs w w' \<Longrightarrow> pl011_rx w'"
  by (auto simp: pl011_rx_def io_frame intro: rx_live_io)

lemma pl011_write_dr: "uart_io 0 [c] w (write32 (UART_BASE (plat w) + UART_DR) (ucast c) w)"
  unfolding uart_io_def
  by (rule exI [of _ "mmio_cnt w (uart_status w)"])
    (simp add: write32_def mmio_store_def uart_data_def UART_DR_def)

lemma pl011_putchar_io:
  assumes "pl011_live w"
  shows "\<exists>w'. pl011_putchar c w = Some w' \<and> uart_io 0 [c] w w'"
proof -
  obtain w1 where w1: "busy_wait pl011_tx_free w = Some w1" "uart_io 0 [] w w1"
    using pl011_wait_tx [OF assms] by blast
  then show ?thesis
    using uart_io_trans [OF w1(2) pl011_write_dr] by (simp add: pl011_putchar_def)
qed

lemma pl011_getchar_io:
  assumes "pl011_rx w"
  shows "\<exists>w'. pl011_getchar w = Some (rx_input w 0, w') \<and> uart_io 1 [] w w'"
proof -
  obtain w1 where w1: "busy_wait pl011_rx_full w = Some w1" "uart_io 0 [] w w1"
    using pl011_wait_rx [OF assms] by blast
  have dr: "uart_data w1 = UART_BASE (plat w1) + UART_DR" by (simp add: uart_data_def UART_DR_def)
  have "uart_io 1 [] w1 (snd (read32 (UART_BASE (plat w1) + UART_DR) w1))"
    unfolding uart_io_def
    by (rule exI [of _ "mmio_cnt w1 (uart_status w1)"])
      (simp add: read32_def mmio_load_def fun_upd_twist flip: dr)
  moreover have "ucast (fst (read32 (UART_BASE (plat w1) + UART_DR) w1) AND 0xFF) = rx_input w1 0"
    by (simp add: read32_def mmio_load_def rx_input_def low_byte flip: dr)
  ultimately show ?thesis
    using w1 uart_io_trans [OF w1(2), of 1 "[]"] rx_input_io [OF w1(2), of 0]
    by (simp add: pl011_getchar_def case_prod_unfold)
qed

interpretation pl011: console pl011_putchar "\<lambda>_ c. [c]" pl011_live uart_io pl011_getchar pl011_rx rx_input
  by unfold_locales
    (auto intro: uart_io_refl uart_io_trans pl011_live_io pl011_rx_io pl011_putchar_io
      pl011_getchar_io [unfolded One_nat_def] simp: rx_input_io)

text \<open>\<open>pl011_puts\<close> adds the carriage returns itself.\<close>

lemma pl011_puts_outputs:
  assumes "pl011_live w" and "is_cstr v s"
  shows "outputs (pl011_puts v) (concat (map crlf s)) w"
proof -
  have body: "(if c = ch CHR 0x0A then pl011_putchar (ch CHR 0x0D) w else Some w) \<bind> pl011_putchar c =
      put_all pl011_putchar (crlf c) w"
    for c and w :: "'a machine_scheme"
    by (simp add: crlf_def)
  have "pl011_puts v w = put_all pl011_putchar (concat (map crlf s)) w"
    unfolding pl011_puts_def body for_chars_cstr [OF assms(2)] put_all_concat ..
  moreover have "concat (map (\<lambda>c. [c]) xs) = xs" for xs :: "u8 list"
    by (induction xs) simp_all
  ultimately show ?thesis
    using pl011.put_all_io [OF assms(1), of "concat (map crlf s)"] by (simp add: outputs_def)
qed

section \<open>Baud rate\<close>

text \<open>
  The fractional divisor register has six bits and holds the fraction in 64ths.  The rounded
  value that the comment in \<open>pl011_init\<close> describes is half of what the code computes; the
  two agree only when the clock is a multiple of \<open>16 * UART_BAUDRATE\<close> up to rounding.
\<close>

definition pl011_fraction_spec :: "nat \<Rightarrow> nat" where
  "pl011_fraction_spec clock = (clock mod (16 * 115200) * 64 * 2 + 16 * 115200) div (2 * 16 * 115200)"

lemma pl011_fraction_bound: "unat (pl011_fraction clock) \<le> 127"
proof -
  let ?r = "clock mod (16 * UART_BAUDRATE)"
  have "unat ?r < 1843200"
    by (simp add: UART_BAUDRATE_def unat_mod)
  then show ?thesis
    by (simp add: pl011_fraction_def Let_def unat_div UART_BAUDRATE_def unat_word_ariths)
qed

lemma pl011_fraction_wrong:
  "unat (pl011_fraction 10000000) = 54" "pl011_fraction_spec 10000000 = 27"
  by (simp_all add: pl011_fraction_def pl011_fraction_spec_def UART_BAUDRATE_def)

end
