(* ===== verification/Uart.thy ===== *)
theory Uart
  imports DwUart Pl011
begin

text \<open>
  The UART interface the kernel uses: the wrappers of \<^verbatim>\<open>include/uart.h\<close>, which pick a driver
  by \<^verbatim>\<open>UART_TYPE_*\<close>, and the generic helpers and legacy functions of \<^verbatim>\<open>src/dev/uart.c\<close>.
  Everything the kernel prints goes through \<open>uart_putchar\<close>, \<open>uart_puts\<close>, \<open>uart_print_hex\<close> and
  \<open>uart_print_dec\<close>, whose output is characterised here for either driver.
\<close>

section \<open>Wrappers and generic helpers\<close>

definition uart_init :: "'a machine_scheme \<Rightarrow> 'a machine_scheme" where
  "uart_init w = (case uart_ty w of UART_TYPE_DW \<Rightarrow> dw_uart_init w | UART_TYPE_PL011 \<Rightarrow> pl011_init w)"

definition uart_putchar :: "u8 \<Rightarrow> 'a machine_scheme \<Rightarrow> 'a machine_scheme option" where
  "uart_putchar c w = (case uart_ty w of UART_TYPE_DW \<Rightarrow> dw_uart_putchar c w
                                       | UART_TYPE_PL011 \<Rightarrow> pl011_putchar c w)"

definition uart_puts :: "cptr \<Rightarrow> 'a machine_scheme \<Rightarrow> 'a machine_scheme option" where
  "uart_puts s w = (case uart_ty w of UART_TYPE_DW \<Rightarrow> dw_uart_puts s w
                                    | UART_TYPE_PL011 \<Rightarrow> pl011_puts s w)"

definition uart_getchar :: "'a machine_scheme \<Rightarrow> (u8 \<times> 'a machine_scheme) option" where
  "uart_getchar w = (case uart_ty w of UART_TYPE_DW \<Rightarrow> dw_uart_getchar w
                                     | UART_TYPE_PL011 \<Rightarrow> pl011_getchar w)"

text \<open>\<^verbatim>\<open>for (int i = 60; i >= 0; i -= 4)\<close>: the sixteen digits, without a prefix.\<close>

definition generic_uart_print_hex :: "u64 \<Rightarrow> 'a machine_scheme \<Rightarrow> 'a machine_scheme option" where
  "generic_uart_print_hex val w =
     (let hex_chars = str ''0123456789ABCDEF''
      in put_all uart_putchar (map (\<lambda>k. hex_chars ! unat (drop_bit (k * 4) val AND 0xF)) (rev [0..<16])) w)"

text \<open>\<^verbatim>\<open>while (value > 0) { buffer[i++] = (value % 10) + '0'; value /= 10; }\<close>, 20 bytes.\<close>

function generic_dec_loop :: "u8 list \<Rightarrow> int \<Rightarrow> u8 list option" where
  "generic_dec_loop buf val =
     (if val > 0 then
        (case push 20 buf (word_of_int (val smod 10 + 48)) of
           None \<Rightarrow> None
         | Some buf' \<Rightarrow> generic_dec_loop buf' (val sdiv 10))
      else Some buf)"
  by pat_completeness auto
termination
  by (relation "measure (\<lambda>(buf, val). 20 - length buf)") (auto simp: push_def split: if_splits)

declare generic_dec_loop.simps [simp del]

text \<open>The digits are sent from the end of the buffer: \<^verbatim>\<open>while (i > 0) uart_putchar(buffer[--i]);\<close>\<close>

definition generic_uart_print_dec :: "int \<Rightarrow> 'a machine_scheme \<Rightarrow> 'a machine_scheme option" where
  "generic_uart_print_dec val w =
     (if val = 0 then uart_putchar (ch CHR ''0'') w
      else do {
        (val, w) \<leftarrow> (if val < 0 then do { w \<leftarrow> uart_putchar (ch CHR ''-'') w; Some (s64 (- val), w) }
                     else Some (val, w));
        buffer \<leftarrow> generic_dec_loop [] val;
        put_all uart_putchar (rev buffer) w })"

partial_function (option) generic_gets_loop ::
  "u64 \<Rightarrow> u8 list \<Rightarrow> u64 \<Rightarrow> 'a machine_scheme \<Rightarrow> (u8 list \<times> int \<times> 'a machine_scheme) option" where
  "generic_gets_loop buffer_size buffer i w =
     (if i < buffer_size - 1 then do {
        (c, w) \<leftarrow> uart_getchar w;
        if c = ch CHR 0x0D \<or> c = ch CHR 0x0A then do {
          w \<leftarrow> uart_putchar (ch CHR 0x0D) w;
          w \<leftarrow> uart_putchar (ch CHR 0x0A) w;
          buffer \<leftarrow> store buffer i 0;
          Some (buffer, s32 (uint i), w) }
        else if c = ch CHR 0x08 \<or> c = 127 then
          (if i > 0 then do {
             w \<leftarrow> uart_putchar (ch CHR 0x08) w;
             w \<leftarrow> uart_putchar (ch CHR '' '') w;
             w \<leftarrow> uart_putchar (ch CHR 0x08) w;
             generic_gets_loop buffer_size buffer (i - 1) w }
           else generic_gets_loop buffer_size buffer i w)
        else do {
          w \<leftarrow> uart_putchar c w;
          buffer \<leftarrow> store buffer i c;
          generic_gets_loop buffer_size buffer (i + 1) w } }
      else do {
        buffer \<leftarrow> store buffer i 0;
        Some (buffer, s32 (uint i), w) })"

declare generic_gets_loop.simps [code]

definition generic_uart_gets ::
  "u8 list \<Rightarrow> u64 \<Rightarrow> 'a machine_scheme \<Rightarrow> (u8 list \<times> int \<times> 'a machine_scheme) option" where
  "generic_uart_gets buffer buffer_size w = generic_gets_loop buffer_size buffer 0 w"

definition uart_try_getchar :: "'a machine_scheme \<Rightarrow> int \<times> 'a machine_scheme" where
  "uart_try_getchar w = (case uart_ty w of UART_TYPE_DW \<Rightarrow> dw_uart_try_getchar w
                                         | UART_TYPE_PL011 \<Rightarrow> (- 1, w))"

definition uart_gets ::
  "u8 list \<Rightarrow> u64 \<Rightarrow> 'a machine_scheme \<Rightarrow> (u8 list \<times> int \<times> 'a machine_scheme) option" where
  "uart_gets buffer buffer_size w = (case uart_ty w of
       UART_TYPE_DW \<Rightarrow> dw_uart_gets buffer buffer_size w
     | UART_TYPE_PL011 \<Rightarrow> generic_uart_gets buffer buffer_size w)"

definition uart_data_available :: "'a machine_scheme \<Rightarrow> bool \<times> 'a machine_scheme" where
  "uart_data_available w = (case uart_ty w of UART_TYPE_DW \<Rightarrow> dw_uart_data_available w
                                            | UART_TYPE_PL011 \<Rightarrow> (False, w))"

definition uart_print_hex :: "u64 \<Rightarrow> 'a machine_scheme \<Rightarrow> 'a machine_scheme option" where
  "uart_print_hex val w = (case uart_ty w of UART_TYPE_DW \<Rightarrow> dw_uart_print_hex val w
                                           | UART_TYPE_PL011 \<Rightarrow> generic_uart_print_hex val w)"

definition uart_print_dec :: "int \<Rightarrow> 'a machine_scheme \<Rightarrow> 'a machine_scheme option" where
  "uart_print_dec val w = (case uart_ty w of UART_TYPE_DW \<Rightarrow> dw_uart_print_dec val w
                                           | UART_TYPE_PL011 \<Rightarrow> generic_uart_print_dec val w)"

section \<open>Legacy functions\<close>

text \<open>\<^verbatim>\<open>for (i = 0; i < len; i++) uart_putchar(bytes[i]);\<close> on the bytes left to send.\<close>

definition uart_write :: "cptr \<Rightarrow> u64 \<Rightarrow> 'a machine_scheme \<Rightarrow> 'a machine_scheme option" where
  "uart_write bytes len w = put_all uart_putchar (map (\<lambda>i. bytes (of_nat i)) [0..<unat len]) w"

definition uart_tx_ready :: "'a machine_scheme \<Rightarrow> bool \<times> 'a machine_scheme" where
  "uart_tx_ready w = (case uart_ty w of
       UART_TYPE_DW \<Rightarrow>
         (let (lsr, w) = mmio_load (DW_UART_LSR (plat w)) w in (lsr AND DW_UART_LSR_THRE \<noteq> 0, w))
     | UART_TYPE_PL011 \<Rightarrow>
         (let (fr, w) = mmio_load (UART_BASE (plat w) + UART_FR) w in (fr AND UART_FR_TXFF = 0, w)))"

definition uart_get_status :: "'a machine_scheme \<Rightarrow> u8 \<times> 'a machine_scheme" where
  "uart_get_status w = (case uart_ty w of
       UART_TYPE_DW \<Rightarrow> (let (lsr, w) = mmio_load (DW_UART_LSR (plat w)) w in (ucast lsr, w))
     | UART_TYPE_PL011 \<Rightarrow> (let (fr, w) = mmio_load (UART_BASE (plat w) + UART_FR) w in (ucast fr, w)))"

text \<open>The format is the byte list of the string before its NUL.\<close>

fun uart_printf :: "u8 list \<Rightarrow> 'a machine_scheme \<Rightarrow> 'a machine_scheme option" where
  "uart_printf [] w = Some w"
| "uart_printf [c] w = uart_putchar c w"
| "uart_printf (c # d # p) w =
     (if c = ch CHR ''%'' then do {
        w \<leftarrow> (if d = ch CHR ''s'' then uart_puts (lit ''(string)'') w
              else if d = ch CHR ''d'' then uart_puts (lit ''(decimal)'') w
              else if d = ch CHR ''x'' then uart_puts (lit ''(hex)'') w
              else do { w \<leftarrow> uart_putchar (ch CHR ''%'') w; uart_putchar d w });
        uart_printf p w }
      else do { w \<leftarrow> uart_putchar c w; uart_printf (d # p) w })"

section \<open>Output of the wrappers\<close>

definition uart_live :: "'a machine_scheme \<Rightarrow> bool" where
  "uart_live w \<longleftrightarrow> tx_live w"

definition uart_enc :: "'a machine_scheme \<Rightarrow> u8 \<Rightarrow> u8 list" where
  "uart_enc w c = (case uart_ty w of UART_TYPE_DW \<Rightarrow> crlf c | UART_TYPE_PL011 \<Rightarrow> [c])"

lemma uart_live_cong:
  assumes "plat w' = plat w" "uart_ty w' = uart_ty w" "mmio_rd w' = mmio_rd w"
  shows "uart_live w' = uart_live w"
  using assms by (simp only: uart_live_def tx_live_def uart_status_def)

lemma uart_live_DW: "uart_ty w = UART_TYPE_DW \<Longrightarrow> uart_live w = dw_live w"
  and uart_live_PL011: "uart_ty w = UART_TYPE_PL011 \<Longrightarrow> uart_live w = pl011_live w"
  by (simp_all add: uart_live_def dw_live_def pl011_live_def)

lemma uart_live_io: "uart_live w \<Longrightarrow> uart_io k bs w w' \<Longrightarrow> uart_live w'"
  by (auto simp: uart_live_def intro: tx_live_io)

lemma uart_enc_io: "uart_io k bs w w' \<Longrightarrow> uart_enc w' = uart_enc w"
  by (simp add: uart_enc_def io_frame fun_eq_iff)

interpretation uart: console uart_putchar uart_enc uart_live uart_io uart_getchar rx_live rx_input
proof unfold_locales
  fix w :: "'a machine_scheme" and c
  show "uart_live w \<Longrightarrow> \<exists>w'. uart_putchar c w = Some w' \<and> uart_io 0 (uart_enc w c) w w'"
    using dw_putchar_io [of w c] pl011_putchar_io [of w c]
    by (cases "uart_ty w") (simp_all add: uart_putchar_def uart_enc_def uart_live_DW uart_live_PL011)
  show "rx_live w \<Longrightarrow> \<exists>w'. uart_getchar w = Some (rx_input w 0, w') \<and> uart_io 1 [] w w'"
    using dw_getchar_io [of w] pl011_getchar_io [of w]
    by (cases "uart_ty w") (simp_all add: uart_getchar_def dw_rx_def pl011_rx_def)
qed (auto intro: uart_io_refl uart_io_trans uart_live_io rx_live_io simp: rx_input_io uart_enc_io)

lemma uart_puts_outputs:
  assumes "uart_live w" and "is_cstr v s"
  shows "outputs (uart_puts v) (concat (map crlf s)) w"
  using assms dw_puts_outputs [of w v s] pl011_puts_outputs [of w v s]
  by (cases "uart_ty w") (simp_all add: uart_puts_def outputs_def uart_live_DW uart_live_PL011)

text \<open>Bytes without a line feed come out as they are.\<close>

lemma uart_put_all_plain:
  assumes "uart_live w" and "10 \<notin> set bs"
  shows "outputs (put_all uart_putchar bs) bs w"
proof -
  have "concat (map (uart_enc w) bs) = bs"
    using assms(2) by (induction bs) (auto simp: uart_enc_def crlf_def split: uart_type.split)
  then show ?thesis
    using uart.put_all_io [OF assms(1), of bs] by (simp add: outputs_def)
qed

lemma generic_dec_loop_eq:
  assumes "length buf + length (digits_of 10 n) \<le> 20"
  shows "generic_dec_loop buf (int n) = Some (buf @ map digit_char (digits_of 10 n))"
  using assms
proof (induction n arbitrary: buf rule: less_induct)
  case (less n)
  show ?case
  proof (cases "n = 0")
    case True
    then show ?thesis by (simp add: generic_dec_loop.simps)
  next
    case False
    have sdiv: "int n sdiv 10 = int (n div 10)" "int n smod 10 = int (n mod 10)"
      by (simp_all add: signed_divide_int_def signed_modulo_int_def zdiv_int zmod_int sgn_if)
    have c: "word_of_nat (n mod 10) + 48 = digit_char (n mod 10)"
      by (simp add: digit_char_dec)
    have d: "digits_of 10 n = n mod 10 # digits_of 10 (n div 10)"
      using False by (simp add: digits_of_pos)
    have "generic_dec_loop buf (int n) = generic_dec_loop (buf @ [digit_char (n mod 10)]) (int (n div 10))"
      using False less.prems by (subst generic_dec_loop.simps) (simp add: sdiv c d push_Some)
    also have "\<dots> = Some ((buf @ [digit_char (n mod 10)]) @ map digit_char (digits_of 10 (n div 10)))"
      using False less.prems by (intro less.IH) (simp_all add: d)
    finally show ?thesis by (simp add: d)
  qed
qed

lemma generic_print_dec_outputs:
  assumes "uart_live w" and "- (2 ^ 63) < val" and "val < 2 ^ 63"
  shows "outputs (generic_uart_print_dec val) (show_int val) w"
proof -
  define n where "n = nat \<bar>val\<bar>"
  have "n < 10 ^ 19" using assms(2,3) by (simp add: n_def nat_less_iff)
  then have loop: "generic_dec_loop [] (int n) = Some (map digit_char (digits_of 10 n))"
    using generic_dec_loop_eq [of "[]" n] length_digits_of [of 10 n 19] by simp
  have sh: "0 < n \<Longrightarrow> show_nat 10 n = rev (map digit_char (digits_of 10 n))" by (simp add: show_nat_def)
  have "generic_uart_print_dec val w = put_all uart_putchar (show_int val) w"
  proof (cases "val < 0")
    case True
    then have "s64 (- val) = int n" "show_int val = 45 # show_nat 10 n" "0 < n"
      using assms(2,3) by (auto simp: n_def s64_id show_int_def)
    then show ?thesis using True loop sh by (simp add: generic_uart_print_dec_def)
  next
    case False
    then have v: "val = int n" "show_int val = show_nat 10 n" by (simp_all add: n_def show_int_def)
    show ?thesis
    proof (cases "n = 0")
      case True
      then show ?thesis unfolding v(2) using v(1) by (simp add: generic_uart_print_dec_def show_nat_def)
    next
      case False
      then show ?thesis unfolding v(2) using v(1) loop sh by (simp add: generic_uart_print_dec_def)
    qed
  qed
  then show ?thesis
    using uart_put_all_plain [OF assms(1) show_int_no_lf] by (simp add: outputs_def)
qed

lemma uart_print_dec_outputs:
  assumes "uart_live w" and "- (2 ^ 63) < val" and "val < 2 ^ 63"
  shows "outputs (uart_print_dec val) (show_int val) w"
  using assms dw_print_dec_outputs [of w val] generic_print_dec_outputs [OF assms]
  by (cases "uart_ty w") (simp_all add: uart_print_dec_def outputs_def uart_live_DW)

lemma generic_print_hex_outputs:
  assumes "uart_live w"
  shows "outputs (generic_uart_print_hex val) (hex16 val) w"
proof -
  have "10 \<notin> set (hex16 val)" using hex16_chars [of 10 val] by auto
  then show ?thesis
    using uart_put_all_plain [OF assms]
    unfolding generic_uart_print_hex_def Let_def nibble hex16_def by blast
qed

definition hex_prefix :: "uart_type \<Rightarrow> u8 list" where
  "hex_prefix t = (case t of UART_TYPE_DW \<Rightarrow> str ''0x'' | UART_TYPE_PL011 \<Rightarrow> [])"

lemma uart_print_hex_outputs:
  assumes "uart_live w"
  shows "outputs (uart_print_hex val) (hex_prefix (uart_ty w) @ hex16 val) w"
  using assms dw_print_hex_outputs [of w val] generic_print_hex_outputs [OF assms, of val]
  by (cases "uart_ty w") (simp_all add: uart_print_hex_def outputs_def uart_live_DW hex_prefix_def)

section \<open>Sequences of prints\<close>

text \<open>
  \<open>prints f bs\<close>: whatever the device's timing, \<open>f\<close> returns and sends exactly \<open>bs\<close> (which may
  depend on the driver).  Messages made of several prints are composed with \<open>prints_bind\<close>.
\<close>

definition prints :: "('a machine_scheme \<Rightarrow> 'a machine_scheme option) \<Rightarrow> (uart_type \<Rightarrow> u8 list) \<Rightarrow> bool" where
  "prints f bs \<longleftrightarrow> (\<forall>w. uart_live w \<longrightarrow> outputs f (bs (uart_ty w)) w)"

text \<open>The bytes of a message, and of a printed number, on the line.\<close>

definition msg :: "string \<Rightarrow> u8 list" where
  "msg s = concat (map crlf (str s))"

definition dec_text :: "uart_type \<Rightarrow> int \<Rightarrow> u8 list" where
  "dec_text t v = (if v = - (2 ^ 63) then (case t of UART_TYPE_DW \<Rightarrow> str ''-('' | UART_TYPE_PL011 \<Rightarrow> str ''-'')
                   else show_int v)"

lemma printsE:
  assumes "prints f bs" and "uart_live w"
  obtains w' where "f w = Some w'" "uart_io 0 (bs (uart_ty w)) w w'"
  using assms by (auto simp: prints_def elim: outputsE)

lemma prints_bind:
  assumes "prints f as" and "prints g bs"
  shows "prints (\<lambda>w. f w \<bind> g) (\<lambda>t. as t @ bs t)"
  unfolding prints_def
proof (intro allI impI)
  fix w :: "'a machine_scheme" assume w: "uart_live w"
  show "outputs (\<lambda>w. f w \<bind> g) (as (uart_ty w) @ bs (uart_ty w)) w"
    using assms w by (intro outputs_bind) (auto simp: prints_def io_frame dest: uart_live_io)
qed

lemma prints_Some: "prints Some (\<lambda>t. [])"
  by (simp add: prints_def outputs_nil)

lemma prints_lit: "0 \<notin> set (str s) \<Longrightarrow> length s < 2 ^ 64 \<Longrightarrow> prints (uart_puts (lit s)) (\<lambda>t. msg s)"
  by (simp add: prints_def msg_def uart_puts_outputs is_cstr_lit)

lemma prints_hex: "prints (uart_print_hex v) (\<lambda>t. hex_prefix t @ hex16 v)"
  by (simp add: prints_def uart_print_hex_outputs)

lemma generic_print_dec_min:
  assumes "uart_live w"
  shows "outputs (generic_uart_print_dec (- (2 ^ 63))) (str ''-'') w"
proof -
  have "generic_uart_print_dec (- (2 ^ 63)) w = put_all uart_putchar (str ''-'') w"
    by (simp add: generic_uart_print_dec_def s64_def generic_dec_loop.simps put_all_nil [unfolded fun_eq_iff])
  then show ?thesis
    using uart_put_all_plain [OF assms, of "str ''-''"] by (simp add: outputs_def)
qed

lemma prints_dec:
  assumes "- (2 ^ 63) \<le> v" and "v < 2 ^ 63"
  shows "prints (uart_print_dec v) (\<lambda>t. dec_text t v)"
  unfolding prints_def
proof (intro allI impI)
  fix w :: "'a machine_scheme" assume w: "uart_live w"
  show "outputs (uart_print_dec v) (dec_text (uart_ty w) v) w"
  proof (cases "v = - (2 ^ 63)")
    case True
    then show ?thesis
      using w dw_print_dec_min_outputs [of w] generic_print_dec_min [OF w]
      by (cases "uart_ty w") (simp_all add: uart_print_dec_def dec_text_def outputs_def uart_live_DW)
  next
    case False
    then show ?thesis
      using assms uart_print_dec_outputs [OF w, of v] by (simp add: dec_text_def)
  qed
qed

text \<open>Where only the fact that \<open>f\<close> returns and does nothing but print matters:\<close>

definition printer :: "('a machine_scheme \<Rightarrow> 'a machine_scheme option) \<Rightarrow> bool" where
  "printer f \<longleftrightarrow> (\<forall>w. uart_live w \<longrightarrow> (\<exists>bs. outputs f bs w))"

lemma printerE:
  assumes "printer f" and "uart_live w"
  obtains bs w' where "f w = Some w'" "uart_io 0 bs w w'"
  using assms unfolding printer_def outputs_def by blast

lemma prints_printer: "prints f bs \<Longrightarrow> printer f"
  by (auto simp: printer_def prints_def)

lemma printer_bind:
  assumes "printer f" and "\<And>w. printer (g w)"
  shows "printer (\<lambda>w. f w \<bind> g w)"
  unfolding printer_def
proof (intro allI impI)
  fix w :: "'a machine_scheme" assume w: "uart_live w"
  obtain as w1 where 1: "f w = Some w1" "uart_io 0 as w w1" using assms(1) w by (rule printerE)
  obtain bs w2 where 2: "g w w1 = Some w2" "uart_io 0 bs w1 w2"
    using assms(2) uart_live_io [OF w 1(2)] by (rule printerE)
  show "\<exists>bs. outputs (\<lambda>w. f w \<bind> g w) bs w"
    using 1 2 uart_io_trans [OF 1(2) 2(2)] by (auto simp: outputs_def)
qed

lemma printer_if: "printer f \<Longrightarrow> printer g \<Longrightarrow> printer (\<lambda>w. if b then f w else g w)"
  by (cases b) simp_all

lemma printer_put_all: "printer (put_all uart_putchar bs)"
  unfolding printer_def outputs_def using uart.put_all_io by blast

lemmas printer_Some = prints_printer [OF prints_Some]
  and printer_lit = prints_printer [OF prints_lit]
  and printer_hex = prints_printer [OF prints_hex]
  and printer_dec = prints_printer [OF prints_dec]

section \<open>Line input\<close>

lemma generic_gets_line_reader:
  "line_reader uart_putchar uart_getchar (\<lambda>c. [13, 10]) n (generic_gets_loop n)"
  unfolding line_reader_def
proof (intro allI)
  fix buf :: "u8 list" and i and w :: "'a machine_scheme"
  show "generic_gets_loop n buf i w =
     (if i < n - 1 then do {
        (c, w) \<leftarrow> uart_getchar w;
        if c = 8 \<or> c = 0x7F then
          do { w \<leftarrow> put_all uart_putchar (if i > 0 then [8, 32, 8] else []) w;
               generic_gets_loop n buf (if i > 0 then i - 1 else i) w }
        else if c = 13 \<or> c = 10 then
          do { w \<leftarrow> put_all uart_putchar [13, 10] w; buf \<leftarrow> store buf i 0; Some (buf, s32 (uint i), w) }
        else do { w \<leftarrow> put_all uart_putchar [c] w; buf \<leftarrow> store buf i c; generic_gets_loop n buf (i + 1) w } }
      else do { buf \<leftarrow> store buf i 0; Some (buf, s32 (uint i), w) })"
    by (subst generic_gets_loop.simps, cases "uart_getchar w"; cases "i > 0")
      (auto simp: case_prod_unfold cong: if_cong)
qed

text \<open>The echo of the line end \<open>c\<close>: the DesignWare reader echoes \<open>c\<close> and a line feed.\<close>

definition line_end :: "uart_type \<Rightarrow> u8 \<Rightarrow> u8 list" where
  "line_end t c = (case t of UART_TYPE_DW \<Rightarrow> [c, 10] | UART_TYPE_PL011 \<Rightarrow> [13, 10])"

lemma line_end_simps:
  "line_end UART_TYPE_DW = (\<lambda>c. [c, 10])" "line_end UART_TYPE_PL011 = (\<lambda>c. [13, 10])"
  by (simp_all add: line_end_def fun_eq_iff)

text \<open>
  Reading a line: if the bytes \<open>cs\<close> that arrive complete a line, \<open>uart_gets\<close> returns with
  that line NUL-terminated in the buffer, its length as result, and has echoed it.
\<close>

lemma uart_gets_line:
  assumes "uart_live w" and "rx_live w" and "0 < n" and "unat n \<le> length buf"
    and "edit_line (line_end (uart_ty w)) (unat n - 1) [] cs = Some (line, echo, k)"
    and "\<forall>j < length cs. rx_input w j = cs ! j"
  shows "\<exists>buf' w'. uart_gets buf n w = Some (buf', s32 (int (length line)), w') \<and>
    length buf' = length buf \<and> take (length line) buf' = line \<and> buf' ! length line = 0 \<and>
    uart_io k (concat (map (uart_enc w) echo)) w w'"
proof (cases "uart_ty w")
  case UART_TYPE_DW
  then show ?thesis
    using dw.line_reader_edit [OF dw_gets_line_reader assms(3,4), of "[]" cs line echo k w buf 0] assms
    by (simp add: uart_gets_def dw_uart_gets_def dw.line_result_def uart_live_DW dw_rx_def line_end_simps
        uart_enc_def [abs_def])
next
  case UART_TYPE_PL011
  then show ?thesis
    using uart.line_reader_edit [OF generic_gets_line_reader assms(3,4), of "[]" cs line echo k w buf 0] assms
    by (simp add: uart_gets_def generic_uart_gets_def uart.line_result_def line_end_simps)
qed

section \<open>Properties\<close>

definition demo_uart :: "uart_type \<Rightarrow> machine" where
  "demo_uart t = ready_machine PLATFORM_QEMU t ()"

lemma demo_uart_facts: "uart_live (demo_uart t)" "rx_live (demo_uart t)" "uart_ty (demo_uart t) = t"
  by (simp_all add: demo_uart_def uart_live_def ready_machine_live) (simp add: ready_machine_def)

text \<open>
  C3.  Printing a NUL-terminated string returns and transmits exactly its bytes, with a
  carriage return before every line feed, on either driver and whatever the timing of the
  device; besides that only the status register is read.
\<close>

theorem uart_puts_exact:
  assumes "uart_live w" and "is_cstr v s"
  shows "\<exists>w'. uart_puts v w = Some w' \<and> uart_io 0 (concat (map crlf s)) w w'"
  using uart_puts_outputs [OF assms] by (simp add: outputs_def)

theorem uart_puts_exact_witness:
  "\<exists>w'. uart_puts (lit ''ok'') (demo_uart UART_TYPE_DW) = Some w' \<and>
     uart_io 0 (concat (map crlf (str ''ok''))) (demo_uart UART_TYPE_DW) w'"
  by (rule uart_puts_exact [OF demo_uart_facts(1) is_cstr_lit]) simp_all

text \<open>
  C18.  \<open>uart_print_dec\<close> transmits the decimal representation of every 64-bit value, on either
  driver, except the most negative one: its negation overflows and the output is \<open>"-("\<close> or
  \<open>"-"\<close>.
\<close>

theorem uart_print_dec_exact:
  assumes "uart_live w" and "- (2 ^ 63) \<le> val" and "val < 2 ^ 63"
  shows "\<exists>w'. uart_print_dec val w = Some w' \<and>
    uart_io 0 (if val = - (2 ^ 63)
      then (case uart_ty w of UART_TYPE_DW \<Rightarrow> str ''-('' | UART_TYPE_PL011 \<Rightarrow> str ''-'')
      else show_int val) w w'"
  using prints_dec [OF assms(2,3), unfolded prints_def outputs_def dec_text_def] assms(1) by blast

theorem uart_print_dec_exact_witness:
  "(\<exists>w'. uart_print_dec (- 42) (demo_uart UART_TYPE_PL011) = Some w' \<and> uart_io 0 (str ''-42'') (demo_uart UART_TYPE_PL011) w')"
proof -
  have "show_int (- 42) = str ''-42''"
    by (simp add: show_int_def show_nat_def digits_of.simps digit_char_def)
  then show ?thesis
    using uart_print_dec_exact [of "demo_uart UART_TYPE_PL011" "- 42"] by (simp add: demo_uart_facts)
qed

text \<open>
  C19.  \<open>uart_print_hex\<close> transmits sixteen upper-case digits from which the value can be read
  back, after the prefix \<open>"0x"\<close> if the driver is the DesignWare one.
\<close>

fun hex_value :: "u8 list \<Rightarrow> nat" where
  "hex_value [] = 0"
| "hex_value (c # cs) = (if unat c < 58 then unat c - 48 else unat c - 55) * 16 ^ length cs + hex_value cs"

definition hex_digits :: "nat \<Rightarrow> nat \<Rightarrow> u8 list" where
  "hex_digits k n = map (\<lambda>i. str ''0123456789ABCDEF'' ! (n div 16 ^ i mod 16)) (rev [0..<k])"

lemma hex_char_value:
  assumes "d < 16"
  shows "(let c = str ''0123456789ABCDEF'' ! d in if unat c < 58 then unat c - 48 else unat c - 55) = d"
proof -
  have "\<forall>d < 16. (let c = str ''0123456789ABCDEF'' ! d in if unat c < 58 then unat c - 48 else unat c - 55) = d"
    by code_simp
  then show ?thesis using assms by blast
qed

lemma hex_value_digits: "hex_value (hex_digits k n) = n mod 16 ^ k"
proof (induction k)
  case (Suc k)
  have "hex_value (hex_digits (Suc k) n) = n div 16 ^ k mod 16 * 16 ^ k + n mod 16 ^ k"
    using Suc hex_char_value [of "n div 16 ^ k mod 16"]
    by (simp add: hex_digits_def Let_def del: str_simps)
  also have "\<dots> = n mod 16 ^ Suc k"
    by (simp add: mod_mult2_eq mult.commute [of 16])
  finally show ?case .
qed (simp add: hex_digits_def)

theorem uart_print_hex_exact:
  assumes "uart_live w"
  shows "\<exists>w' ds. uart_print_hex val w = Some w' \<and> uart_io 0 (hex_prefix (uart_ty w) @ ds) w w' \<and>
    length ds = 16 \<and> set ds \<subseteq> set (str ''0123456789ABCDEF'') \<and> hex_value ds = unat val"
proof -
  have ds: "hex16 val = hex_digits 16 (unat val)" by (simp only: hex16_def hex_digits_def)
  have "hex_value (hex16 val) = unat val"
    unfolding ds hex_value_digits using unat_less_64 [of val] by simp
  moreover have "set (hex16 val) \<subseteq> set (str ''0123456789ABCDEF'')"
    unfolding hex16_def by (auto simp del: str_simps intro!: nth_mem)
  ultimately show ?thesis
    using uart_print_hex_outputs [OF assms, of val] length_hex16 [of val] unfolding outputs_def by blast
qed

theorem uart_print_hex_exact_witness:
  "\<exists>w' ds. uart_print_hex 0x80200000 (demo_uart UART_TYPE_PL011) = Some w' \<and> hex_value ds = 0x80200000"
  using uart_print_hex_exact [of "demo_uart UART_TYPE_PL011" "0x80200000"] by (auto simp: demo_uart_facts)

text \<open>
  C17.  If the arriving bytes \<open>cs\<close> complete a line, \<open>uart_gets\<close> returns with the edited line
  NUL-terminated inside the caller's array and its length as result, consumes exactly the bytes
  up to the line end, and echoes what was edited.
\<close>

theorem uart_gets_reads_line:
  assumes "uart_live w" and "rx_live w" and "0 < n" and "unat n \<le> length buf"
    and "edit_line (line_end (uart_ty w)) (unat n - 1) [] cs = Some (line, echo, k)"
    and "\<forall>j < length cs. rx_input w j = cs ! j"
  shows "\<exists>buf' w'. uart_gets buf n w = Some (buf', s32 (int (length line)), w') \<and>
    length buf' = length buf \<and> take (length line) buf' = line \<and> buf' ! length line = 0 \<and>
    length line < unat n \<and> uart_io k (concat (map (uart_enc w) echo)) w w'"
proof -
  have "length line \<le> unat n - 1" using edit_line_length [OF assms(5)] by simp
  then have "length line < unat n" using assms(3) by (auto simp: word_gt_0 unat_gt_0 intro: le_less_trans)
  then show ?thesis using uart_gets_line [OF assms] by blast
qed

definition typing_machine :: "u8 list \<Rightarrow> machine" where
  "typing_machine cs = (demo_uart UART_TYPE_DW)\<lparr>mmio_rd :=
     (\<lambda>a k. if a = UART_BASE PLATFORM_QEMU then (if k < length cs then ucast (cs ! k) else 0) else 0x61)\<rparr>"

theorem uart_gets_reads_line_witness:
  "\<exists>buf' w'. uart_gets (replicate 8 1) 8 (typing_machine (str ''lx'' @ [8] @ str ''s'' @ [13])) = Some (buf', 2, w') \<and>
     take 2 buf' = str ''ls'' \<and> buf' ! 2 = 0"
proof -
  let ?cs = "str ''lx'' @ [8] @ str ''s'' @ [13]" 
  let ?w = "typing_machine ?cs"
  have status: "uart_status ?w = 0x10000005" "uart_ty ?w = UART_TYPE_DW" "uart_data ?w = 0x10000000"
    by (simp_all add: typing_machine_def demo_uart_def ready_machine_def uart_status_def DW_UART_LSR_def
        UART_REG_SHIFT_def uart_data_def)
  have "uart_live ?w" "rx_live ?w"
    unfolding uart_live_def tx_live_def rx_live_def status
    by (auto simp: typing_machine_def tx_ok_def rx_ok_def)
  moreover have "\<forall>j < length ?cs. rx_input ?w j = ?cs ! j"
    unfolding rx_input_def status by (auto simp: typing_machine_def demo_uart_def ready_machine_def)
  moreover have "edit_line (line_end UART_TYPE_DW) 7 [] ?cs =
      Some (str ''ls'', str ''lx'' @ [8, 32, 8] @ str ''s'' @ [13, 10], 5)"
    by (simp add: line_end_def)
  ultimately have "\<exists>buf' w'. uart_gets (replicate 8 1) 8 ?w = Some (buf', 2, w') \<and>
      take (length (str ''ls'')) buf' = str ''ls'' \<and> buf' ! length (str ''ls'') = 0"
    using uart_gets_reads_line [of ?w 8 "replicate 8 1" ?cs "str ''ls''"] status by (auto simp: s32_id)
  then show ?thesis by (simp add: numeral_2_eq_2)
qed
end
