(* ===== verification/Heap.thy ===== *)
theory Heap
  imports Uart
begin

text \<open>
  The kernel heap: \<^verbatim>\<open>src/mem/mem.c\<close>, complete.  The allocator hands out consecutive pieces of
  one region and never takes any back.  Its state is the C struct \<open>heap_info_t\<close>; the machine
  is extended by it.  NULL is address 0.
\<close>

record heap_info_t =
  heap_start :: u64
  heap_end :: u64
  heap_current :: u64
  heap_total_size :: u64
  heap_allocated :: u64
  heap_align :: u64

record heap_machine = machine +
  heap :: heap_info_t

abbreviation NULL :: u64 where "NULL \<equiv> 0"

text \<open>A size printed by \<^verbatim>\<open>uart_print_dec\<close> is converted to a signed argument.\<close>

definition print_size :: "u64 \<Rightarrow> 'a machine_scheme \<Rightarrow> 'a machine_scheme option" where
  "print_size n = uart_print_dec (sint n)"

section \<open>Operations\<close>

text \<open>The region that \<open>mem_init\<close> sets up when the linker puts \<^verbatim>\<open>_heap_start\<close> at \<open>heap_sym\<close>.\<close>

definition mem_init_heap :: "u64 \<Rightarrow> heap_info_t" where
  "mem_init_heap heap_sym =
     (let hstart = heap_sym;
          hend = MEM_START + MEM_SIZE - (32 * 1024 * 1024);
          hstart = (if hstart < MEM_START + (4 * 1024 * 1024) then MEM_START + (4 * 1024 * 1024) else hstart);
          hstart = ALIGN_UP hstart 4096;
          hend = ALIGN_DOWN hend 4096
      in \<lparr>heap_start = hstart, heap_end = hend, heap_current = hstart,
          heap_total_size = hend - hstart, heap_allocated = 0, heap_align = 8\<rparr>)"

definition mem_init_report :: "heap_info_t \<Rightarrow> 'a machine_scheme \<Rightarrow> 'a machine_scheme option" where
  "mem_init_report h w = do {
     w \<leftarrow> uart_puts (lit (''Memory heap initialized:'' @ crnl)) w;
     w \<leftarrow> uart_puts (lit ''  Start: 0x'') w;
     w \<leftarrow> uart_print_hex (heap_start h) w;
     w \<leftarrow> uart_puts (lit (crnl @ ''  End:   0x'')) w;
     w \<leftarrow> uart_print_hex (heap_end h) w;
     w \<leftarrow> uart_puts (lit (crnl @ ''  Size:  '')) w;
     w \<leftarrow> print_size (heap_total_size h div 1024) w;
     uart_puts (lit ('' KB'' @ crnl)) w }"

definition mem_init :: "u64 \<Rightarrow> 'a heap_machine_scheme \<Rightarrow> 'a heap_machine_scheme option" where
  "mem_init heap_sym w = (let h = mem_init_heap heap_sym in mem_init_report h (w\<lparr>heap := h\<rparr>))"

text \<open>The diagnostics of a failed allocation.\<close>

definition oom_message :: "u64 \<Rightarrow> u64 \<Rightarrow> 'a machine_scheme \<Rightarrow> 'a machine_scheme option" where
  "oom_message sz avail w = do {
     w \<leftarrow> uart_puts (lit (''ERROR: Out of memory!'' @ crnl)) w;
     w \<leftarrow> uart_puts (lit ''  Requested: '') w;
     w \<leftarrow> print_size sz w;
     w \<leftarrow> uart_puts (lit ('' bytes'' @ crnl)) w;
     w \<leftarrow> uart_puts (lit ''  Available: '') w;
     w \<leftarrow> print_size avail w;
     uart_puts (lit ('' bytes'' @ crnl)) w }"

definition malloc :: "u64 \<Rightarrow> 'a heap_machine_scheme \<Rightarrow> (u64 \<times> 'a heap_machine_scheme) option" where
  "malloc sz w =
     (if sz = 0 then Some (NULL, w)
      else (let h = heap w; sz = ALIGN_UP sz (heap_align h)
        in if heap_current h + sz > heap_end h then do {
             w \<leftarrow> oom_message sz (heap_end h - heap_current h) w;
             Some (NULL, w) }
           else Some (heap_current h,
             w\<lparr>heap := h\<lparr>heap_current := heap_current h + sz, heap_allocated := heap_allocated h + sz\<rparr>\<rparr>)))"

definition calloc :: "u64 \<Rightarrow> u64 \<Rightarrow> 'a heap_machine_scheme \<Rightarrow> (u64 \<times> 'a heap_machine_scheme) option" where
  "calloc count sz w =
     (let total_size = count * sz
      in if divu total_size count \<noteq> sz then Some (NULL, w)
         else do {
           (p, w) \<leftarrow> malloc total_size w;
           Some (p, if p \<noteq> NULL then w\<lparr>ram := zero_bytes p total_size 0 (ram w)\<rparr> else w) })"

definition aligned_alloc :: "u64 \<Rightarrow> u64 \<Rightarrow> 'a heap_machine_scheme \<Rightarrow> (u64 \<times> 'a heap_machine_scheme) option" where
  "aligned_alloc alignment sz w =
     (if alignment = 0 \<or> alignment AND (alignment - 1) \<noteq> 0 then Some (NULL, w)
      else do {
        (raw_ptr, w) \<leftarrow> malloc (sz + alignment - 1) w;
        Some (if raw_ptr = NULL then NULL else ALIGN_UP raw_ptr alignment, w) })"

definition mem_get_total_size :: "'a heap_machine_scheme \<Rightarrow> u64" where
  "mem_get_total_size w = heap_total_size (heap w)"

definition mem_get_allocated_size :: "'a heap_machine_scheme \<Rightarrow> u64" where
  "mem_get_allocated_size w = heap_allocated (heap w)"

definition mem_get_free_size :: "'a heap_machine_scheme \<Rightarrow> u64" where
  "mem_get_free_size w = heap_end (heap w) - heap_current (heap w)"

definition mem_stats_report :: "heap_info_t \<Rightarrow> 'a machine_scheme \<Rightarrow> 'a machine_scheme option" where
  "mem_stats_report h w = do {
     w \<leftarrow> uart_puts (lit (''=== Memory Statistics ==='' @ crnl)) w;
     w \<leftarrow> uart_puts (lit ''Total heap size: '') w;
     w \<leftarrow> print_size (heap_total_size h) w;
     w \<leftarrow> uart_puts (lit '' bytes ('') w;
     w \<leftarrow> print_size (heap_total_size h div 1024) w;
     w \<leftarrow> uart_puts (lit ('' KB)'' @ crnl)) w;
     w \<leftarrow> uart_puts (lit ''Allocated:       '') w;
     w \<leftarrow> print_size (heap_allocated h) w;
     w \<leftarrow> uart_puts (lit '' bytes ('') w;
     w \<leftarrow> print_size (heap_allocated h div 1024) w;
     w \<leftarrow> uart_puts (lit ('' KB)'' @ crnl)) w;
     w \<leftarrow> uart_puts (lit ''Free:            '') w;
     w \<leftarrow> print_size (heap_end h - heap_current h) w;
     w \<leftarrow> uart_puts (lit '' bytes ('') w;
     w \<leftarrow> print_size ((heap_end h - heap_current h) div 1024) w;
     w \<leftarrow> uart_puts (lit ('' KB)'' @ crnl)) w;
     w \<leftarrow> uart_puts (lit ''Usage:           '') w;
     w \<leftarrow> print_size (divu (heap_allocated h * 100) (heap_total_size h)) w;
     w \<leftarrow> uart_puts (lit (''%'' @ crnl)) w;
     w \<leftarrow> uart_puts (lit ''Current pointer: 0x'') w;
     w \<leftarrow> uart_print_hex (heap_current h) w;
     uart_puts (lit crnl) w }"

definition mem_print_stats :: "'a heap_machine_scheme \<Rightarrow> 'a heap_machine_scheme option" where
  "mem_print_stats w = mem_stats_report (heap w) w"

text \<open>\<^verbatim>\<open>free\<close> does nothing (\<^verbatim>\<open>DEBUG_MEM\<close> is not defined).\<close>

definition free :: "u64 \<Rightarrow> 'a heap_machine_scheme \<Rightarrow> 'a heap_machine_scheme" where
  "free ptr w = w"

definition mem_is_heap_addr :: "u64 \<Rightarrow> 'a heap_machine_scheme \<Rightarrow> bool" where
  "mem_is_heap_addr addr w \<longleftrightarrow> addr \<ge> heap_start (heap w) \<and> addr < heap_current (heap w)"

definition mem_get_heap_range :: "u64 \<Rightarrow> u64 \<Rightarrow> 'a heap_machine_scheme \<Rightarrow> 'a heap_machine_scheme" where
  "mem_get_heap_range startp endp w =
     (let w = (if startp \<noteq> NULL then w\<lparr>ram := store64 (ram w) startp (heap_start (heap w))\<rparr> else w)
      in if endp \<noteq> NULL then w\<lparr>ram := store64 (ram w) endp (heap_end (heap w))\<rparr> else w)"

text \<open>The check of test 3: ten 32-bit words from \<open>p\<close> are all zero.\<close>

definition all_zero10 :: "ram \<Rightarrow> u64 \<Rightarrow> bool" where
  "all_zero10 m p \<longleftrightarrow> list_all (\<lambda>i. load32 m (p + 4 * of_nat i) = 0) [0..<10]"

definition mem_test :: "'a heap_machine_scheme \<Rightarrow> 'a heap_machine_scheme option" where
  "mem_test w = do {
     w \<leftarrow> uart_puts (lit (''=== Memory Allocator Test ==='' @ crnl)) w;
     w \<leftarrow> uart_puts (lit (''Test 1: Basic allocation'' @ crnl)) w;
     (ptr1, w) \<leftarrow> malloc 1024 w;
     w \<leftarrow> (if ptr1 \<noteq> NULL then do {
             w \<leftarrow> uart_puts (lit ''  malloc(1024): OK at 0x'') w;
             w \<leftarrow> uart_print_hex ptr1 w;
             uart_puts (lit crnl) w }
           else uart_puts (lit (''  malloc(1024): FAILED'' @ crnl)) w);
     w \<leftarrow> uart_puts (lit (''Test 2: Zero size allocation'' @ crnl)) w;
     (ptr2, w) \<leftarrow> malloc 0 w;
     w \<leftarrow> (if ptr2 = NULL then uart_puts (lit (''  malloc(0): OK (returned NULL)'' @ crnl)) w
           else uart_puts (lit (''  malloc(0): UNEXPECTED (should return NULL)'' @ crnl)) w);
     w \<leftarrow> uart_puts (lit (''Test 3: calloc'' @ crnl)) w;
     (ptr3, w) \<leftarrow> calloc 10 4 w;
     w \<leftarrow> (if ptr3 \<noteq> NULL then do {
             w \<leftarrow> uart_puts (lit ''  calloc(10, 4): OK at 0x'') w;
             w \<leftarrow> uart_print_hex ptr3 w;
             w \<leftarrow> uart_puts (lit crnl) w;
             let all_zero = all_zero10 (ram w) ptr3;
             w \<leftarrow> uart_puts (lit ''  Memory cleared: '') w;
             w \<leftarrow> uart_puts (lit (if all_zero then ''OK'' else ''FAILED'')) w;
             uart_puts (lit crnl) w }
           else uart_puts (lit (''  calloc(10, 4): FAILED'' @ crnl)) w);
     w \<leftarrow> uart_puts (lit (''Test 4: Aligned allocation'' @ crnl)) w;
     (ptr4, w) \<leftarrow> aligned_alloc 64 100 w;
     w \<leftarrow> (if ptr4 \<noteq> NULL then do {
             w \<leftarrow> uart_puts (lit ''  aligned_alloc(64, 100): OK at 0x'') w;
             w \<leftarrow> uart_print_hex ptr4 w;
             w \<leftarrow> uart_puts (lit crnl) w;
             if ptr4 mod 64 = 0 then uart_puts (lit (''  Alignment check: OK'' @ crnl)) w
             else uart_puts (lit (''  Alignment check: FAILED'' @ crnl)) w }
           else uart_puts (lit (''  aligned_alloc(64, 100): FAILED'' @ crnl)) w);
     w \<leftarrow> mem_print_stats w;
     uart_puts (lit (''========================='' @ crnl)) w }"

section \<open>Messages\<close>

lemma prints_size: "prints (print_size n) (\<lambda>t. dec_text t (sint n))"
  using prints_dec [of "sint n"] sint_ge [of n] sint_lt [of n] by (simp add: print_size_def)

definition mem_init_text :: "heap_info_t \<Rightarrow> uart_type \<Rightarrow> u8 list" where
  "mem_init_text h t = msg (''Memory heap initialized:'' @ crnl) @ msg ''  Start: 0x'' @
     (hex_prefix t @ hex16 (heap_start h)) @ msg (crnl @ ''  End:   0x'') @
     (hex_prefix t @ hex16 (heap_end h)) @ msg (crnl @ ''  Size:  '') @
     dec_text t (sint (heap_total_size h div 1024)) @ msg ('' KB'' @ crnl)"

definition oom_text :: "u64 \<Rightarrow> u64 \<Rightarrow> uart_type \<Rightarrow> u8 list" where
  "oom_text n avail t = msg (''ERROR: Out of memory!'' @ crnl) @ msg ''  Requested: '' @
     dec_text t (sint n) @ msg ('' bytes'' @ crnl) @ msg ''  Available: '' @
     dec_text t (sint avail) @ msg ('' bytes'' @ crnl)"

lemma prints_mem_init: "prints (mem_init_report h) (mem_init_text h)"
  unfolding mem_init_report_def [abs_def] mem_init_text_def [abs_def]
  by (intro prints_bind prints_lit prints_hex prints_size) (simp_all add: crnl_def)

lemma prints_oom: "prints (oom_message n avail) (oom_text n avail)"
  unfolding oom_message_def [abs_def] oom_text_def [abs_def]
  by (intro prints_bind prints_lit prints_size) (simp_all add: crnl_def)

lemma printer_stats: "printer (mem_stats_report h)"
  unfolding mem_stats_report_def [abs_def]
  by (intro printer_bind printer_lit printer_hex prints_printer [OF prints_size]) (simp_all add: crnl_def)

section \<open>Well-formed heaps\<close>

text \<open>
  The invariant: the boundary lies inside the region, everything is 8-byte aligned, the
  counters agree with the boundary, and the region lies below \<open>2 ^ 63\<close>.
\<close>

definition heap_ok :: "heap_info_t \<Rightarrow> bool" where
  "heap_ok h \<longleftrightarrow> heap_align h = 8 \<and> 0 < heap_start h \<and> heap_start h \<le> heap_current h \<and>
     heap_current h \<le> heap_end h \<and> unat (heap_end h) < 2 ^ 63 \<and>
     8 dvd unat (heap_start h) \<and> 8 dvd unat (heap_current h) \<and>
     heap_allocated h = heap_current h - heap_start h \<and>
     heap_total_size h = heap_end h - heap_start h"

lemma unat_pow12: "unat (2 ^ 12 :: u64) = 4096" by simp

lemma mem_init_heap_ok:
  assumes "unat heap_sym \<le> 0x8DFFF000"
  shows "heap_ok (mem_init_heap heap_sym)"
    "unat (heap_end (mem_init_heap heap_sym)) = 0x8E000000"
    "unat (heap_start (mem_init_heap heap_sym)) = round_up (max (unat heap_sym) 0x80400000) 4096"
proof -
  define s0 where "s0 = (if heap_sym < MEM_START + (4 * 1024 * 1024) then MEM_START + (4 * 1024 * 1024) else heap_sym)"
  have s0: "unat s0 = max (unat heap_sym) 0x80400000"
    by (auto simp: s0_def MEM_START_def word_less_nat_alt)
  have up: "unat (ALIGN_UP s0 4096) = round_up (unat s0) 4096"
    using unat_ALIGN_UP [of s0 12] s0 assms by simp
  have bounds: "unat s0 \<le> round_up (unat s0) 4096" "round_up (unat s0) 4096 < unat s0 + 4096"
    "4096 dvd round_up (unat s0) 4096"
    using round_up_bounds [of 4096 "unat s0"] by simp_all
  have down: "ALIGN_DOWN (MEM_START + MEM_SIZE - (32 * 1024 * 1024)) 4096 = 0x8E000000"
    by (simp add: ALIGN_DOWN_def MEM_START_def MEM_SIZE_def)
  have eq: "mem_init_heap heap_sym = \<lparr>heap_start = ALIGN_UP s0 4096, heap_end = 0x8E000000,
      heap_current = ALIGN_UP s0 4096, heap_total_size = 0x8E000000 - ALIGN_UP s0 4096,
      heap_allocated = 0, heap_align = 8\<rparr>"
    by (simp only: mem_init_heap_def Let_def down flip: s0_def)
  have le: "round_up (unat s0) 4096 \<le> 0x8E000000"
  proof -
    obtain q where q: "round_up (unat s0) 4096 = 4096 * q" using bounds(3) by (rule dvdE)
    have "4096 * q < 4096 * 0x8E001" using bounds(2) s0 assms unfolding q by simp
    then show ?thesis unfolding q by simp
  qed
  show "unat (heap_end (mem_init_heap heap_sym)) = 0x8E000000"
    by (simp add: eq)
  show "unat (heap_start (mem_init_heap heap_sym)) = round_up (max (unat heap_sym) 0x80400000) 4096"
    using up s0 by (simp add: eq)
  have "8 dvd round_up (unat s0) 4096" using bounds(3) by (rule dvd_trans [rotated]) simp
  then show "heap_ok (mem_init_heap heap_sym)"
    using up le bounds(1) s0
    by (simp add: heap_ok_def eq word_le_nat_alt word_less_nat_alt)
qed

lemma mem_init_outputs:
  assumes "uart_live w"
  shows "\<exists>w'. mem_init heap_sym w = Some w' \<and> heap w' = mem_init_heap heap_sym \<and> ram w' = ram w \<and>
    uart_io 0 (mem_init_text (mem_init_heap heap_sym) (uart_ty w)) (w\<lparr>heap := mem_init_heap heap_sym\<rparr>) w'"
proof -
  let ?w = "w\<lparr>heap := mem_init_heap heap_sym\<rparr>"
  have "uart_live ?w" using assms by (simp add: uart_live_cong [of ?w w])
  then obtain w' where w': "mem_init_report (mem_init_heap heap_sym) ?w = Some w'"
    "uart_io 0 (mem_init_text (mem_init_heap heap_sym) (uart_ty ?w)) ?w w'"
    by (rule printsE [OF prints_mem_init])
  moreover have "heap w' = heap ?w" "ram w' = ram ?w" using w'(2) by (auto simp: uart_io_def)
  ultimately show ?thesis by (auto simp: mem_init_def)
qed

section \<open>Allocation\<close>

text \<open>What a request of \<open>n\<close> bytes takes from the heap.\<close>

abbreviation piece :: "u64 \<Rightarrow> nat" where
  "piece n \<equiv> round_up (unat n) 8"

lemma ALIGN_UP_8:
  assumes "unat n \<le> 2 ^ 63"
  shows "unat (ALIGN_UP n 8) = piece n" "piece n \<le> 2 ^ 63" "8 dvd piece n" "unat n \<le> piece n"
proof -
  show "unat (ALIGN_UP n 8) = piece n" using unat_ALIGN_UP [of n 3] assms by simp
  show d: "8 dvd piece n" "unat n \<le> piece n" using round_up_bounds [of 8 "unat n"] by simp_all
  obtain q where q: "piece n = 8 * q" using d(1) by (rule dvdE)
  have "8 * q < 2 ^ 63 + 8" using round_up_bounds(2) [of 8 "unat n"] assms q by simp
  then show "piece n \<le> 2 ^ 63" unfolding q by simp
qed

definition take_piece :: "u64 \<Rightarrow> heap_info_t \<Rightarrow> heap_info_t" where
  "take_piece n h = h\<lparr>heap_current := heap_current h + ALIGN_UP n 8, heap_allocated := heap_allocated h + ALIGN_UP n 8\<rparr>"

text \<open>For any size at all, the new boundary is the old one and the piece, modulo the size of the address space.\<close>

lemma piece_top:
  assumes "2 ^ 64 \<le> unat n + 7"
  shows "piece n = 2 ^ 64"
proof -
  have "(unat n + 7) div 8 = 2 ^ 61" using assms unat_less_64 [of n] by (intro div_nat_eqI) simp_all
  then show ?thesis by (simp add: round_up_def)
qed

lemma unat_ALIGN_UP_8: "unat (ALIGN_UP n 8) = piece n mod 2 ^ 64"
proof (cases "unat n + 7 < 2 ^ 64")
  case True
  then have "unat (ALIGN_UP n 8) = piece n" using unat_ALIGN_UP [of n 3] by simp
  then show ?thesis using unat_less_64 [of "ALIGN_UP n 8"] by simp
next
  case False
  have "unat (n + 7) = unat n + 7 - 2 ^ 64"
    using False unat_less_64 [of n] by (simp add: unat_word_ariths mod_if)
  then have "unat (n + 7) div 8 = 0" using unat_less_64 [of n] by simp
  then have "ALIGN_UP n 8 = 0"
    using unat_and_not_mask [of "n + 7" 3]
    by (simp add: ALIGN_UP_def add_diff_eq [symmetric] mask_eq_exp_minus_1 unat_eq_zero)
  moreover have "piece n = 2 ^ 64" using False by (intro piece_top) simp
  ultimately show ?thesis by simp
qed

lemma malloc_boundary:
  assumes "heap_ok h"
  shows "unat (heap_current h + ALIGN_UP n 8) =
    (if unat (heap_current h) + piece n < 2 ^ 64 then unat (heap_current h) + piece n else unat (heap_current h) + piece n - 2 ^ 64)"
proof -
  have "unat (heap_current h) < 2 ^ 63" using assms by (auto simp: heap_ok_def word_le_nat_alt)
  moreover have "piece n \<le> 2 ^ 64" using round_up_bounds [of 8 "unat n"] unat_less_64 [of n] by (auto elim!: dvdE)
  moreover have "unat (heap_current h + ALIGN_UP n 8) = (unat (heap_current h) + piece n) mod 2 ^ 64"
    by (simp add: unat_word_ariths unat_ALIGN_UP_8 mod_simps)
  ultimately show ?thesis by (simp add: mod_if)
qed

text \<open>The comparison the code makes on wrapped words decides whether the piece fits.\<close>

lemma malloc_fits:
  assumes "heap_ok h" and "unat n \<le> 2 ^ 63"
  shows "unat (heap_current h + ALIGN_UP n 8) = unat (heap_current h) + piece n"
    "heap_current h + ALIGN_UP n 8 > heap_end h \<longleftrightarrow> unat (heap_current h) + piece n > unat (heap_end h)"
proof -
  have "unat (heap_current h) < 2 ^ 63"
    using assms(1) by (auto simp: heap_ok_def word_le_nat_alt)
  then have "unat (heap_current h) + unat (ALIGN_UP n 8) < 2 ^ 64"
    using ALIGN_UP_8 (1,2) [OF assms(2)] by simp
  then show "unat (heap_current h + ALIGN_UP n 8) = unat (heap_current h) + piece n"
    using ALIGN_UP_8(1) [OF assms(2)] by (simp add: unat_word_ariths)
  then show "heap_current h + ALIGN_UP n 8 > heap_end h \<longleftrightarrow> unat (heap_current h) + piece n > unat (heap_end h)"
    by (simp add: word_less_nat_alt)
qed

lemma heap_ok_take_piece:
  assumes "heap_ok h" and "unat n \<le> 2 ^ 63" and "unat (heap_current h) + piece n \<le> unat (heap_end h)"
  shows "heap_ok (take_piece n h)"
  using assms malloc_fits(1) [OF assms(1,2)] ALIGN_UP_8(3) [OF assms(2)]
  by (auto simp: heap_ok_def take_piece_def word_le_nat_alt)

lemma malloc_success:
  assumes "heap_ok (heap w)" and "n \<noteq> 0" and "unat n \<le> 2 ^ 63"
    and "unat (heap_current (heap w)) + piece n \<le> unat (heap_end (heap w))"
  shows "malloc n w = Some (heap_current (heap w), w\<lparr>heap := take_piece n (heap w)\<rparr>)"
  using assms malloc_fits(2) [OF assms(1,3)]
  by (simp add: malloc_def Let_def take_piece_def heap_ok_def)

lemma malloc_refuses:
  assumes "heap_ok (heap w)" and "n \<noteq> 0" and "uart_live w"
    and "heap_current (heap w) + ALIGN_UP n 8 > heap_end (heap w)"
  shows "\<exists>w'. malloc n w = Some (NULL, w') \<and> heap w' = heap w \<and>
    uart_io 0 (oom_text (ALIGN_UP n 8) (mem_get_free_size w) (uart_ty w)) w w'"
proof -
  obtain w' where w': "oom_message (ALIGN_UP n 8) (mem_get_free_size w) w = Some w'"
    "uart_io 0 (oom_text (ALIGN_UP n 8) (mem_get_free_size w) (uart_ty w)) w w'"
    by (rule printsE [OF prints_oom assms(3)])
  have "heap w' = heap w" using w'(2) by (auto simp: uart_io_def)
  then show ?thesis
    using assms w'
    by (auto simp: malloc_def Let_def heap_ok_def mem_get_free_size_def)
qed

lemma malloc_oom:
  assumes "heap_ok (heap w)" and "n \<noteq> 0" and "unat n \<le> 2 ^ 63" and "uart_live w"
    and "unat (heap_current (heap w)) + piece n > unat (heap_end (heap w))"
  shows "\<exists>w'. malloc n w = Some (NULL, w') \<and> heap w' = heap w \<and>
    uart_io 0 (oom_text (ALIGN_UP n 8) (mem_get_free_size w) (uart_ty w)) w w'"
  using malloc_refuses [OF assms(1,2,4)] malloc_fits(2) [OF assms(1,3)] assms(5) by simp

lemma malloc_zero: "malloc 0 w = Some (NULL, w)"
  by (simp add: malloc_def)

text \<open>The overflow check of \<open>calloc\<close> is exact.\<close>

lemma calloc_check:
  "divu (count * sz) count = sz \<longleftrightarrow> (if count = 0 then sz = - 1 else unat count * unat sz < 2 ^ 64)"
proof (cases "count = 0")
  case False
  have "unat count * unat sz < 2 ^ 64" if "(count * sz) div count = sz"
  proof -
    have "unat sz * unat count \<le> unat (count * sz)"
      using that by (metis div_times_less_eq_dividend unat_div)
    then show ?thesis using unat_less_64 [of "count * sz"] by (simp add: mult.commute)
  qed
  moreover have "(count * sz) div count = sz" if "unat count * unat sz < 2 ^ 64"
  proof -
    have "unat (count * sz) = unat count * unat sz" using that by (simp add: unat_word_ariths)
    then have "unat ((count * sz) div count) = unat sz"
      using False by (simp add: unat_div unat_gt_0)
    then show ?thesis by (simp add: word_unat_eq_iff)
  qed
  ultimately show ?thesis using False by (auto simp: divu_def)
qed (auto simp: divu_def)

lemma calloc_overflow:
  "2 ^ 64 \<le> unat count * unat sz \<Longrightarrow> calloc count sz w = Some (NULL, w)"
  using calloc_check [of count sz] by (auto simp: calloc_def Let_def split: if_splits)

lemma calloc_no_members: "calloc 0 sz w = Some (NULL, w)"
  by (simp add: calloc_def malloc_zero Let_def)

lemma calloc_success:
  assumes "count \<noteq> 0" and "unat count * unat sz < 2 ^ 64" and "malloc (count * sz) w = Some (p, w1)"
    and "ram w1 = m"
  shows "calloc count sz w = Some (p, if p = NULL then w1 else
    w1\<lparr>ram := (\<lambda>a. if a - p < count * sz then 0 else m a)\<rparr>)"
  using assms calloc_check [of count sz] by (simp add: calloc_def Let_def zero_bytes)

lemma aligned_alloc_invalid:
  "alignment = 0 \<or> alignment AND (alignment - 1) \<noteq> 0 \<Longrightarrow> aligned_alloc alignment sz w = Some (NULL, w)"
  by (simp add: aligned_alloc_def)

lemma aligned_alloc_success:
  assumes "k < 64" and "malloc (sz + 2 ^ k - 1) w = Some (raw, w')"
  shows "aligned_alloc (2 ^ k) sz w = Some (if raw = NULL then NULL else ALIGN_UP raw (2 ^ k), w')"
proof -
  have "(2 :: u64) ^ k \<noteq> 0" using unat_pow_64 [OF assms(1)] by (metis power_not_zero unat_0 zero_neq_numeral)
  moreover have "(2 :: u64) ^ k AND (2 ^ k - 1) = 0"
    unfolding word_pow_mask by (rule bit_word_eqI) (auto simp: bit_simps)
  ultimately show ?thesis using assms(2) by (simp add: aligned_alloc_def)
qed

section \<open>The allocator interface\<close>

text \<open>
  A sequence of requests, with the state threaded through; the blocks come back as address
  and size.
\<close>

fun alloc_all :: "('r \<Rightarrow> 's \<Rightarrow> (u64 \<times> 's) option) \<Rightarrow> ('r \<Rightarrow> nat) \<Rightarrow> 'r list \<Rightarrow> 's \<Rightarrow> ((u64 \<times> nat) list \<times> 's) option" where
  "alloc_all alloc bytes [] w = Some ([], w)"
| "alloc_all alloc bytes (r # rs) w = do {
     (p, w) \<leftarrow> alloc r w;
     (bs, w) \<leftarrow> alloc_all alloc bytes rs w;
     Some ((p, bytes r) # bs, w) }"

text \<open>
  What the users of an allocator rely on: a request returns; the boundary \<open>brk\<close> only
  grows and stays below the limit; the block lies between the old and the new boundary; memory
  outside that range is untouched.
\<close>

locale allocator =
  fixes alloc :: "'r \<Rightarrow> 's \<Rightarrow> (u64 \<times> 's) option"
    and bytes :: "'r \<Rightarrow> nat"
    and valid :: "'r \<Rightarrow> bool"
    and inv :: "'s \<Rightarrow> bool"
    and brk :: "'s \<Rightarrow> nat"
    and limit :: "'s \<Rightarrow> nat"
    and mem :: "'s \<Rightarrow> ram"
  assumes brk_limit: "inv w \<Longrightarrow> brk w \<le> limit w"
    and alloc_law: "inv w \<Longrightarrow> valid r \<Longrightarrow> \<exists>p w'. alloc r w = Some (p, w') \<and> inv w' \<and>
      limit w' = limit w \<and> brk w \<le> brk w' \<and>
      (p \<noteq> 0 \<longrightarrow> brk w \<le> unat p \<and> unat p + bytes r \<le> brk w') \<and>
      (\<forall>a :: u64. unat a < brk w \<or> brk w' \<le> unat a \<longrightarrow> mem w' a = mem w a)"
begin

lemma alloc_all_law:
  assumes "inv w" and "\<forall>r \<in> set rs. valid r"
  shows "\<exists>bs w'. alloc_all alloc bytes rs w = Some (bs, w') \<and> inv w' \<and> limit w' = limit w \<and>
    length bs = length rs \<and> brk w \<le> brk w' \<and>
    (\<forall>(p, n) \<in> set bs. p \<noteq> 0 \<longrightarrow> brk w \<le> unat p \<and> unat p + n \<le> brk w') \<and>
    sorted_wrt (\<lambda>(p, n) (q, m). p \<noteq> 0 \<longrightarrow> q \<noteq> 0 \<longrightarrow> unat p + n \<le> unat q) bs \<and>
    (\<forall>a :: u64. unat a < brk w \<or> brk w' \<le> unat a \<longrightarrow> mem w' a = mem w a)"
  using assms
proof (induction rs arbitrary: w)
  case (Cons r rs)
  obtain p w1 where 1: "alloc r w = Some (p, w1)" "inv w1" "limit w1 = limit w" "brk w \<le> brk w1"
    "p \<noteq> 0 \<longrightarrow> brk w \<le> unat p \<and> unat p + bytes r \<le> brk w1"
    "\<forall>a. unat a < brk w \<or> brk w1 \<le> unat a \<longrightarrow> mem w1 a = mem w a"
    using alloc_law [of w r] Cons.prems by auto
  obtain bs w2 where 2: "alloc_all alloc bytes rs w1 = Some (bs, w2)" "inv w2" "limit w2 = limit w1"
    "length bs = length rs" "brk w1 \<le> brk w2"
    "\<forall>(p, n) \<in> set bs. p \<noteq> 0 \<longrightarrow> brk w1 \<le> unat p \<and> unat p + n \<le> brk w2"
    "sorted_wrt (\<lambda>(p, n) (q, m). p \<noteq> 0 \<longrightarrow> q \<noteq> 0 \<longrightarrow> unat p + n \<le> unat q) bs"
    "\<forall>a. unat a < brk w1 \<or> brk w2 \<le> unat a \<longrightarrow> mem w2 a = mem w1 a"
    using Cons.IH [OF 1(2)] Cons.prems(2) by auto
  have "\<forall>(q, m) \<in> set bs. q \<noteq> 0 \<longrightarrow> brk w \<le> unat q \<and> unat q + m \<le> brk w2"
    using 1(4) 2(6) by fastforce
  moreover have "\<forall>(q, m) \<in> set bs. p \<noteq> 0 \<longrightarrow> q \<noteq> 0 \<longrightarrow> unat p + bytes r \<le> unat q"
    using 1(5) 2(6) by fastforce
  ultimately show ?case
    using 1 2 by (auto simp: case_prod_unfold)
qed simp

text \<open>What was stored below the boundary survives any later requests.\<close>

lemma contents_kept:
  assumes "inv w" and "\<forall>r \<in> set rs. valid r" and "alloc_all alloc bytes rs w = Some (bs, w')"
    and "unat (a :: u64) < brk w"
  shows "mem w' a = mem w a"
  using alloc_all_law [OF assms(1,2)] assms(3,4) by auto

end

locale zeroing_allocator = allocator +
  fixes cleared :: "'r \<Rightarrow> bool"
  assumes alloc_zero: "inv w \<Longrightarrow> valid r \<Longrightarrow> cleared r \<Longrightarrow> alloc r w = Some (p, w') \<Longrightarrow> p \<noteq> 0 \<Longrightarrow>
    unat p \<le> unat (a :: u64) \<Longrightarrow> unat a < unat p + bytes r \<Longrightarrow> mem w' a = 0"
begin

text \<open>A cleared block is still all zero after further requests.\<close>

lemma cleared_kept:
  assumes "inv w" and "valid r" and "cleared r" and "\<forall>r \<in> set rs. valid r"
    and "alloc r w = Some (p, w1)" and "p \<noteq> 0" and "alloc_all alloc bytes rs w1 = Some (bs, w2)"
    and "unat p \<le> unat (a :: u64)" and "unat a < unat p + bytes r"
  shows "mem w2 a = 0"
proof -
  have "inv w1" and "unat p + bytes r \<le> brk w1"
    using alloc_law [OF assms(1,2)] assms(5,6) by auto
  then have "mem w2 a = mem w1 a"
    using assms(4,7,9) by (intro contents_kept) auto
  also have "\<dots> = 0" using assms(1-3,5,6,8,9) by (rule alloc_zero)
  finally show ?thesis .
qed

end

section \<open>The kernel's allocator\<close>

datatype request = Malloc u64 | Calloc u64 u64 | Aligned_alloc u64 u64

fun do_request :: "request \<Rightarrow> 'a heap_machine_scheme \<Rightarrow> (u64 \<times> 'a heap_machine_scheme) option" where
  "do_request (Malloc n) w = malloc n w"
| "do_request (Calloc c n) w = calloc c n w"
| "do_request (Aligned_alloc a n) w = aligned_alloc a n w"

fun request_bytes :: "request \<Rightarrow> nat" where
  "request_bytes (Malloc n) = unat n"
| "request_bytes (Calloc c n) = unat c * unat n"
| "request_bytes (Aligned_alloc a n) = unat n"

text \<open>Requests of at most half of the address space, and those that are refused anyway: products that overflow, and
  alignments that are not powers of two.\<close>

fun request_valid :: "request \<Rightarrow> bool" where
  "request_valid (Malloc n) \<longleftrightarrow> unat n \<le> 2 ^ 63"
| "request_valid (Calloc c n) \<longleftrightarrow> unat c * unat n \<le> 2 ^ 63 \<or> 2 ^ 64 \<le> unat c * unat n"
| "request_valid (Aligned_alloc a n) \<longleftrightarrow> unat a + unat n \<le> 2 ^ 63 \<or> a AND (a - 1) \<noteq> 0"

fun request_cleared :: "request \<Rightarrow> bool" where
  "request_cleared (Calloc c n) = True"
| "request_cleared r = False"

definition heap_inv :: "'a heap_machine_scheme \<Rightarrow> bool" where
  "heap_inv w \<longleftrightarrow> uart_live w \<and> heap_ok (heap w)"

definition heap_brk :: "'a heap_machine_scheme \<Rightarrow> nat" where
  "heap_brk w = unat (heap_current (heap w))"

definition heap_limit :: "'a heap_machine_scheme \<Rightarrow> nat" where
  "heap_limit w = unat (heap_end (heap w))"

lemma heap_inv_brk: "heap_inv w \<Longrightarrow> heap_brk w \<le> heap_limit w \<and> heap_limit w < 2 ^ 63 \<and> 0 < heap_brk w"
  by (auto simp: heap_inv_def heap_ok_def heap_brk_def heap_limit_def word_le_nat_alt word_less_nat_alt)

text \<open>What \<open>malloc\<close> does in either case, as its callers see it.\<close>

lemma malloc_law:
  fixes w :: "'a heap_machine_scheme"
  assumes "heap_inv w" and "unat n \<le> 2 ^ 63"
  shows "\<exists>p w'. malloc n w = Some (p, w') \<and> heap_inv w' \<and> heap_limit w' = heap_limit w \<and> ram w' = ram w \<and>
    (if n \<noteq> 0 \<and> heap_brk w + piece n \<le> heap_limit w
     then p = heap_current (heap w) \<and> p \<noteq> 0 \<and> heap_brk w' = heap_brk w + piece n
     else p = 0 \<and> heap w' = heap w)"
proof -
  have ok: "heap_ok (heap w)" and live: "uart_live w" using assms(1) by (simp_all add: heap_inv_def)
  note fits = malloc_fits [OF ok assms(2)]
  consider (zero) "n = 0" | (fit) "n \<noteq> 0" "heap_brk w + piece n \<le> heap_limit w"
    | (oom) "n \<noteq> 0" "heap_brk w + piece n > heap_limit w"
    by linarith
  then show ?thesis
  proof cases
    case zero
    then show ?thesis using assms by (simp add: malloc_zero)
  next
    case fit
    let ?w = "w\<lparr>heap := take_piece n (heap w)\<rparr>"
    have "malloc n w = Some (heap_current (heap w), ?w)"
      using malloc_success [OF ok fit(1) assms(2)] fit(2) by (simp add: heap_brk_def heap_limit_def)
    moreover have "heap_ok (take_piece n (heap w))"
      using heap_ok_take_piece [OF ok assms(2)] fit(2) by (simp add: heap_brk_def heap_limit_def)
    moreover have "uart_live ?w" using live by (simp add: uart_live_cong [of ?w w])
    moreover have "heap_brk ?w = heap_brk w + piece n" "heap_limit ?w = heap_limit w"
      using fits(1) by (simp_all add: heap_brk_def heap_limit_def take_piece_def)
    moreover have "heap_current (heap w) \<noteq> 0" using ok by (auto simp: heap_ok_def word_gt_0)
    ultimately show ?thesis using fit by (simp add: heap_inv_def)
  next
    case oom
    then obtain w' where w': "malloc n w = Some (NULL, w')" "heap w' = heap w"
      and io: "uart_io 0 (oom_text (ALIGN_UP n 8) (mem_get_free_size w) (uart_ty w)) w w'"
      using malloc_oom [OF ok oom(1) assms(2) live] by (auto simp: heap_brk_def heap_limit_def)
    have "uart_live w'" "ram w' = ram w"
      using uart_live_io [OF live io] uart_io_frame(3) [OF io] by simp_all
    then show ?thesis using w' oom ok by (simp add: heap_inv_def heap_limit_def)
  qed
qed

lemma calloc_law:
  fixes w :: "'a heap_machine_scheme"
  assumes "heap_inv w" and "c \<noteq> 0" and "unat c * unat n \<le> 2 ^ 63"
  shows "\<exists>p w'. calloc c n w = Some (p, w') \<and> heap_inv w' \<and> heap_limit w' = heap_limit w \<and> heap_brk w \<le> heap_brk w' \<and>
    (p \<noteq> 0 \<longrightarrow> heap_brk w \<le> unat p \<and> unat p + unat c * unat n \<le> heap_brk w' \<and>
      (\<forall>a. ram w' a = (if a - p < c * n then 0 else ram w a))) \<and> (p = 0 \<longrightarrow> ram w' = ram w)"
proof -
  have u: "unat (c * n) = unat c * unat n" using assms(3) by (simp add: unat_word_ariths)
  obtain p w1 where m: "malloc (c * n) w = Some (p, w1)" "heap_inv w1" "heap_limit w1 = heap_limit w"
    "ram w1 = ram w" "if c * n \<noteq> 0 \<and> heap_brk w + piece (c * n) \<le> heap_limit w
     then p = heap_current (heap w) \<and> p \<noteq> 0 \<and> heap_brk w1 = heap_brk w + piece (c * n)
     else p = 0 \<and> heap w1 = heap w"
    using malloc_law [OF assms(1), of "c * n"] assms(3) u by auto
  let ?w = "w1\<lparr>ram := (\<lambda>a. if a - p < c * n then 0 else ram w1 a)\<rparr>"
  have c: "calloc c n w = Some (p, if p = 0 then w1 else ?w)"
    using calloc_success [OF assms(2) _ m(1) refl] assms(3) by simp
  have same: "uart_live ?w = uart_live w1" "heap ?w = heap w1" by (simp_all add: uart_live_cong [of ?w w1])
  then have w: "heap_inv ?w" "heap_limit ?w = heap_limit w" "heap_brk ?w = heap_brk w1"
    using m(2,3) by (simp_all add: heap_inv_def heap_limit_def heap_brk_def)
  have "unat c * unat n \<le> piece (c * n)" using ALIGN_UP_8(4) [of "c * n"] assms(3) u by simp
  then have "p \<noteq> 0 \<longrightarrow> heap_brk w \<le> unat p \<and> unat p + unat c * unat n \<le> heap_brk w1" "heap_brk w \<le> heap_brk w1"
    using m(5) by (auto simp: heap_brk_def split: if_splits)
  then show ?thesis using c w m by (auto simp: case_prod_unfold)
qed

lemma aligned_piece:
  fixes a n :: u64
  assumes "0 < unat a" and "unat a + unat n \<le> 2 ^ 63"
  shows "unat (n + a - 1) = unat n + unat a - 1" "unat (n + a - 1) \<le> 2 ^ 63" "unat n + unat a - 1 \<le> piece (n + a - 1)"
proof -
  have "unat (n + a) = unat n + unat a" using assms(2) by (simp add: unat_word_ariths)
  then show u: "unat (n + a - 1) = unat n + unat a - 1"
    using assms(1) unat_minus_one [of "n + a"] by (metis add_gr_0 less_irrefl unat_0)
  then show "unat (n + a - 1) \<le> 2 ^ 63" using assms(2) by simp
  show "unat n + unat a - 1 \<le> piece (n + a - 1)" using ALIGN_UP_8(4) [of "n + a - 1"] u assms(2) by simp
qed

lemma aligned_law:
  fixes w :: "'a heap_machine_scheme"
  assumes "heap_inv w" and k: "k < 64" "a = 2 ^ k" and v: "unat a + unat n \<le> 2 ^ 63"
  shows "\<exists>p w'. aligned_alloc a n w = Some (p, w') \<and> heap_inv w' \<and> heap_limit w' = heap_limit w \<and> heap_brk w \<le> heap_brk w' \<and>
    (p \<noteq> 0 \<longrightarrow> heap_brk w \<le> unat p \<and> unat p + unat n \<le> heap_brk w') \<and> ram w' = ram w"
proof -
  have up: "0 < unat a" using k by (simp add: unat_pow_64)
  note u = aligned_piece [OF up v]
  obtain raw w1 where m: "malloc (n + a - 1) w = Some (raw, w1)" "heap_inv w1" "heap_limit w1 = heap_limit w"
    "ram w1 = ram w" "if n + a - 1 \<noteq> 0 \<and> heap_brk w + piece (n + a - 1) \<le> heap_limit w
     then raw = heap_current (heap w) \<and> raw \<noteq> 0 \<and> heap_brk w1 = heap_brk w + piece (n + a - 1)
     else raw = 0 \<and> heap w1 = heap w"
    using malloc_law [OF assms(1) u(2)] by blast
  have al: "aligned_alloc a n w = Some (if raw = 0 then 0 else ALIGN_UP raw a, w1)"
    using aligned_alloc_success [OF k(1), of n w raw w1] m(1) k(2) by simp
  have "heap_brk w \<le> unat (ALIGN_UP raw a) \<and> unat (ALIGN_UP raw a) + unat n \<le> heap_brk w1" if "raw \<noteq> 0"
  proof -
    have raw: "unat raw = heap_brk w" "heap_brk w1 = heap_brk w + piece (n + a - 1)"
      using m(5) that by (auto simp: heap_brk_def split: if_splits)
    have "unat raw + unat a < 2 ^ 64" using raw(1) v heap_inv_brk [OF assms(1)] by simp
    then have "unat (ALIGN_UP raw a) = round_up (unat raw) (unat a)"
      using unat_ALIGN_UP [of raw k] k unat_pow_64 [OF k(1)] by simp
    then show ?thesis using raw u(3) round_up_bounds(1,2) [OF up, of "unat raw"] by linarith
  qed
  moreover have "heap_brk w \<le> heap_brk w1" using m(5) by (auto simp: heap_brk_def split: if_splits)
  ultimately show ?thesis using al m by auto
qed

lemma request_law:
  fixes w :: "'a heap_machine_scheme"
  assumes "heap_inv w" and "request_valid r"
  shows "\<exists>p w'. do_request r w = Some (p, w') \<and> heap_inv w' \<and> heap_limit w' = heap_limit w \<and>
    heap_brk w \<le> heap_brk w' \<and>
    (p \<noteq> 0 \<longrightarrow> heap_brk w \<le> unat p \<and> unat p + request_bytes r \<le> heap_brk w' \<and>
      (case r of Calloc c n \<Rightarrow> \<forall>a. ram w' a = (if a - p < c * n then 0 else ram w a)
               | _ \<Rightarrow> ram w' = ram w)) \<and>
    (p = 0 \<longrightarrow> ram w' = ram w)"
proof (cases r)
  case (Malloc n)
  then show ?thesis
    using malloc_law [OF assms(1), of n] assms(2) ALIGN_UP_8(4) [of n]
    by (auto simp: heap_brk_def split: if_splits)
next
  case (Calloc c n)
  consider (none) "c = 0" | (over) "2 ^ 64 \<le> unat c * unat n" | (ok) "c \<noteq> 0" "unat c * unat n \<le> 2 ^ 63"
    using assms(2) Calloc by fastforce
  then show ?thesis
  proof cases
    case none
    then show ?thesis using assms Calloc by (auto simp: calloc_no_members)
  next
    case over
    then show ?thesis using assms Calloc by (auto simp: calloc_overflow)
  next
    case ok
    then show ?thesis using calloc_law [OF assms(1) ok] Calloc by auto
  qed
next
  case (Aligned_alloc a n)
  show ?thesis
  proof (cases "a = 0 \<or> a AND (a - 1) \<noteq> 0")
    case True
    then show ?thesis using assms Aligned_alloc by (auto simp: aligned_alloc_invalid)
  next
    case False
    then have v: "unat a + unat n \<le> 2 ^ 63" using assms(2) Aligned_alloc by auto
    obtain k where k: "k < 64" "a = 2 ^ k" using False power_of_two_test [of a] by auto
    show ?thesis using aligned_law [OF assms(1) k v] Aligned_alloc by auto
  qed
qed

text \<open>Offsets from a block and addresses inside it.\<close>

lemma block_iff:
  fixes p a :: u64
  assumes "unat p + unat n < 2 ^ 64"
  shows "a - p < n \<longleftrightarrow> unat p \<le> unat a \<and> unat a < unat p + unat n"
proof (cases "unat p \<le> unat a")
  case True
  then have "unat (a - p) = unat a - unat p" by (simp add: unat_sub word_le_nat_alt)
  then show ?thesis using True by (auto simp: word_less_nat_alt)
next
  case False
  then have "unat (a - p) = 2 ^ 64 + unat a - unat p" using unat_less_64 [of p]
    by (simp add: unat_sub_if_size word_size)
  then show ?thesis using False assms by (simp add: word_less_nat_alt)
qed


interpretation kheap: zeroing_allocator do_request request_bytes request_valid heap_inv heap_brk heap_limit
  ram request_cleared
proof unfold_locales
  fix w :: "'a heap_machine_scheme" and r
  show "heap_inv w \<Longrightarrow> heap_brk w \<le> heap_limit w" by (simp add: heap_inv_brk)
  assume w: "heap_inv w" and r: "request_valid r"
  obtain p w' where l: "do_request r w = Some (p, w')" "heap_inv w'" "heap_limit w' = heap_limit w"
    "heap_brk w \<le> heap_brk w'" "p = 0 \<longrightarrow> ram w' = ram w"
    "p \<noteq> 0 \<longrightarrow> heap_brk w \<le> unat p \<and> unat p + request_bytes r \<le> heap_brk w' \<and>
      (case r of Calloc c n \<Rightarrow> \<forall>a. ram w' a = (if a - p < c * n then 0 else ram w a) | _ \<Rightarrow> ram w' = ram w)"
    using request_law [OF w r] by blast
  have top: "heap_brk w' < 2 ^ 63" using heap_inv_brk [OF l(2)] by simp
  have cz: "a - p < c * n \<longleftrightarrow> unat p \<le> unat a \<and> unat a < unat p + request_bytes r"
    if "r = Calloc c n" "p \<noteq> 0" for a :: u64 and c n
  proof -
    have "unat p + unat c * unat n < 2 ^ 63" using l(6) top that by simp
    then have "unat (c * n) = unat c * unat n" "unat p + unat c * unat n < 2 ^ 64" by (simp_all add: unat_word_ariths)
    then show ?thesis using block_iff [of p "c * n" a] that by simp
  qed
  show "\<exists>p w'. do_request r w = Some (p, w') \<and> heap_inv w' \<and> heap_limit w' = heap_limit w \<and> heap_brk w \<le> heap_brk w' \<and>
      (p \<noteq> 0 \<longrightarrow> heap_brk w \<le> unat p \<and> unat p + request_bytes r \<le> heap_brk w') \<and>
      (\<forall>a :: u64. unat a < heap_brk w \<or> heap_brk w' \<le> unat a \<longrightarrow> ram w' a = ram w a)"
    using l cz by (cases r) auto
  fix q w2 and a :: u64
  assume "request_cleared r" "do_request r w = Some (q, w2)" "q \<noteq> 0" "unat q \<le> unat a" "unat a < unat q + request_bytes r"
  then show "ram w2 a = 0" using l cz by (cases r) auto
qed

section \<open>The self test\<close>

definition stats_text :: "heap_info_t \<Rightarrow> uart_type \<Rightarrow> u8 list" where
  "stats_text h t = (let num = (\<lambda>n :: u64. dec_text t (sint n)); avail = heap_end h - heap_current h in
     msg (''=== Memory Statistics ==='' @ crnl) @ msg ''Total heap size: '' @ num (heap_total_size h) @
     msg '' bytes ('' @ num (heap_total_size h div 1024) @ msg ('' KB)'' @ crnl) @
     msg ''Allocated:       '' @ num (heap_allocated h) @
     msg '' bytes ('' @ num (heap_allocated h div 1024) @ msg ('' KB)'' @ crnl) @
     msg ''Free:            '' @ num avail @
     msg '' bytes ('' @ num (avail div 1024) @ msg ('' KB)'' @ crnl) @
     msg ''Usage:           '' @ num (divu (heap_allocated h * 100) (heap_total_size h)) @ msg (''%'' @ crnl) @
     msg ''Current pointer: 0x'' @ (hex_prefix t @ hex16 (heap_current h)) @ msg crnl)"

lemma prints_stats: "prints (mem_stats_report h) (stats_text h)"
  unfolding mem_stats_report_def [abs_def] stats_text_def [abs_def] Let_def
  by (intro prints_bind prints_lit prints_hex prints_size) (simp_all add: crnl_def)

text \<open>What a successful run of \<^verbatim>\<open>mem_test\<close> prints.\<close>

definition mem_test_text :: "u64 \<Rightarrow> u64 \<Rightarrow> u64 \<Rightarrow> heap_info_t \<Rightarrow> uart_type \<Rightarrow> u8 list" where
  "mem_test_text p1 p2 p3 h t =
     msg (''=== Memory Allocator Test ==='' @ crnl) @ msg (''Test 1: Basic allocation'' @ crnl) @
     (msg ''  malloc(1024): OK at 0x'' @ (hex_prefix t @ hex16 p1) @ msg crnl) @ msg (''Test 2: Zero size allocation'' @ crnl) @
     msg (''  malloc(0): OK (returned NULL)'' @ crnl) @ msg (''Test 3: calloc'' @ crnl) @
     (msg ''  calloc(10, 4): OK at 0x'' @ (hex_prefix t @ hex16 p2) @ msg crnl @
       msg ''  Memory cleared: '' @ msg ''OK'' @ msg crnl) @
     msg (''Test 4: Aligned allocation'' @ crnl) @
     (msg ''  aligned_alloc(64, 100): OK at 0x'' @ (hex_prefix t @ hex16 p3) @ msg crnl @
       msg (''  Alignment check: OK'' @ crnl)) @
     stats_text h t @ msg (''========================='' @ crnl)"

text \<open>Console traffic does not mix with updates of the heap and the memory.\<close>

lemma uart_io_heap:
  assumes "uart_io 0 as (w\<lparr>heap := h, ram := m\<rparr>) w1" and "uart_io 0 bs (w1\<lparr>heap := h', ram := m'\<rparr>) w2"
  shows "uart_io 0 (as @ bs) (w\<lparr>heap := h', ram := m'\<rparr>) w2"
proof -
  have "uart_io 0 as ((w\<lparr>heap := h, ram := m\<rparr>)\<lparr>heap := h', ram := m'\<rparr>) (w1\<lparr>heap := h', ram := m'\<rparr>)"
    by (rule uart_io_upd [where upd = "\<lambda>w. w\<lparr>heap := h', ram := m'\<rparr>", OF _ _ _ _ _ assms(1)]) simp_all
  then have "uart_io 0 as (w\<lparr>heap := h', ram := m'\<rparr>) (w1\<lparr>heap := h', ram := m'\<rparr>)" by simp
  from uart_io_trans [OF this assms(2)] show ?thesis by simp
qed

lemma all_zero10_cleared:
  assumes "\<And>k. k < 40 \<Longrightarrow> m (p + k) = 0"
  shows "all_zero10 m p"
  unfolding all_zero10_def list_all_iff
proof
  fix i assume "i \<in> set [0..<10 :: nat]"
  then have "(4 * of_nat i + c :: u64) < 40" if "c < 4" for c
    using that by (auto simp: upt_rec) unat_arith+
  from assms [OF this] have z: "m (p + (4 * of_nat i + c)) = 0" if "c < 4" for c
    using that by blast
  show "load32 m (p + 4 * of_nat i) = 0"
    using z [of 0] z [of 1] z [of 2] z [of 3] by (simp add: load32_def add.assoc)
qed

text \<open>
  \<open>runs f h m h' m' bs\<close>: started with the heap \<open>h\<close> and the memory \<open>m\<close>, \<open>f\<close> returns with \<open>h'\<close>
  and \<open>m'\<close>, having sent \<open>bs\<close>.
\<close>

definition runs :: "('a heap_machine_scheme \<Rightarrow> 'a heap_machine_scheme option) \<Rightarrow>
    heap_info_t \<Rightarrow> ram \<Rightarrow> heap_info_t \<Rightarrow> ram \<Rightarrow> (uart_type \<Rightarrow> u8 list) \<Rightarrow> bool" where
  "runs f h m h' m' bs \<longleftrightarrow> (\<forall>w. uart_live w \<longrightarrow> heap w = h \<longrightarrow> ram w = m \<longrightarrow>
     (\<exists>w'. f w = Some w' \<and> uart_io 0 (bs (uart_ty w)) (w\<lparr>heap := h', ram := m'\<rparr>) w'))"

lemma runsE:
  assumes "runs f (heap w) (ram w) h' m' bs" and "uart_live w"
  obtains w' where "f w = Some w'" "uart_io 0 (bs (uart_ty w)) (w\<lparr>heap := h', ram := m'\<rparr>) w'"
  using assms unfolding runs_def by blast

lemma runs_print:
  assumes "prints f bs"
  shows "runs f h m h m bs"
  using assms by (auto simp: runs_def elim: printsE)

lemma runs_bind:
  assumes f: "runs f h m h1 m1 as" and g: "runs g h1 m1 h2 m2 bs"
  shows "runs (\<lambda>w. f w \<bind> g) h m h2 m2 (\<lambda>t. as t @ bs t)"
  unfolding runs_def
proof (intro allI impI)
  fix w :: "'a heap_machine_scheme" assume w: "uart_live w" "heap w = h" "ram w = m"
  obtain w1 where w1: "f w = Some w1" "uart_io 0 (as (uart_ty w)) (w\<lparr>heap := h1, ram := m1\<rparr>) w1"
    using f w by (auto elim: runsE)
  have same: "plat w1 = plat w" "uart_ty w1 = uart_ty w" "mmio_rd w1 = mmio_rd w" "heap w1 = h1" "ram w1 = m1"
    using w1(2) by (auto simp: uart_io_def)
  then have "uart_live w1" using w(1) by (simp add: uart_live_cong [of w1 w])
  then obtain w2 where "g w1 = Some w2" "uart_io 0 (bs (uart_ty w)) (w1\<lparr>heap := h2, ram := m2\<rparr>) w2"
    using g same by (auto elim: runsE)
  then show "\<exists>w'. f w \<bind> g = Some w' \<and> uart_io 0 (as (uart_ty w) @ bs (uart_ty w)) (w\<lparr>heap := h2, ram := m2\<rparr>) w'"
    using w1 uart_io_heap [OF w1(2)] by auto
qed

lemma runs_alloc:
  assumes "\<And>w. heap w = h \<Longrightarrow> ram w = m \<Longrightarrow> alloc w = Some (p, w\<lparr>heap := h1, ram := m1\<rparr>)"
    and "runs (g p) h1 m1 h2 m2 bs"
  shows "runs (\<lambda>w. alloc w \<bind> (\<lambda>(p, w). g p w)) h m h2 m2 bs"
  unfolding runs_def
proof (intro allI impI)
  fix w :: "'a heap_machine_scheme" assume w: "uart_live w" "heap w = h" "ram w = m"
  let ?w = "w\<lparr>heap := h1, ram := m1\<rparr>"
  have "uart_live ?w" using w(1) by (simp add: uart_live_cong [of ?w w])
  then show "\<exists>w'. alloc w \<bind> (\<lambda>(p, w). g p w) = Some w' \<and> uart_io 0 (bs (uart_ty w)) (w\<lparr>heap := h2, ram := m2\<rparr>) w'"
    using assms(1) [OF w(2,3)] assms(2) by (auto simp: runs_def)
qed

lemma runs_if: "b \<Longrightarrow> runs f h m h' m' bs \<Longrightarrow> runs (\<lambda>w. if b then f w else g w) h m h' m' bs"
  by simp

lemma runs_let_zero:
  assumes "all_zero10 m p" and "runs (g True) h m h' m' bs"
  shows "runs (\<lambda>w. let b = all_zero10 (ram w) p in g b w) h m h' m' bs"
  using assms by (simp add: runs_def)

lemma runs_lit:
  assumes "s = s'" and "0 \<notin> set (str s')" and "length s' < 2 ^ 64"
  shows "runs (uart_puts (lit s)) h m h m (\<lambda>t. msg s')"
  using assms by (simp add: runs_print [OF prints_lit])

lemma runs_stats: "runs mem_print_stats h m h m (stats_text h)"
  using runs_print [OF prints_stats [of h], of h m] unfolding runs_def mem_print_stats_def by auto

lemma runs_malloc_zero: "malloc 0 w = Some (NULL, w\<lparr>heap := h, ram := m\<rparr>)" if "heap w = h" "ram w = m"
  using that by (auto simp: malloc_zero)

text \<open>The test succeeds whenever its three allocations do.\<close>

lemma mem_test_runs:
  assumes alloc: "\<And>v :: 'a heap_machine_scheme. heap v = h0 \<Longrightarrow> ram v = m0 \<Longrightarrow> malloc 1024 v = Some (p1, v\<lparr>heap := h1, ram := m0\<rparr>)"
      "\<And>v :: 'a heap_machine_scheme. heap v = h1 \<Longrightarrow> ram v = m0 \<Longrightarrow> calloc 10 4 v = Some (p2, v\<lparr>heap := h2, ram := m1\<rparr>)"
      "\<And>v :: 'a heap_machine_scheme. heap v = h2 \<Longrightarrow> ram v = m1 \<Longrightarrow> aligned_alloc 64 100 v = Some (p3, v\<lparr>heap := h3, ram := m1\<rparr>)"
    and ps: "p1 \<noteq> NULL" "p2 \<noteq> NULL" "p3 \<noteq> NULL" "all_zero10 m1 p2" "p3 mod 64 = 0"
  shows "runs (mem_test :: 'a heap_machine_scheme \<Rightarrow> _) h0 m0 h3 m1 (mem_test_text p1 p2 p3 h3)"
  unfolding mem_test_def [abs_def] mem_test_text_def [abs_def]
  by (rule runs_bind runs_lit runs_alloc runs_if runs_let_zero runs_stats runs_print [OF prints_hex]
      alloc runs_malloc_zero ps refl | assumption | simp add: crnl_def)+


lemma aligned_alloc_aligned:
  assumes "aligned_alloc a n w = Some (p, w')"
  shows "unat p mod unat a = 0 \<or> p = 0"
proof (cases "a = 0 \<or> a AND (a - 1) \<noteq> 0")
  case True
  then show ?thesis using assms by (auto simp: aligned_alloc_def)
next
  case False
  then obtain k where k: "k < 64" "a = 2 ^ k" using power_of_two_test [of a] by auto
  obtain raw where "p = (if raw = 0 then 0 else ALIGN_UP raw a)"
    using assms False by (auto simp: aligned_alloc_def bind_eq_Some_conv)
  moreover have "unat (ALIGN_UP raw a) mod unat a = 0"
    unfolding ALIGN_UP_def k(2) word_pow_mask unat_pow_64 [OF k(1)] unat_and_not_mask by simp
  ultimately show ?thesis by auto
qed

lemma piece_consts: "piece 1024 = 1024" "piece 40 = 40" "piece 163 = 168"
  by (simp_all add: round_up_def)

lemma take_piece_room:
  assumes "heap_ok h" and "n \<noteq> 0" and "unat n \<le> 2 ^ 63"
    and "unat (heap_current h) + piece n + k \<le> unat (heap_end h)"
  shows "heap_ok (take_piece n h)"
    "unat (heap_current (take_piece n h)) + k \<le> unat (heap_end (take_piece n h))"
    "heap w = h \<Longrightarrow> malloc n w = Some (heap_current h, w\<lparr>heap := take_piece n h\<rparr>)"
    "heap_current h \<noteq> 0"
  using heap_ok_take_piece [of h n] malloc_success [of w n] malloc_fits(1) [of h n] assms
  by (auto simp: take_piece_def heap_ok_def word_gt_0)

text \<open>With 1232 bytes free the self test passes.\<close>

lemma mem_test_free_heap:
  fixes h :: heap_info_t and m :: ram
  defines "p \<equiv> heap_current h"
  assumes h: "heap_ok h" "unat p + 1232 \<le> unat (heap_end h)"
  shows "runs (mem_test :: 'a heap_machine_scheme \<Rightarrow> _) h m
    (take_piece 163 (take_piece 40 (take_piece 1024 h)))
    (\<lambda>a. if a - (p + 1024) < 40 then 0 else m a)
    (mem_test_text p (p + 1024) (ALIGN_UP (p + 1064) 64) (take_piece 163 (take_piece 40 (take_piece 1024 h))))"
proof -
  let ?h1 = "take_piece 1024 h" let ?h2 = "take_piece 40 ?h1" let ?h3 = "take_piece 163 ?h2"
  let ?m = "\<lambda>a. if a - (p + 1024) < 40 then 0 else m a"
  have cur: "heap_current h = p" "heap_current ?h1 = p + 1024" "heap_current ?h2 = p + 1064"
    by (simp_all add: take_piece_def ALIGN_UP_def p_def)
  have h1: "heap_ok ?h1" "unat (p + 1024) + 208 \<le> unat (heap_end ?h1)" "p \<noteq> 0"
    using take_piece_room [OF h(1), of 1024 208, unfolded piece_consts cur] h(2) by simp_all
  have h2: "heap_ok ?h2" "unat (p + 1064) + 168 \<le> unat (heap_end ?h2)" "p + 1024 \<noteq> 0"
    using take_piece_room [OF h1(1), of 40 168, unfolded piece_consts cur] h1(2) by simp_all
  have h3: "p + 1064 \<noteq> 0"
    using take_piece_room(4) [OF h2(1), of 163 0, unfolded piece_consts cur] h2(2) by simp
  have "unat (p + 1064) < 2 ^ 63" using h2 by (auto simp: heap_ok_def)
  then have up: "unat (ALIGN_UP (p + 1064) 64) = round_up (unat (p + 1064)) 64" "0 < unat (p + 1064)"
    using unat_ALIGN_UP [of "p + 1064" 6] h3 by (simp_all add: unat_gt_0)
  show ?thesis
  proof (rule mem_test_runs)
    show "ALIGN_UP (p + 1064) 64 \<noteq> NULL"
      using up round_up_bounds(1) [of 64 "unat (p + 1064)"] by auto
    show "ALIGN_UP (p + 1064) 64 mod 64 = 0"
      using up round_up_bounds(3) [of 64 "unat (p + 1064)"] by (simp add: word_unat_eq_iff unat_mod mod_eq_0_iff_dvd)
    show "all_zero10 ?m (p + 1024)" by (rule all_zero10_cleared) simp
  next
    fix v :: "'a heap_machine_scheme"
    show "heap v = h \<Longrightarrow> ram v = m \<Longrightarrow> malloc 1024 v = Some (p, v\<lparr>heap := ?h1, ram := m\<rparr>)"
      using take_piece_room(3) [OF h(1), of 1024 208 v] h(2) cur by (auto simp: round_up_def)
    show "heap v = ?h1 \<Longrightarrow> ram v = m \<Longrightarrow> calloc 10 4 v = Some (p + 1024, v\<lparr>heap := ?h2, ram := ?m\<rparr>)"
      using take_piece_room(3) [OF h1(1), of 40 168 v] h1(2) h2(3) cur calloc_success [of 10 4 v "p + 1024" _ m]
      by (simp add: round_up_def)
    show "heap v = ?h2 \<Longrightarrow> ram v = ?m \<Longrightarrow>
        aligned_alloc 64 100 v = Some (ALIGN_UP (p + 1064) 64, v\<lparr>heap := ?h3, ram := ?m\<rparr>)"
      using take_piece_room(3) [OF h2(1), of 163 0 v] h2(2) h3 cur aligned_alloc_success [of 6 100 v]
      by (auto simp: round_up_def)
  qed (simp_all add: h1(3) h2(3))
qed

section \<open>Properties\<close>

definition demo_heap :: heap_info_t where
  "demo_heap = mem_init_heap 0x80210000"

definition demo_heap_machine :: heap_machine where
  "demo_heap_machine = ready_machine PLATFORM_QEMU UART_TYPE_DW (heap_machine.fields demo_heap)"

lemma demo_heap_machine_facts:
  "uart_live demo_heap_machine" "heap demo_heap_machine = demo_heap"
  by (simp_all add: demo_heap_machine_def uart_live_def ready_machine_live)
    (simp add: ready_machine_def heap_machine.defs)

lemma demo_heap_eq:
  "demo_heap = \<lparr>heap_start = 0x80400000, heap_end = 0x8E000000, heap_current = 0x80400000,
     heap_total_size = 0xDC00000, heap_allocated = 0, heap_align = 8\<rparr>"
  by (simp add: demo_heap_def mem_init_heap_def MEM_START_def MEM_SIZE_def ALIGN_UP_def ALIGN_DOWN_def)

lemma demo_heap_ok: "heap_ok demo_heap"
  by (simp add: heap_ok_def demo_heap_eq)

lemmas demo_heap_facts = demo_heap_eq demo_heap_ok [unfolded demo_heap_eq]



text \<open>
  C16.  A block returned by \<open>calloc\<close> is all zero, and it is still all zero, unless the caller
  writes to it, after any further sequence of requests of those sizes.
\<close>

theorem calloc_block_cleared:
  assumes "uart_live w" and "heap_ok (heap w)" and "unat c * unat n \<le> 2 ^ 63"
    and "calloc c n w = Some (p, w1)" and "p \<noteq> NULL"
    and "\<forall>r \<in> set rs. request_valid r" and "alloc_all do_request request_bytes rs w1 = Some (bs, w2)"
    and "unat p \<le> unat a" and "unat a < unat p + unat c * unat n"
  shows "ram w2 a = 0"
  using kheap.cleared_kept [of w "Calloc c n" rs p w1 bs w2 a] assms by (simp add: heap_inv_def)

theorem calloc_block_cleared_witness:
  "\<exists>p w1 bs w2. calloc 10 4 demo_heap_machine = Some (p, w1) \<and> p \<noteq> NULL \<and>
     alloc_all do_request request_bytes [Malloc 8] w1 = Some (bs, w2) \<and> ram w2 (p + 5) = 0"
proof -
  let ?w1 = "demo_heap_machine\<lparr>heap := take_piece 40 demo_heap, ram := (\<lambda>a. if a - 0x80400000 < 40 then 0
    else ram demo_heap_machine a)\<rparr>"
  have c: "calloc 10 4 demo_heap_machine = Some (0x80400000, ?w1)"
    by (simp add: calloc_def divu_def malloc_def demo_heap_machine_facts demo_heap_eq take_piece_def
      ALIGN_UP_def zero_bytes cong: if_cong)
  moreover have m: "\<exists>bs w2. alloc_all do_request request_bytes [Malloc 8] ?w1 = Some (bs, w2)"
    by (simp add: malloc_def demo_heap_eq take_piece_def ALIGN_UP_def)
  ultimately show ?thesis
    using calloc_block_cleared [OF _ _ _ c, where rs = "[Malloc 8]" and a = "0x80400005"]
    by (auto simp: demo_heap_machine_facts demo_heap_ok)
qed

text \<open>
  C29.  What \<open>malloc\<close> does with a request that does not fit, of any size.  If the boundary and the rounded size add up to less than
  \<open>2 ^ 64\<close>, as they do for every size up to half of the address space, it returns NULL, leaves the heap as it was
  and reports the rounded size and the free space on the console.  Otherwise the sum wraps, and \<open>malloc\<close> succeeds: it
  returns the boundary and moves it back, by as much as the rounded size falls short of \<open>2 ^ 64\<close>.
\<close>

theorem malloc_exhausted:
  assumes "uart_live w" and ok: "heap_ok (heap w)"
    and over: "unat (heap_end (heap w)) - unat (heap_current (heap w)) < unat n"
  shows "if unat (heap_current (heap w)) + round_up (unat n) 8 < 2 ^ 64
    then \<exists>w'. malloc n w = Some (NULL, w') \<and> heap w' = heap w \<and> ram w' = ram w \<and>
      uart_io 0 (oom_text (ALIGN_UP n 8) (mem_get_free_size w) (uart_ty w)) w w'
    else malloc n w = Some (heap_current (heap w), w\<lparr>heap := take_piece n (heap w)\<rparr>) \<and>
      unat (heap_current (take_piece n (heap w))) = unat (heap_current (heap w)) - (2 ^ 64 - round_up (unat n) 8)"
proof -
  let ?cur = "unat (heap_current (heap w))"
  have n: "n \<noteq> 0" using over by auto
  have le: "?cur \<le> unat (heap_end (heap w))" "unat n \<le> piece n"
    using ok round_up_bounds(1) [of 8 "unat n"] by (simp_all add: heap_ok_def word_le_nat_alt)
  show ?thesis
  proof (cases "?cur + piece n < 2 ^ 64")
    case True
    then have "heap_current (heap w) + ALIGN_UP n 8 > heap_end (heap w)"
      using malloc_boundary [OF ok, of n] le over by (simp add: word_less_nat_alt)
    then show ?thesis
      using True malloc_refuses [OF ok n assms(1)] by (auto simp: io_frame)
  next
    case False
    have "piece n \<le> 2 ^ 64" using round_up_bounds [of 8 "unat n"] unat_less_64 [of n] by (auto elim!: dvdE)
    then have "\<not> heap_current (heap w) + ALIGN_UP n 8 > heap_end (heap w)"
      and "unat (heap_current (heap w) + ALIGN_UP n 8) = ?cur - (2 ^ 64 - piece n)"
      using malloc_boundary [OF ok, of n] le(1) False by (simp_all add: word_less_nat_alt)
    then show ?thesis
      using False n ok by (simp add: malloc_def Let_def take_piece_def heap_ok_def)
  qed
qed

theorem malloc_exhausted_witness:
  "(\<exists>w'. malloc 0x10000000 demo_heap_machine = Some (NULL, w') \<and> heap w' = demo_heap) \<and>
   (\<exists>w'. malloc (- 4096) demo_heap_machine = Some (0x80400000, w') \<and> unat (heap_current (heap w')) = 0x803FF000)"
  using malloc_exhausted [of demo_heap_machine "0x10000000"] malloc_exhausted [of demo_heap_machine "- 4096"]
  by (auto simp: demo_heap_machine_facts demo_heap_facts round_up_def split: if_splits)

lemma aligned_fits:
  assumes ok: "heap_ok (heap w)" and n: "unat n + 2 ^ k < 2 ^ 63" "n \<noteq> 0" and k: "k < 64"
    and fits: "unat (heap_current (heap w)) + unat n + 2 ^ k + 7 \<le> unat (heap_end (heap w))"
  shows "\<exists>p h. aligned_alloc (2 ^ k) n w = Some (p, w\<lparr>heap := h\<rparr>) \<and>
    unat p = round_up (unat (heap_current (heap w))) (2 ^ k) \<and> 0 < unat (heap_current (heap w)) \<and>
    unat (heap_current (heap w)) + unat n + 2 ^ k - 1 \<le> unat (heap_current h) \<and> heap_current h \<le> heap_end h"
proof -
  let ?a = "2 ^ k :: u64" let ?n = "n + ?a - 1" let ?h = "take_piece (n + ?a - 1) (heap w)"
  have a: "unat ?a = 2 ^ k" using unat_pow_64 [OF k] .
  have "unat (n + ?a) = unat n + 2 ^ k" using n(1) a by (simp add: unat_word_ariths)
  then have u: "unat ?n = unat n + 2 ^ k - 1"
    using unat_minus_one [of "n + ?a"] by (metis add_gr_0 less_irrefl unat_0 zero_less_numeral zero_less_power)
  moreover have "0 < unat n" using n(2) by (simp add: unat_gt_0)
  moreover have "(1 :: nat) \<le> 2 ^ k" by simp
  ultimately have "0 < unat ?n" and le: "unat ?n \<le> 2 ^ 63" using n(1) by linarith+
  then have nz: "?n \<noteq> 0" by (metis unat_gt_0)
  have pc: "unat ?n \<le> piece ?n" "piece ?n < unat ?n + 8" using round_up_bounds [of 8 "unat ?n"] by simp_all
  have room: "unat (heap_current (heap w)) + piece ?n + 0 \<le> unat (heap_end (heap w))"
    using fits pc u by simp
  note tp = take_piece_room [OF ok nz le room]
  have cur: "unat (heap_current ?h) = unat (heap_current (heap w)) + piece ?n"
    using malloc_fits(1) [OF ok le] by (simp add: take_piece_def)
  have "aligned_alloc ?a n w = Some (ALIGN_UP (heap_current (heap w)) ?a, w\<lparr>heap := ?h\<rparr>)"
    using aligned_alloc_success [OF k, of n w] tp(3) [of w] tp(4) by simp
  moreover have "unat (heap_current (heap w)) < 2 ^ 63" using ok by (auto simp: heap_ok_def word_le_nat_alt)
  then have "unat (ALIGN_UP (heap_current (heap w)) ?a) = round_up (unat (heap_current (heap w))) (2 ^ k)"
    using unat_ALIGN_UP [of "heap_current (heap w)" k] k a n(1) by simp
  moreover have "0 < unat (heap_current (heap w))" using tp(4) by (simp add: unat_gt_0)
  moreover have "heap_current ?h \<le> heap_end ?h" using tp(1) by (simp add: heap_ok_def)
  ultimately show ?thesis using pc u cur by (intro exI conjI) (assumption | simp)+
qed

text \<open>
  C28.  \<open>aligned_alloc\<close> with a power of two as alignment and a size that fits returns an address
  that is a multiple of the alignment, with the whole block inside the heap; any other
  alignment gives NULL and changes nothing.
\<close>

theorem aligned_alloc_correct:
  assumes "heap_ok (heap w)" and "unat a + unat n < 2 ^ 63"
    and "unat (heap_current (heap w)) + unat n + unat a + 7 \<le> unat (heap_end (heap w))"
    and "n \<noteq> 0"
  shows "if \<exists>k < 64. a = 2 ^ k
    then \<exists>p w'. aligned_alloc a n w = Some (p, w') \<and> p \<noteq> NULL \<and> unat p mod unat a = 0 \<and>
      unat (heap_current (heap w)) \<le> unat p \<and> unat p + unat n \<le> unat (heap_current (heap w')) \<and>
      heap_current (heap w') \<le> heap_end (heap w') \<and> ram w' = ram w
    else aligned_alloc a n w = Some (NULL, w)"
proof (cases "\<exists>k < 64. a = 2 ^ k")
  case False
  then have "a = 0 \<or> a AND (a - 1) \<noteq> 0" using power_of_two_test [of a] by auto
  then show ?thesis unfolding if_not_P [OF False] by (rule aligned_alloc_invalid)
next
  case True
  then obtain k where k: "k < 64" "a = 2 ^ k" by auto
  let ?c = "unat (heap_current (heap w))"
  obtain p h where h: "aligned_alloc a n w = Some (p, w\<lparr>heap := h\<rparr>)" "unat p = round_up ?c (2 ^ k)" "0 < ?c"
    "?c + unat n + 2 ^ k - 1 \<le> unat (heap_current h)" "heap_current h \<le> heap_end h"
    using aligned_fits [OF assms(1) _ assms(4) k(1)] assms(2,3) k unat_pow_64 [OF k(1)] by (auto simp: add.commute)
  have rb: "?c \<le> unat p" "unat p < ?c + 2 ^ k" "2 ^ k dvd unat p"
    using round_up_bounds [of "2 ^ k" ?c] h(2) by simp_all
  then have "p \<noteq> NULL" "unat p + unat n \<le> unat (heap_current h)" using h(3,4) by auto
  then show ?thesis using True h(1,5) rb k unat_pow_64 [OF k(1)] by (simp add: mod_eq_0_iff_dvd)
qed

theorem aligned_alloc_correct_witness:
  "\<exists>p w'. aligned_alloc 64 100 demo_heap_machine = Some (p, w') \<and> p \<noteq> NULL \<and> unat p mod 64 = 0"
proof -
  have "\<exists>k < 64. (64 :: u64) = 2 ^ k" by (rule exI [of _ 6]) simp
  then show ?thesis
    using aligned_alloc_correct [of demo_heap_machine 64 100]
    by (auto simp: demo_heap_machine_facts demo_heap_facts split del: if_split)
qed

text \<open>
  C36.  A request above \<open>2 ^ 64 - 8\<close> bytes is rounded to zero: on a heap with eight bytes left
  \<open>malloc\<close> reports success, takes nothing, and the next request is given the same address.
\<close>

theorem malloc_size_wraps:
  assumes "heap_ok (heap w)" and "unat n > 2 ^ 64 - 8"
    and "unat (heap_current (heap w)) + 8 \<le> unat (heap_end (heap w))"
  shows "malloc n w = Some (heap_current (heap w), w) \<and> heap_current (heap w) \<noteq> NULL \<and>
    malloc 8 w = Some (heap_current (heap w), w\<lparr>heap := take_piece 8 (heap w)\<rparr>)"
proof -
  have "piece n = 2 ^ 64" using assms(2) by (intro piece_top) simp
  then have z: "ALIGN_UP n 8 = 0" using unat_ALIGN_UP_8 [of n] by (simp add: unat_eq_zero)
  have "n \<noteq> 0" using assms(2) by auto
  then have "malloc n w = Some (heap_current (heap w), w)"
    using assms(1) z by (auto simp: malloc_def Let_def heap_ok_def)
  then show ?thesis
    using take_piece_room(3) [OF assms(1), of 8 0 w] take_piece_room(4) [OF assms(1), of 8 0] assms(3) by (simp add: round_up_def)
qed

theorem malloc_size_wraps_witness:
  "malloc 0xFFFFFFFFFFFFFFFF demo_heap_machine = Some (0x80400000, demo_heap_machine) \<and>
   (\<exists>w'. malloc 8 demo_heap_machine = Some (0x80400000, w'))"
  using malloc_size_wraps [of demo_heap_machine "0xFFFFFFFFFFFFFFFF"]
  by (auto simp: demo_heap_machine_facts demo_heap_facts)

text \<open>
  C37.  After \<open>mem_init\<close> the heap is well-formed: it starts at the first page boundary at or after
  both \<^verbatim>\<open>_heap_start\<close> and 4 MiB into memory, ends 32 MiB before the end of memory,
  is empty, and its bounds have been reported on the console.
\<close>

theorem mem_init_establishes:
  assumes "uart_live w" and "unat heap_sym \<le> 0x8DFFF000"
  shows "\<exists>w'. mem_init heap_sym w = Some w' \<and> heap_ok (heap w') \<and>
    unat (heap_start (heap w')) = round_up (max (unat heap_sym) 0x80400000) 4096 \<and>
    unat (heap_end (heap w')) = 0x8E000000 \<and> mem_get_allocated_size w' = 0 \<and>
    uart_io 0 (mem_init_text (heap w') (uart_ty w)) (w\<lparr>heap := heap w'\<rparr>) w'"
proof -
  obtain w' where "mem_init heap_sym w = Some w'" "heap w' = mem_init_heap heap_sym"
    "uart_io 0 (mem_init_text (mem_init_heap heap_sym) (uart_ty w)) (w\<lparr>heap := mem_init_heap heap_sym\<rparr>) w'"
    using mem_init_outputs [OF assms(1)] by blast
  then show ?thesis
    using mem_init_heap_ok [OF assms(2)] by (simp add: mem_get_allocated_size_def mem_init_heap_def Let_def)
qed

theorem mem_init_establishes_witness:
  "\<exists>w'. mem_init 0x80210000 demo_heap_machine = Some w' \<and> unat (heap_end (heap w')) = 0x8E000000"
  using mem_init_establishes [of demo_heap_machine "0x80210000"] by (auto simp: demo_heap_machine_facts)

text \<open>
  C38.  With 1232 bytes free, the self test \<open>mem_test\<close> passes: all three allocations succeed, the
  \<open>calloc\<close> block reads back as zero, the aligned block is aligned, and the console
  shows exactly the success messages and the statistics of the resulting heap.
\<close>

theorem mem_test_passes:
  fixes w :: "'a heap_machine_scheme"
  assumes "uart_live w" and "heap_ok (heap w)"
    and "unat (heap_current (heap w)) + 1232 \<le> unat (heap_end (heap w))"
  shows "let p = heap_current (heap w); h' = take_piece 163 (take_piece 40 (take_piece 1024 (heap w)));
             m' = (\<lambda>a. if a - (p + 1024) < 40 then 0 else ram w a)
    in \<exists>w'. mem_test w = Some w' \<and>
      uart_io 0 (mem_test_text p (p + 1024) (ALIGN_UP (p + 1064) 64) h' (uart_ty w))
        (w\<lparr>heap := h', ram := m'\<rparr>) w'"
  unfolding Let_def
  by (rule runsE [OF mem_test_free_heap [OF assms(2,3)] assms(1)]) blast

theorem mem_test_passes_witness: "\<exists>w'. mem_test demo_heap_machine = Some w'"
  using mem_test_passes [of demo_heap_machine]
  by (auto simp: demo_heap_machine_facts demo_heap_facts Let_def)

end
