(* ===== verification/CString.thy ===== *)
theory CString
  imports TestosPrelude
begin

text \<open>
  The string library \<^verbatim>\<open>src/lib/string.c\<close>, complete: memory operations, string operations,
  number conversion and \<open>simple_sprintf\<close>.  Functions that write take the memory and return it
  updated, addresses wrap at 64 bits; \<open>strlen\<close>, \<open>strcmp\<close> and \<open>strncmp\<close>, which the kernel also
  applies to literals and local arrays, read through character pointers.  A loop that ends only
  if there is a NUL is a partial function: \<open>None\<close> means that it does not return.
\<close>

section \<open>Memory operations\<close>

text \<open>The counting loops \<^verbatim>\<open>while (n--)\<close>; a test of \<open>n\<close> before each round.\<close>

function memset_loop :: "u64 \<Rightarrow> u8 \<Rightarrow> u64 \<Rightarrow> ram \<Rightarrow> ram" where
  "memset_loop p c n m = (if n \<noteq> 0 then memset_loop (p + 1) c (n - 1) (m(p := c)) else m)"
  by pat_completeness auto
termination
  by (relation "measure (\<lambda>(p, c, n, m). unat n)") (simp_all add: unat_pred_less)

definition memset :: "u64 \<Rightarrow> int \<Rightarrow> u64 \<Rightarrow> ram \<Rightarrow> u64 \<times> ram" where
  "memset s c n m = (s, memset_loop s (word_of_int c) n m)"

function copy_forward :: "u64 \<Rightarrow> u64 \<Rightarrow> u64 \<Rightarrow> ram \<Rightarrow> ram" where
  "copy_forward d s n m =
     (if n \<noteq> 0 then copy_forward (d + 1) (s + 1) (n - 1) (m(d := m s)) else m)"
  by pat_completeness auto
termination
  by (relation "measure (\<lambda>(d, s, n, m). unat n)") (simp_all add: unat_pred_less)

definition memcpy :: "u64 \<Rightarrow> u64 \<Rightarrow> u64 \<Rightarrow> ram \<Rightarrow> u64 \<times> ram" where
  "memcpy dst src n m = (dst, copy_forward dst src n m)"

text \<open>\<^verbatim>\<open>while (n--) *--d = *--s;\<close>\<close>

function copy_backward :: "u64 \<Rightarrow> u64 \<Rightarrow> u64 \<Rightarrow> ram \<Rightarrow> ram" where
  "copy_backward d s n m =
     (if n \<noteq> 0 then copy_backward (d - 1) (s - 1) (n - 1) (m(d - 1 := m (s - 1))) else m)"
  by pat_completeness auto
termination
  by (relation "measure (\<lambda>(d, s, n, m). unat n)") (simp_all add: unat_pred_less)

definition memmove :: "u64 \<Rightarrow> u64 \<Rightarrow> u64 \<Rightarrow> ram \<Rightarrow> u64 \<times> ram" where
  "memmove dst src n m =
     (dst, if dst < src then copy_forward dst src n m
           else copy_backward (dst + n) (src + n) n m)"

function memcmp :: "u64 \<Rightarrow> u64 \<Rightarrow> u64 \<Rightarrow> ram \<Rightarrow> int" where
  "memcmp p1 p2 n m =
     (if n \<noteq> 0 then
        if m p1 \<noteq> m p2 then uint (m p1) - uint (m p2)
        else memcmp (p1 + 1) (p2 + 1) (n - 1) m
      else 0)"
  by pat_completeness auto
termination
  by (relation "measure (\<lambda>(p1, p2, n, m). unat n)") (simp_all add: unat_pred_less)

text \<open>The result NULL is the address 0.\<close>

function memchr_loop :: "u64 \<Rightarrow> u8 \<Rightarrow> u64 \<Rightarrow> ram \<Rightarrow> u64" where
  "memchr_loop p c n m =
     (if n \<noteq> 0 then if m p = c then p else memchr_loop (p + 1) c (n - 1) m else 0)"
  by pat_completeness auto
termination
  by (relation "measure (\<lambda>(p, c, n, m). unat n)") (simp_all add: unat_pred_less)

definition memchr :: "u64 \<Rightarrow> int \<Rightarrow> u64 \<Rightarrow> ram \<Rightarrow> u64" where
  "memchr s c n m = memchr_loop s (word_of_int c) n m"

declare memset_loop.simps [simp del] copy_forward.simps [simp del] copy_backward.simps [simp del]
  memcmp.simps [simp del] memchr_loop.simps [simp del]

section \<open>String operations\<close>

partial_function (option) strlen_loop :: "cptr \<Rightarrow> u64 \<Rightarrow> u64 option" where
  "strlen_loop s len = (if s len \<noteq> 0 then strlen_loop s (len + 1) else Some len)"

definition strlen :: "cptr \<Rightarrow> u64 option" where
  "strlen s = strlen_loop s 0"

text \<open>
  \<^verbatim>\<open>while ((*dst++ = *src++));\<close>  The source may be memory, then it is read as it is at that
  moment, or a local array: \<open>rd m i\<close> reads its byte \<open>i\<close>.
\<close>

partial_function (option) strcpy_loop :: "(ram \<Rightarrow> u64 \<Rightarrow> u8) \<Rightarrow> u64 \<Rightarrow> u64 \<Rightarrow> ram \<Rightarrow> ram option" where
  "strcpy_loop rd dst i m =
     (let c = rd m i; m = m(dst + i := c) in if c \<noteq> 0 then strcpy_loop rd dst (i + 1) m else Some m)"

definition strcpy :: "u64 \<Rightarrow> u64 \<Rightarrow> ram \<Rightarrow> (u64 \<times> ram) option" where
  "strcpy dst src m = map_option (Pair dst) (strcpy_loop (\<lambda>m i. m (src + i)) dst 0 m)"

definition strcpy_local :: "u64 \<Rightarrow> cptr \<Rightarrow> ram \<Rightarrow> (u64 \<times> ram) option" where
  "strcpy_local dst src m = map_option (Pair dst) (strcpy_loop (\<lambda>m i. src i) dst 0 m)"

function strncpy_loop :: "u64 \<Rightarrow> u64 \<Rightarrow> u64 \<Rightarrow> u64 \<Rightarrow> ram \<Rightarrow> ram" where
  "strncpy_loop dst src n i m =
     (if i < n \<and> m (src + i) \<noteq> 0 then strncpy_loop dst src n (i + 1) (m(dst + i := m (src + i)))
      else zero_bytes dst n i m)"
  by pat_completeness auto
termination
  by (relation "measure (\<lambda>(dst, src, n, i, m). unat (n - i))") (simp_all add: unat_dist_less)

definition strncpy :: "u64 \<Rightarrow> u64 \<Rightarrow> u64 \<Rightarrow> ram \<Rightarrow> u64 \<times> ram" where
  "strncpy dst src n m = (dst, strncpy_loop dst src n 0 m)"

text \<open>Both pointers advance together: \<open>i\<close> is the common offset.\<close>

partial_function (option) strcmp_loop :: "cptr \<Rightarrow> cptr \<Rightarrow> u64 \<Rightarrow> int option" where
  "strcmp_loop s1 s2 i =
     (if s1 i \<noteq> 0 \<and> s1 i = s2 i then strcmp_loop s1 s2 (i + 1)
      else Some (uint (s1 i) - uint (s2 i)))"

definition strcmp :: "cptr \<Rightarrow> cptr \<Rightarrow> int option" where
  "strcmp s1 s2 = strcmp_loop s1 s2 0"

function strncmp_loop :: "cptr \<Rightarrow> cptr \<Rightarrow> u64 \<Rightarrow> u64 \<Rightarrow> int" where
  "strncmp_loop s1 s2 n i =
     (if i < n then
        if s1 i \<noteq> s2 i \<or> s1 i = 0 then uint (s1 i) - uint (s2 i)
        else strncmp_loop s1 s2 n (i + 1)
      else 0)"
  by pat_completeness auto
termination
  by (relation "measure (\<lambda>(s1, s2, n, i). unat (n - i))") (simp_all add: unat_dist_less)

definition strncmp :: "cptr \<Rightarrow> cptr \<Rightarrow> u64 \<Rightarrow> int" where
  "strncmp s1 s2 n = strncmp_loop s1 s2 n 0"

declare strncpy_loop.simps [simp del] strncmp_loop.simps [simp del]

definition strcat :: "u64 \<Rightarrow> u64 \<Rightarrow> ram \<Rightarrow> (u64 \<times> ram) option" where
  "strcat dst src m = do {
     len \<leftarrow> strlen (ram_ptr m dst);
     (_, m) \<leftarrow> strcpy (dst + len) src m;
     Some (dst, m) }"

definition strcat_local :: "u64 \<Rightarrow> cptr \<Rightarrow> ram \<Rightarrow> (u64 \<times> ram) option" where
  "strcat_local dst src m = do {
     len \<leftarrow> strlen (ram_ptr m dst);
     (_, m) \<leftarrow> strcpy_local (dst + len) src m;
     Some (dst, m) }"

text \<open>\<^verbatim>\<open>*s == c\<close> compares the byte with the \<^verbatim>\<open>int\<close> as it is.\<close>

partial_function (option) strchr :: "u64 \<Rightarrow> int \<Rightarrow> ram \<Rightarrow> u64 option" where
  "strchr s c m =
     (if m s \<noteq> 0 then if uint (m s) = c then Some s else strchr (s + 1) c m
      else Some (if c = 0 then s else 0))"

partial_function (option) strstr_loop :: "u64 \<Rightarrow> u64 \<Rightarrow> u64 \<Rightarrow> ram \<Rightarrow> u64 option" where
  "strstr_loop haystack needle len m =
     (if m haystack \<noteq> 0 then
        if strncmp (ram_ptr m haystack) (ram_ptr m needle) len = 0 then Some haystack
        else strstr_loop (haystack + 1) needle len m
      else Some 0)"

definition strstr :: "u64 \<Rightarrow> u64 \<Rightarrow> ram \<Rightarrow> u64 option" where
  "strstr haystack needle m = do {
     needle_len \<leftarrow> strlen (ram_ptr m needle);
     if needle_len = 0 then Some haystack else strstr_loop haystack needle needle_len m }"

declare strlen_loop.simps [code] strcpy_loop.simps [code] strcmp_loop.simps [code] strchr.simps [code]
  strstr_loop.simps [code]

section \<open>Copying\<close>

lemma range_step:
  assumes "n \<noteq> (0 :: u64)"
  shows "x < n \<longleftrightarrow> x = 0 \<or> x - 1 < n - 1"
proof (cases "x = 0")
  case False
  then show ?thesis
    using assms unat_minus_one [of x] unat_minus_one [of n] unat_gt_0 [of x] unat_gt_0 [of n]
    by (auto simp: word_less_nat_alt)
qed (use assms in \<open>simp add: word_gt_0\<close>)

text \<open>
  A forward copy is right unless the destination starts strictly inside the source; a backward
  copy unless the source starts strictly inside the destination.
\<close>

lemma copy_forward_eq:
  assumes "d = s \<or> n \<le> d - s"
  shows "copy_forward d s n m = (\<lambda>a. if a - d < n then m (s + (a - d)) else m a)"
  using assms
proof (induction d s n m rule: copy_forward.induct)
  case (1 d s n m)
  show ?case
  proof (cases "n = 0")
    case False
    have "d + 1 = s + 1 \<or> n - 1 \<le> d + 1 - (s + 1)"
      using "1.prems" False unat_minus_one [of n] by (auto simp: word_le_nat_alt)
    note IH = "1.IH" [OF False this]
    have "copy_forward d s n m = copy_forward (d + 1) (s + 1) (n - 1) (m(d := m s))"
      using False by (subst copy_forward.simps) simp
    also note IH
    also have "(\<lambda>a. if a - (d + 1) < n - 1 then (m(d := m s)) (s + 1 + (a - (d + 1))) else (m(d := m s)) a) =
        (\<lambda>a. if a - d < n then m (s + (a - d)) else m a)"
    proof
      fix a
      have "s + (a - d) \<noteq> d" if "a - d < n" "a \<noteq> d"
      proof
        assume "s + (a - d) = d"
        then have "a - d = d - s" by (metis add_diff_cancel_left')
        then show False using "1.prems" that by auto
      qed
      moreover have e: "a - (d + 1) = a - d - 1" "s + 1 + (a - d - 1) = s + (a - d)"
        by (simp_all add: algebra_simps)
      ultimately have "(if a - d - 1 < n - 1 then (m(d := m s)) (s + (a - d)) else (m(d := m s)) a) =
          (if a - d < n then m (s + (a - d)) else m a)"
        using range_step [OF False, of "a - d"] by (cases "a = d") auto
      then show "(if a - (d + 1) < n - 1 then (m(d := m s)) (s + 1 + (a - (d + 1))) else (m(d := m s)) a) =
          (if a - d < n then m (s + (a - d)) else m a)"
        by (simp only: e)
    qed
    finally show ?thesis .
  qed (simp add: copy_forward.simps [of d s 0])
qed

lemma range_last:
  assumes "n \<noteq> (0 :: u64)"
  shows "x < n \<longleftrightarrow> x = n - 1 \<or> x < n - 1"
proof -
  have "0 < unat n" "unat (n - 1) = unat n - 1"
    using assms unat_minus_one [of n] by (simp_all add: unat_gt_0)
  then show ?thesis unfolding word_less_nat_alt word_unat_eq_iff by linarith
qed

lemma copy_backward_eq:
  assumes "d = s \<or> n \<le> s - d"
  shows "copy_backward (d + n) (s + n) n m = (\<lambda>a. if a - d < n then m (s + (a - d)) else m a)"
  using assms
proof (induction "unat n" arbitrary: n m)
  case 0
  then show ?case by (simp add: copy_backward.simps unat_eq_zero)
next
  case (Suc k)
  then have n: "n \<noteq> 0" by auto
  let ?m = "m(d + (n - 1) := m (s + (n - 1)))"
  have un: "unat (n - 1) = unat n - 1" using unat_minus_one [OF n] .
  have step: "copy_backward (d + n) (s + n) n m = copy_backward (d + (n - 1)) (s + (n - 1)) (n - 1) ?m"
    using n by (subst copy_backward.simps) (simp add: add_diff_eq)
  have "d = s \<or> n - 1 \<le> s - d" using Suc.prems un by (auto simp: word_le_nat_alt)
  moreover have "k = unat (n - 1)" using Suc.hyps(2) un by simp
  ultimately have IH: "copy_backward (d + (n - 1)) (s + (n - 1)) (n - 1) ?m =
      (\<lambda>a. if a - d < n - 1 then ?m (s + (a - d)) else ?m a)"
    by (intro Suc.hyps(1))
  note step
  also note IH
  also have "\<dots> = (\<lambda>a. if a - d < n then m (s + (a - d)) else m a)"
  proof
    fix a
    have "s + (a - d) \<noteq> d + (n - 1)" if x: "a - d < n - 1"
    proof
      assume eq: "s + (a - d) = d + (n - 1)"
      then have sd: "s - d = (n - 1) - (a - d)" by (simp add: algebra_simps)
      have "unat (s - d) = unat n - 1 - unat (a - d)" "unat (a - d) < unat n - 1"
        using x un unat_sub [of "a - d" "n - 1"] unfolding sd by (simp_all add: word_less_nat_alt word_le_nat_alt)
      then have "0 < unat (s - d)" "unat (s - d) < unat n" by linarith+
      then show False using Suc.prems by (auto simp: word_le_nat_alt)
    qed
    moreover have "a = d + (n - 1) \<longleftrightarrow> a - d = n - 1" by (auto simp: algebra_simps)
    ultimately show "(if a - d < n - 1 then ?m (s + (a - d)) else ?m a) =
        (if a - d < n then m (s + (a - d)) else m a)"
      using range_last [OF n, of "a - d"] by auto
  qed
  finally show ?case .
qed

text \<open>The memory after the \<open>n\<close> bytes from \<open>src\<close> have been copied to \<open>dst\<close>.\<close>

definition moved :: "u64 \<Rightarrow> u64 \<Rightarrow> u64 \<Rightarrow> ram \<Rightarrow> ram" where
  "moved dst src n m = (\<lambda>a. if a - dst < n then m (src + (a - dst)) else m a)"

lemma memmove_moved:
  assumes "unat dst + unat n \<le> 2 ^ 64" and "unat src + unat n \<le> 2 ^ 64"
  shows "memmove dst src n m = (dst, moved dst src n m)"
proof (cases "dst < src")
  case True
  then have "unat (dst - src) = 2 ^ 64 + unat dst - unat src"
    by (simp add: unat_sub_if_size word_size word_le_nat_alt word_less_nat_alt not_le)
  then have "n \<le> dst - src" using assms by (simp add: word_le_nat_alt)
  then show ?thesis using True copy_forward_eq [of dst src n m] by (simp add: memmove_def moved_def)
next
  case False
  have "src = dst \<or> n \<le> src - dst"
  proof (cases "src = dst")
    case neq: False
    with False have "src < dst" by simp
    then have "unat (src - dst) = 2 ^ 64 + unat src - unat dst"
      by (simp add: unat_sub_if_size word_size word_le_nat_alt word_less_nat_alt not_le)
    then show ?thesis using assms by (intro disjI2) (simp add: word_le_nat_alt)
  qed simp
  then show ?thesis using False copy_backward_eq [of dst src n m] by (auto simp: memmove_def moved_def)
qed

lemma memcpy_moved:
  assumes "dst = src \<or> n \<le> dst - src"
  shows "memcpy dst src n m = (dst, moved dst src n m)"
  using copy_forward_eq [OF assms] by (simp add: memcpy_def moved_def)

lemma memset_loop_eq: "memset_loop p c n m = (\<lambda>a. if a - p < n then c else m a)"
proof (induction p c n m rule: memset_loop.induct)
  case (1 p c n m)
  show ?case
  proof (cases "n = 0")
    case False
    have "memset_loop p c n m = memset_loop (p + 1) c (n - 1) (m(p := c))"
      using False by (subst memset_loop.simps) simp
    also note "1.IH" [OF False]
    also have "(\<lambda>a. if a - (p + 1) < n - 1 then c else (m(p := c)) a) = (\<lambda>a. if a - p < n then c else m a)"
      using range_step [OF False] by (auto simp: fun_eq_iff diff_diff_eq [symmetric])
    finally show ?thesis .
  qed (simp add: memset_loop.simps [of p c 0])
qed

section \<open>Bytes in memory\<close>

definition bytes_at :: "ram \<Rightarrow> u64 \<Rightarrow> nat \<Rightarrow> u8 list" where
  "bytes_at m p n = map (\<lambda>i. m (p + of_nat i)) [0..<n]"

lemma bytes_at_Suc: "bytes_at m p (Suc n) = m p # bytes_at m (p + 1) n"
  by (simp add: bytes_at_def upt_conv_Cons map_Suc_upt [symmetric] o_def add.assoc del: upt_Suc)

lemma bytes_at_0 [simp]: "bytes_at m p 0 = []"
  by (simp add: bytes_at_def)

lemma length_bytes_at [simp]: "length (bytes_at m p n) = n"
  by (simp add: bytes_at_def)

lemma cstr_bytes: "is_cstr (ram_ptr m p) s \<Longrightarrow> bytes_at m p (length s) = s"
  by (rule nth_equalityI) (auto simp: bytes_at_def dest: is_cstr_nth simp flip: ram_ptr_def [THEN fun_cong])

text \<open>Memory with the string \<open>s\<close> and its NUL at \<open>dst\<close>.\<close>

definition put_str :: "u64 \<Rightarrow> u8 list \<Rightarrow> ram \<Rightarrow> ram" where
  "put_str dst s m = (\<lambda>a. if unat (a - dst) \<le> length s then (s @ [0]) ! unat (a - dst) else m a)"

lemma put_str_cstr:
  assumes "length s < 2 ^ 64" and "0 \<notin> set s"
  shows "is_cstr (ram_ptr (put_str dst s m) dst) s"
  using assms by (auto simp: is_cstr_def ram_ptr_def put_str_def unat_of_nat_64 nth_append)

text \<open>The index of the first occurrence of a byte.\<close>

fun index_of :: "u8 \<Rightarrow> u8 list \<Rightarrow> nat option" where
  "index_of c [] = None"
| "index_of c (x # xs) = (if x = c then Some 0 else map_option Suc (index_of c xs))"

lemma index_of_None: "index_of c xs = None \<longleftrightarrow> c \<notin> set xs"
  by (induction xs) auto

lemma index_of_Some: "index_of c xs = Some i \<longleftrightarrow> i < length xs \<and> xs ! i = c \<and> (\<forall>j < i. xs ! j \<noteq> c)"
proof (induction xs arbitrary: i)
  case (Cons x xs)
  show ?case
    by (cases i) (use Cons.IH in \<open>auto simp: less_Suc_eq_0_disj nth_Cons split: nat.splits\<close>)
qed simp

text \<open>
  The value of a comparison: the difference of the first two bytes that differ, where the
  end of a string counts as 0.
\<close>

fun byte_diff :: "u8 list \<Rightarrow> u8 list \<Rightarrow> int" where
  "byte_diff [] [] = 0"
| "byte_diff (a # s) [] = uint a"
| "byte_diff [] (b # t) = - uint b"
| "byte_diff (a # s) (b # t) = (if a = b then byte_diff s t else uint a - uint b)"

lemma byte_diff_eq: "0 \<notin> set s \<Longrightarrow> 0 \<notin> set t \<Longrightarrow> byte_diff s t = 0 \<longleftrightarrow> s = t"
  by (induction s t rule: byte_diff.induct) (auto simp: word_uint_eq_iff)

lemma byte_diff_same_length: "length s = length t \<Longrightarrow> byte_diff s t = 0 \<longleftrightarrow> s = t"
  by (induction s t rule: byte_diff.induct) (auto simp: word_uint_eq_iff)

lemma byte_diff_less:
  "0 \<notin> set s \<Longrightarrow> 0 \<notin> set t \<Longrightarrow> byte_diff s t < 0 \<longleftrightarrow> (s, t) \<in> lexord {(a, b). a < b}"
proof (induction s t rule: byte_diff.induct)
  case (2 a s)
  then show ?case using uint_ge_0 [of a] by auto
next
  case (3 b t)
  have "0 \<le> uint b" by simp
  moreover have "uint b \<noteq> 0" using 3 by (auto simp: word_uint_eq_iff)
  ultimately have "0 < uint b" by linarith
  then show ?case by simp
qed (auto simp: word_less_def)

lemma byte_diff_swap: "byte_diff t s = - byte_diff s t"
  by (induction s t rule: byte_diff.induct) auto

section \<open>What the string functions compute\<close>

lemma strlen_from:
  assumes "is_cstr v s" and "k \<le> length s"
  shows "strlen_loop v (of_nat k) = Some (of_nat (length s))"
  using assms(2)
proof (induction "length s - k" arbitrary: k)
  case 0
  then show ?case using is_cstr_end [OF assms(1)] by (subst strlen_loop.simps) simp
next
  case (Suc n)
  then have k: "k < length s" by simp
  then have "v (of_nat k) \<noteq> 0" using is_cstr_nth [OF assms(1)] is_cstr_nz [OF assms(1)] by simp
  moreover have "strlen_loop v (of_nat (Suc k)) = Some (of_nat (length s))"
    using Suc k by (intro Suc.hyps(1)) simp_all
  ultimately show ?case by (subst strlen_loop.simps) (simp add: add.commute)
qed

lemma strlen_cstr: "is_cstr v s \<Longrightarrow> strlen v = Some (of_nat (length s))"
  using strlen_from [of v s 0] by (simp add: strlen_def)

text \<open>
  The copying loop, for a source whose byte \<open>i\<close> is not changed by writing the bytes before it.
\<close>

definition copied :: "u64 \<Rightarrow> u8 list \<Rightarrow> nat \<Rightarrow> ram \<Rightarrow> ram" where
  "copied dst s k m = (\<lambda>a. if unat (a - dst) < k then s ! unat (a - dst) else m a)"

lemma copied_0 [simp]: "copied dst s 0 m = m"
  by (simp add: copied_def)

lemma copied_Suc:
  assumes "k < 2 ^ 64"
  shows "(copied dst s k m)(dst + of_nat k := s ! k) = copied dst s (Suc k) m"
proof
  fix a
  have "a = dst + of_nat k \<longleftrightarrow> unat (a - dst) = k"
  proof -
    have "a = dst + of_nat k \<longleftrightarrow> a - dst = of_nat k" by (auto simp: algebra_simps)
    then show ?thesis using assms by (simp add: word_unat_eq_iff unat_of_nat_64)
  qed
  then show "((copied dst s k m)(dst + of_nat k := s ! k)) a = copied dst s (Suc k) m a"
    by (auto simp: copied_def less_Suc_eq)
qed

lemma put_str_copied: "put_str dst s m = copied dst (s @ [0]) (Suc (length s)) m"
  by (simp add: put_str_def copied_def less_Suc_eq_le)

lemma strcpy_loop_from:
  assumes "length s < 2 ^ 64" and "0 \<notin> set s"
    and src: "\<And>i. i \<le> length s \<Longrightarrow> rd (copied dst (s @ [0]) i m) (of_nat i) = (s @ [0]) ! i"
    and "k \<le> length s"
  shows "strcpy_loop rd dst (of_nat k) (copied dst (s @ [0]) k m) = Some (put_str dst s m)"
  using assms(4)
proof (induction "length s - k" arbitrary: k)
  case 0
  then have "k = length s" by simp
  then show ?case
    using src [of k] copied_Suc [of k dst "s @ [0]" m] assms(1)
    by (subst strcpy_loop.simps) (simp add: put_str_copied)
next
  case (Suc n)
  then have k: "k < length s" by simp
  then have nz: "(s @ [0]) ! k \<noteq> 0" using assms(2) nth_mem by (fastforce simp: nth_append)
  have "strcpy_loop rd dst (of_nat (Suc k)) (copied dst (s @ [0]) (Suc k) m) = Some (put_str dst s m)"
    using Suc k by (intro Suc.hyps(1)) simp_all
  moreover have "(copied dst (s @ [0]) k m)(dst + of_nat k := (s @ [0]) ! k) = copied dst (s @ [0]) (Suc k) m"
    using k assms(1) by (intro copied_Suc) simp
  ultimately show ?case
    using src [of k] k nz by (subst strcpy_loop.simps) (simp add: add.commute)
qed

lemma strcpy_local_cstr:
  assumes "is_cstr v s"
  shows "strcpy_local dst v m = Some (dst, put_str dst s m)"
proof -
  have "v (of_nat i) = (s @ [0]) ! i" if "i \<le> length s" for i
    using assms that by (auto simp: is_cstr_def nth_append le_less)
  then show ?thesis
    using strcpy_loop_from [of s "\<lambda>m i. v i" dst m 0] assms by (simp add: strcpy_local_def is_cstr_def)
qed

text \<open>Reading ahead of the copying loop sees the original source.\<close>

lemma copied_src:
  assumes "dst = src \<or> k < unat (dst - src)" and "k < 2 ^ 64"
  shows "copied dst s k m (src + of_nat k) = m (src + of_nat k)"
proof (cases "unat (src + of_nat k - dst) < k")
  case True
  let ?j = "unat (src + of_nat k - dst)"
  have "unat (of_nat k - (src + of_nat k - dst)) = k - ?j"
    using True assms(2) unat_sub [of "src + of_nat k - dst" "of_nat k"]
    by (simp add: word_le_nat_alt unat_of_nat_64)
  then have "unat (dst - src) = k - ?j" by simp
  then have "0 < unat (dst - src)" "unat (dst - src) \<le> k" using True by simp_all
  then show ?thesis using assms(1) by auto
qed (simp add: copied_def)

text \<open>Copying a string in memory: the destination must not start inside the source.\<close>

lemma strcpy_cstr:
  assumes "is_cstr (ram_ptr m src) s" and "dst = src \<or> length s < unat (dst - src)"
  shows "strcpy dst src m = Some (dst, put_str dst s m)"
proof -
  have v: "m (src + of_nat i) = (s @ [0]) ! i" if "i \<le> length s" for i
    using assms(1) that by (auto simp: is_cstr_def nth_append le_less ram_ptr_def)
  have "copied dst (s @ [0]) i m (src + of_nat i) = (s @ [0]) ! i" if i: "i \<le> length s" for i
    using copied_src [of dst src i "s @ [0]" m] assms(2) i is_cstr_len [OF assms(1)] v [OF i] by auto
  then show ?thesis
    using strcpy_loop_from [of s "\<lambda>m i. m (src + i)" dst m 0] assms by (simp add: strcpy_def is_cstr_def)
qed

text \<open>The bytes \<open>strncpy\<close> copies: those before the first NUL, at most \<open>n\<close>.\<close>

definition cut_at :: "ram \<Rightarrow> u64 \<Rightarrow> u64 \<Rightarrow> u8 list" where
  "cut_at m src n = takeWhile (\<lambda>c. c \<noteq> 0) (bytes_at m src (unat n))"

definition padded :: "u64 \<Rightarrow> u8 list \<Rightarrow> u64 \<Rightarrow> ram \<Rightarrow> ram" where
  "padded dst s n m = (\<lambda>a. if a - dst < n then (if unat (a - dst) < length s then s ! unat (a - dst) else 0) else m a)"

lemma zero_bytes_copied:
  assumes "length s \<le> unat n" and "length s < 2 ^ 64"
  shows "zero_bytes dst n (of_nat (length s)) (copied dst s (length s) m) = padded dst s n m"
  unfolding zero_bytes_from using assms
  by (auto simp: fun_eq_iff padded_def copied_def word_le_nat_alt word_less_nat_alt unat_of_nat_64)

lemma strncpy_loop_from:
  fixes dst src n :: u64 and m :: ram
  defines "s \<equiv> cut_at m src n"
  assumes sep: "dst = src \<or> n \<le> dst - src" and "k \<le> length s"
  shows "strncpy_loop dst src n (of_nat k) (copied dst s k m) = padded dst s n m"
  using assms(3)
proof (induction "length s - k" arbitrary: k)
  have len: "length s \<le> unat n"
    by (metis s_def cut_at_def length_takeWhile_le length_bytes_at)
  have n64: "unat n < 2 ^ 64" by (rule unat_less_64)
  have rd: "copied dst s k m (src + of_nat k) = m (src + of_nat k)" if "k < unat n" for k
    using that sep n64 by (intro copied_src) (auto simp: word_le_nat_alt)
  {
    case 0
    then have k: "k = length s" by simp
    show ?case
    proof (cases "k < unat n")
      case True
      have "bytes_at m src (unat n) ! length s = 0"
        using nth_length_takeWhile [of "\<lambda>c. c \<noteq> 0" "bytes_at m src (unat n)"] True k
        by (simp add: s_def cut_at_def)
      then have "m (src + of_nat k) = 0" using True k by (simp add: bytes_at_def)
      then show ?thesis
        using rd [OF True] k zero_bytes_copied [OF len] len n64
        by (subst strncpy_loop.simps) simp
    next
      case False
      then have "\<not> of_nat k < n" using k len by (simp add: word_less_nat_alt unat_of_nat_64 n64)
      then show ?thesis
        using k zero_bytes_copied [OF len] len n64 by (subst strncpy_loop.simps) simp
    qed
  next
    case (Suc j)
    then have k: "k < length s" by simp
    have kn: "k < unat n" using k len by simp
    have "s ! k = bytes_at m src (unat n) ! k"
      unfolding s_def cut_at_def using k by (intro takeWhile_nth) (simp add: s_def cut_at_def)
    then have sk: "s ! k = m (src + of_nat k)" using kn by (simp add: bytes_at_def)
    have nz: "s ! k \<noteq> 0"
      using nth_mem [OF k] unfolding s_def cut_at_def by (auto dest: set_takeWhileD)
    have "of_nat k < n" using kn n64 by (simp add: word_less_nat_alt unat_of_nat_64)
    moreover have "strncpy_loop dst src n (of_nat (Suc k)) (copied dst s (Suc k) m) = padded dst s n m"
      using Suc k by (intro Suc.hyps(1)) simp_all
    moreover have "(copied dst s k m)(dst + of_nat k := s ! k) = copied dst s (Suc k) m"
      using kn n64 by (intro copied_Suc) simp
    ultimately show ?case
      using rd [OF kn] sk nz by (subst strncpy_loop.simps) (simp add: add.commute)
  }
qed

lemma strncpy_padded:
  assumes "dst = src \<or> n \<le> dst - src"
  shows "strncpy dst src n m = (dst, padded dst (cut_at m src n) n m)"
  using strncpy_loop_from [OF assms, of 0] by (simp add: strncpy_def)

lemma strcat_cstr:
  assumes "is_cstr (ram_ptr m dst) t" and "is_cstr (ram_ptr m src) s"
    and "dst + of_nat (length t) = src \<or> length s < unat (dst + of_nat (length t) - src)"
  shows "strcat dst src m = Some (dst, put_str (dst + of_nat (length t)) s m)"
  using strlen_cstr [OF assms(1)] strcpy_cstr [OF assms(2,3)] by (simp add: strcat_def)

lemma strcat_local_cstr:
  assumes "is_cstr (ram_ptr m dst) t" and "is_cstr v s"
  shows "strcat_local dst v m = Some (dst, put_str (dst + of_nat (length t)) s m)"
  using strlen_cstr [OF assms(1)] strcpy_local_cstr [OF assms(2)] by (simp add: strcat_local_def)

lemma strcmp_from:
  assumes "is_cstr v s" and "is_cstr u t" and "take k s = take k t" and "k \<le> length s" and "k \<le> length t"
  shows "strcmp_loop v u (of_nat k) = Some (byte_diff (drop k s) (drop k t))"
  using assms(3-5)
proof (induction "length s - k" arbitrary: k)
  case 0
  then have k: "k = length s" by simp
  have v: "v (of_nat k) = 0" using is_cstr_end [OF assms(1)] k by simp
  show ?case
  proof (cases "k = length t")
    case True
    then have "u (of_nat k) = 0" using is_cstr_end [OF assms(2)] by simp
    then show ?thesis using v k True by (subst strcmp_loop.simps) simp
  next
    case False
    then have "k < length t" using "0.prems" by simp
    then show ?thesis
      using v k is_cstr_nth [OF assms(2), of k]
      by (subst strcmp_loop.simps) (simp flip: Cons_nth_drop_Suc)
  qed
next
  case (Suc n)
  then have k: "k < length s" by simp
  note v = is_cstr_nth [OF assms(1) k] is_cstr_nz [OF assms(1) k]
  show ?case
  proof (cases "k = length t")
    case True
    then have "u (of_nat k) = 0" using is_cstr_end [OF assms(2)] by simp
    then show ?thesis using v k True by (subst strcmp_loop.simps) (simp flip: Cons_nth_drop_Suc)
  next
    case False
    then have kt: "k < length t" using Suc.prems by simp
    note u = is_cstr_nth [OF assms(2) kt]
    show ?thesis
    proof (cases "s ! k = t ! k")
      case True
      have "strcmp_loop v u (of_nat (Suc k)) = Some (byte_diff (drop (Suc k) s) (drop (Suc k) t))"
        using Suc k kt True by (intro Suc.hyps(1)) (simp_all add: take_Suc_conv_app_nth)
      then show ?thesis
        using v u k kt True by (subst strcmp_loop.simps) (simp add: add.commute flip: Cons_nth_drop_Suc)
    next
      case False
      then show ?thesis
        using v u k kt by (subst strcmp_loop.simps) (simp flip: Cons_nth_drop_Suc)
    qed
  qed
qed

lemma strcmp_cstr: "is_cstr v s \<Longrightarrow> is_cstr u t \<Longrightarrow> strcmp v u = Some (byte_diff s t)"
  using strcmp_from [of v s u t 0] by (simp add: strcmp_def)

lemma strncmp_from:
  assumes "is_cstr v s" and "is_cstr u t" and "take k s = take k t" and "k \<le> length s" and "k \<le> length t"
    and "k \<le> unat n"
  shows "strncmp_loop v u n (of_nat k) =
    byte_diff (take (unat n - k) (drop k s)) (take (unat n - k) (drop k t))"
  using assms(3-6)
proof (induction "unat n - k" arbitrary: k)
  case 0
  then have "unat (of_nat k :: u64) = unat n" using is_cstr_len [OF assms(1)] by (simp add: unat_of_nat_64)
  then have "\<not> of_nat k < n" by (simp add: word_less_nat_alt)
  then show ?case using 0 by (subst strncmp_loop.simps) simp
next
  case (Suc j)
  have less: "of_nat k < n" using Suc is_cstr_len [OF assms(1)] by (simp add: word_less_nat_alt unat_of_nat_64)
  have j: "unat n - k = Suc (unat n - Suc k)" using Suc by simp
  consider (both) "k < length s" "k < length t" | (s) "k = length s" | (t) "k = length t" using Suc.prems by linarith
  then show ?case
  proof cases
    case both
    note v = is_cstr_nth [OF assms(1) both(1)] is_cstr_nz [OF assms(1) both(1)]
      and u = is_cstr_nth [OF assms(2) both(2)]
    have d: "take (unat n - k) (drop k xs) = xs ! k # take (unat n - Suc k) (drop (Suc k) xs)"
      if "k < length xs" for xs :: "u8 list"
      unfolding j using that by (simp flip: Cons_nth_drop_Suc)
    show ?thesis
    proof (cases "s ! k = t ! k")
      case True
      have "strncmp_loop v u n (of_nat (Suc k)) =
          byte_diff (take (unat n - Suc k) (drop (Suc k) s)) (take (unat n - Suc k) (drop (Suc k) t))"
        using Suc both True by (intro Suc.hyps(1)) (simp_all add: take_Suc_conv_app_nth)
      then show ?thesis
        using v u True less d both by (subst strncmp_loop.simps) (simp add: add.commute)
    qed (use v u less d both in \<open>subst strncmp_loop.simps; simp\<close>)
  next
    case s
    then have "v (of_nat k) = 0" using is_cstr_end [OF assms(1)] by simp
    then show ?thesis
      using s less j is_cstr_end [OF assms(2)] is_cstr_nth [OF assms(2), of k] Suc.prems(3)
      by (subst strncmp_loop.simps) (cases "k = length t"; simp flip: Cons_nth_drop_Suc)
  next
    case t
    then have "u (of_nat k) = 0" using is_cstr_end [OF assms(2)] by simp
    then show ?thesis
      using t less j is_cstr_end [OF assms(1)] is_cstr_nth [OF assms(1), of k] Suc.prems(2)
      by (subst strncmp_loop.simps) (cases "k = length s"; simp flip: Cons_nth_drop_Suc)
  qed
qed

lemma strncmp_cstr:
  "is_cstr v s \<Longrightarrow> is_cstr u t \<Longrightarrow> strncmp v u n = byte_diff (take (unat n) s) (take (unat n) t)"
  using strncmp_from [of v s u t 0 n] by (simp add: strncmp_def)


lemma memcmp_bytes: "memcmp p q n m = byte_diff (bytes_at m p (unat n)) (bytes_at m q (unat n))"
proof (induction p q n m rule: memcmp.induct)
  case (1 p q n m)
  show ?case
  proof (cases "n = 0")
    case False
    then have "unat n = Suc (unat (n - 1))" using unat_minus_one [of n] by (simp add: unat_gt_0)
    then show ?thesis
      using "1.IH" [OF False] False by (subst memcmp.simps) (auto simp: bytes_at_Suc)
  qed (simp add: memcmp.simps [of p q 0])
qed

lemma memchr_bytes:
  "memchr_loop p c n m = (case index_of c (bytes_at m p (unat n)) of None \<Rightarrow> 0 | Some i \<Rightarrow> p + of_nat i)"
proof (induction p c n m rule: memchr_loop.induct)
  case (1 p c n m)
  show ?case
  proof (cases "n = 0")
    case False
    then have "unat n = Suc (unat (n - 1))" using unat_minus_one [of n] by (simp add: unat_gt_0)
    then show ?thesis
      using "1.IH" [OF False] False
      by (subst memchr_loop.simps) (auto simp: bytes_at_Suc add.assoc split: option.split)
  qed (simp add: memchr_loop.simps [of p c 0])
qed

text \<open>Pointers into a string and its suffixes.\<close>

lemma ram_ptr_shift: "ram_ptr m (p + k) = (\<lambda>i. ram_ptr m p (k + i))"
  by (simp add: ram_ptr_def add.assoc)

lemma cstr_tail: "is_cstr (ram_ptr m p) (c # s) \<Longrightarrow> is_cstr (ram_ptr m (p + 1)) s"
  using is_cstr_shift [of "ram_ptr m p" "c # s" 1] by (simp add: ram_ptr_shift)

lemma cstr_head: "is_cstr (ram_ptr m p) (c # s) \<Longrightarrow> m p = c \<and> c \<noteq> 0"
  using is_cstr_nth [of "ram_ptr m p" "c # s" 0] is_cstr_nz [of "ram_ptr m p" "c # s" 0] by (simp add: ram_ptr_def)

lemma cstr_nil: "is_cstr (ram_ptr m p) [] \<Longrightarrow> m p = 0"
  using is_cstr_end [of "ram_ptr m p" "[]"] by (simp add: ram_ptr_def)

lemma strchr_cstr:
  assumes "is_cstr (ram_ptr m p) s" and "0 < c"
  shows "strchr p c m = Some (if c < 256 then
    (case index_of (word_of_int c) s of None \<Rightarrow> 0 | Some i \<Rightarrow> p + of_nat i) else 0)"
  using assms(1)
proof (induction s arbitrary: p)
  case Nil
  then show ?case using cstr_nil [OF Nil] assms(2) by (subst strchr.simps) simp
next
  case (Cons x s)
  have "uint x = c \<longleftrightarrow> c < 256 \<and> x = word_of_int c"
    using unsigned_less [of x] assms(2) by (auto simp: uint_word_of_int take_bit_eq_mod word_uint_eq_iff)
  then show ?case
    using cstr_head [OF Cons.prems] Cons.IH [OF cstr_tail [OF Cons.prems]]
    by (subst strchr.simps) (auto simp: add.assoc split: option.splits)
qed

lemma strchr_end:
  assumes "is_cstr (ram_ptr m p) s" and "c \<le> 0"
  shows "strchr p c m = Some (if c = 0 then p + of_nat (length s) else 0)"
  using assms(1)
proof (induction s arbitrary: p)
  case Nil
  then show ?case using cstr_nil [OF Nil] by (subst strchr.simps) simp
next
  case (Cons x s)
  have "0 \<le> uint x" "uint x \<noteq> 0" using cstr_head [OF Cons.prems] by (simp_all add: word_uint_eq_iff)
  then have "uint x \<noteq> c" using assms(2) by linarith
  then show ?case
    using cstr_head [OF Cons.prems] Cons.IH [OF cstr_tail [OF Cons.prems]]
    by (subst strchr.simps) (auto simp: add.assoc)
qed

text \<open>The position of the first occurrence of \<open>t\<close> in \<open>s\<close>.\<close>

fun find_sub :: "u8 list \<Rightarrow> u8 list \<Rightarrow> nat option" where
  "find_sub t [] = (if t = [] then Some 0 else None)"
| "find_sub t (x # s) = (if take (length t) (x # s) = t then Some 0 else map_option Suc (find_sub t s))"

lemma find_sub_Some:
  "find_sub t s = Some i \<longleftrightarrow> i \<le> length s \<and> take (length t) (drop i s) = t \<and>
     (\<forall>j < i. take (length t) (drop j s) \<noteq> t)"
proof (induction s arbitrary: i)
  case (Cons x s)
  show ?case
    by (cases i) (use Cons.IH in \<open>auto simp: less_Suc_eq_0_disj\<close>)
qed auto

lemma all_le_Suc: "(\<forall>i \<le> Suc n. P i) \<longleftrightarrow> P 0 \<and> (\<forall>i \<le> n. P (Suc i))"
  by (metis Suc_le_mono le0 not0_implies_Suc)

lemma find_sub_None: "find_sub t s = None \<longleftrightarrow> (\<forall>i \<le> length s. take (length t) (drop i s) \<noteq> t)"
proof (induction s)
  case (Cons x s)
  show ?case using Cons.IH all_le_Suc [of "length s" "\<lambda>i. take (length t) (drop i (x # s)) \<noteq> t"] by simp
qed auto

lemma strstr_loop_cstr:
  assumes "is_cstr (ram_ptr m q) t" and "t \<noteq> []" and "is_cstr (ram_ptr m p) s"
  shows "strstr_loop p q (of_nat (length t)) m =
    Some (case find_sub t s of None \<Rightarrow> 0 | Some i \<Rightarrow> p + of_nat i)"
  using assms(3)
proof (induction s arbitrary: p)
  case Nil
  then show ?case using cstr_nil [OF Nil] assms(2) by (subst strstr_loop.simps) simp
next
  case (Cons x s)
  let ?n = "of_nat (length t) :: u64"
  have n: "unat ?n = length t" using is_cstr_len [OF assms(1)] by (simp add: unat_of_nat_64)
  have nz: "0 \<notin> set (take k (x # s))" "0 \<notin> set t" for k
    using Cons.prems assms(1) by (auto simp: is_cstr_def dest: in_set_takeD)
  have "strncmp (ram_ptr m p) (ram_ptr m q) ?n = 0 \<longleftrightarrow> take (length t) (x # s) = t"
    using strncmp_cstr [OF Cons.prems assms(1), of ?n] byte_diff_eq [OF nz] n by simp
  then show ?case
    using cstr_head [OF Cons.prems] Cons.IH [OF cstr_tail [OF Cons.prems]]
    by (subst strstr_loop.simps) (auto simp: add.assoc split: option.splits)
qed

lemma find_sub_nil: "find_sub [] s = Some 0"
  by (cases s) simp_all

lemma strstr_cstr:
  assumes "is_cstr (ram_ptr m p) s" and "is_cstr (ram_ptr m q) t"
  shows "strstr p q m = Some (case find_sub t s of None \<Rightarrow> 0 | Some i \<Rightarrow> p + of_nat i)"
proof (cases "t = []")
  case True
  then show ?thesis using strlen_cstr [OF assms(2)] by (simp add: strstr_def find_sub_nil)
next
  case False
  then have "(of_nat (length t) :: u64) \<noteq> 0"
    using is_cstr_len [OF assms(2)] by (metis unat_of_nat_64 length_0_conv unat_0)
  then show ?thesis
    using strlen_cstr [OF assms(2)] strstr_loop_cstr [OF assms(2) False assms(1)] by (simp add: strstr_def)
qed

section \<open>Number conversion\<close>

text \<open>\<^verbatim>\<open>atol\<close>: white space, sign, digits; \<open>i\<close> is the offset of \<^verbatim>\<open>str\<close> from its start.\<close>

partial_function (option) atol_skip :: "cptr \<Rightarrow> u64 \<Rightarrow> u64 option" where
  "atol_skip v i = (if v i = ch CHR '' '' \<or> v i = ch CHR 0x09 \<or> v i = ch CHR 0x0A then atol_skip v (i + 1) else Some i)"

partial_function (option) atol_digits :: "cptr \<Rightarrow> u64 \<Rightarrow> int \<Rightarrow> int option" where
  "atol_digits v i result =
     (if v i \<ge> ch CHR ''0'' \<and> v i \<le> ch CHR ''9''
      then atol_digits v (i + 1) (s64 (s64 (result * 10) + (uint (v i) - 48)))
      else Some result)"

definition atol :: "cptr \<Rightarrow> int option" where
  "atol v = do {
     i \<leftarrow> atol_skip v 0;
     let (sign, i) = (if v i = ch CHR ''-'' then (- 1, i + 1) else if v i = ch CHR ''+'' then (1, i + 1) else (1, i));
     result \<leftarrow> atol_digits v i 0;
     Some (s64 (result * sign)) }"

definition atoi :: "cptr \<Rightarrow> int option" where
  "atoi v = map_option s32 (atol v)"

declare atol_skip.simps [code] atol_digits.simps [code]

text \<open>
  The conversions to text fill the caller's array of \<open>cap\<close> bytes and return it with the
  length that \<^verbatim>\<open>*len\<close> receives.
\<close>

definition itoa_decimal :: "nat \<Rightarrow> int \<Rightarrow> (u8 list \<times> int) option" where
  "itoa_decimal cap val = do {
     (p, val) \<leftarrow> (if val < 0 then do { p \<leftarrow> push cap [] (ch CHR ''-''); Some (p, s64 (- val)) }
                   else Some ([], val));
     let start = length p;
     p \<leftarrow> dec_digits_loop cap p val;
     buf \<leftarrow> push cap p 0;
     Some (swap_loop buf start (length p - 1), s32 (int (length p))) }"

function hex_digits_loop :: "nat \<Rightarrow> u8 list \<Rightarrow> u8 list \<Rightarrow> u64 \<Rightarrow> u8 list option" where
  "hex_digits_loop cap digits buf val =
     (if val > 0 then
        (case push cap buf (digits ! unat (val AND 0xF)) of
           None \<Rightarrow> None
         | Some buf' \<Rightarrow> hex_digits_loop cap digits buf' (drop_bit 4 val))
      else Some buf)"
  by pat_completeness auto
termination
  by (relation "measure (\<lambda>(cap, digits, buf, val). cap - length buf)") (auto simp: push_def split: if_splits)

declare hex_digits_loop.simps [simp del]

definition itoa_hex :: "nat \<Rightarrow> u64 \<Rightarrow> bool \<Rightarrow> (u8 list \<times> int) option" where
  "itoa_hex cap val uppercase = do {
     let digits = str (if uppercase then ''0123456789ABCDEF'' else ''0123456789abcdef'');
     p \<leftarrow> push cap [] (ch CHR ''0'');
     p \<leftarrow> push cap p (if uppercase then ch CHR ''X'' else ch CHR ''x'');
     let start = length p;
     p \<leftarrow> (if val = 0 then push cap p (ch CHR ''0'') else hex_digits_loop cap digits p val);
     buf \<leftarrow> push cap p 0;
     Some (swap_loop buf start (length p - 1), s32 (int (length p))) }"

section \<open>Formatted output to memory\<close>

text \<open>
  The format is the byte list of the string before its NUL, the variable arguments are the
  64-bit argument slots; fetching an argument that was not passed is undefined.
\<close>

definition put_conversion :: "(u8 list \<times> int) option \<Rightarrow> u64 \<Rightarrow> ram \<Rightarrow> (u64 \<times> ram) option" where
  "put_conversion conv p m = do {
     (temp, len) \<leftarrow> conv;
     (_, m) \<leftarrow> strcpy_local p (obj temp) m;
     Some (p + word_of_int len, m) }"

fun sprintf_loop :: "u8 list \<Rightarrow> u64 list \<Rightarrow> u64 \<Rightarrow> ram \<Rightarrow> (u64 \<times> ram) option" where
  "sprintf_loop [] args p m = Some (p, m)"
| "sprintf_loop [c] args p m = Some (p + 1, m(p := c))"
| "sprintf_loop (c # d # f) args p m =
     (if c = ch CHR ''%'' then
        if d = ch CHR ''d'' then
          (case args of [] \<Rightarrow> None | a # args \<Rightarrow> do {
             (p, m) \<leftarrow> put_conversion (itoa_decimal 32 (sint (ucast a :: u32))) p m;
             sprintf_loop f args p m })
        else if d = ch CHR ''x'' then
          (case args of [] \<Rightarrow> None | a # args \<Rightarrow> do {
             (p, m) \<leftarrow> put_conversion (itoa_hex 32 (ucast (ucast a :: u32)) False) p m;
             sprintf_loop f args p m })
        else if d = ch CHR ''X'' then
          (case args of [] \<Rightarrow> None | a # args \<Rightarrow> do {
             (p, m) \<leftarrow> put_conversion (itoa_hex 32 (ucast (ucast a :: u32)) True) p m;
             sprintf_loop f args p m })
        else if d = ch CHR ''s'' then
          (case args of [] \<Rightarrow> None | a # args \<Rightarrow> do {
             (_, m) \<leftarrow> strcpy p a m;
             n \<leftarrow> strlen (ram_ptr m a);
             sprintf_loop f args (p + n) m })
        else if d = ch CHR ''c'' then
          (case args of [] \<Rightarrow> None | a # args \<Rightarrow> sprintf_loop f args (p + 1) (m(p := ucast (ucast a :: u32))))
        else if d = ch CHR ''%'' then sprintf_loop f args (p + 1) (m(p := ch CHR ''%''))
        else sprintf_loop f args (p + 2) (m(p := ch CHR ''%'', p + 1 := d))
      else sprintf_loop (d # f) args (p + 1) (m(p := c)))"

definition simple_sprintf :: "u64 \<Rightarrow> u8 list \<Rightarrow> u64 list \<Rightarrow> ram \<Rightarrow> (int \<times> ram) option" where
  "simple_sprintf buf fmt args m = do {
     (p, m) \<leftarrow> sprintf_loop fmt args buf m;
     Some (s32 (sint (p - buf)), m(p := 0)) }"

section \<open>Numbers and their text\<close>

lemma word_of_int_s64 [simp]: "(word_of_int (s64 n) :: u64) = word_of_int n"
  by (simp add: s64_def)

lemma s64_cong: "(word_of_int a :: u64) = word_of_int b \<Longrightarrow> s64 a = s64 b"
  by (simp add: s64_def)

definition dec_value :: "u8 list \<Rightarrow> int" where
  "dec_value ds = foldl (\<lambda>a c. a * 10 + (uint c - 48)) 0 ds"

definition is_digit :: "u8 \<Rightarrow> bool" where
  "is_digit c \<longleftrightarrow> 48 \<le> c \<and> c \<le> 57"

definition is_blank :: "u8 \<Rightarrow> bool" where
  "is_blank c \<longleftrightarrow> c = 32 \<or> c = 9 \<or> c = 10"

lemma atol_skip_from:
  assumes "is_cstr v (ws @ rest)" and "\<forall>c \<in> set ws. is_blank c" and "rest = [] \<or> \<not> is_blank (hd rest)"
    and "k \<le> length ws"
  shows "atol_skip v (of_nat k) = Some (of_nat (length ws))"
  using assms(4)
proof (induction "length ws - k" arbitrary: k)
  case 0
  then have k: "k = length ws" by simp
  have "v (of_nat k) = (if rest = [] then 0 else hd rest)"
    using is_cstr_nth [OF assms(1), of k] is_cstr_end [OF assms(1)] k by (auto simp: nth_append hd_conv_nth)
  then have "\<not> is_blank (v (of_nat k))" using assms(3) by (auto simp: is_blank_def)
  then show ?case using k by (subst atol_skip.simps) (simp add: is_blank_def)
next
  case (Suc n)
  then have k: "k < length ws" by simp
  have "is_blank (v (of_nat k))"
    using is_cstr_nth [OF assms(1), of k] k assms(2) by (simp add: nth_append)
  moreover have "atol_skip v (of_nat (Suc k)) = Some (of_nat (length ws))"
    using Suc k by (intro Suc.hyps(1)) simp_all
  ultimately show ?case by (subst atol_skip.simps) (simp add: is_blank_def add.commute)
qed

lemma atol_digits_from:
  assumes "is_cstr v (pre @ ds @ rest)" and "\<forall>c \<in> set ds. is_digit c" and "rest = [] \<or> \<not> is_digit (hd rest)"
    and "k \<le> length ds"
  shows "atol_digits v (of_nat (length pre + k)) (s64 (dec_value (take k ds))) = Some (s64 (dec_value ds))"
  using assms(4)
proof (induction "length ds - k" arbitrary: k)
  case 0
  then have k: "k = length ds" by simp
  have "v (of_nat (length pre + k)) = (if rest = [] then 0 else hd rest)"
    using is_cstr_nth [OF assms(1), of "length pre + k"] is_cstr_end [OF assms(1)] k
    by (auto simp: nth_append hd_conv_nth)
  then have "\<not> is_digit (v (of_nat (length pre + k)))" using assms(3) by (auto simp: is_digit_def)
  then show ?case using k by (subst atol_digits.simps) (auto simp: is_digit_def)
next
  case (Suc n)
  then have k: "k < length ds" by simp
  have v: "v (of_nat (length pre + k)) = ds ! k"
    using is_cstr_nth [OF assms(1), of "length pre + k"] k by (simp add: nth_append)
  have d: "is_digit (ds ! k)" using assms(2) k by simp
  have "dec_value (take (Suc k) ds) = dec_value (take k ds) * 10 + (uint (ds ! k) - 48)"
    using k by (simp add: dec_value_def take_Suc_conv_app_nth)
  then have "s64 (s64 (s64 (dec_value (take k ds)) * 10) + (uint (ds ! k) - 48)) = s64 (dec_value (take (Suc k) ds))"
    by (intro s64_cong) (simp add: wi_hom_syms)
  moreover have "atol_digits v (of_nat (length pre + Suc k)) (s64 (dec_value (take (Suc k) ds))) = Some (s64 (dec_value ds))"
    using Suc k by (intro Suc.hyps(1)) simp_all
  ultimately show ?case using v d by (subst atol_digits.simps) (simp add: is_digit_def add.commute add.left_commute)
qed

text \<open>
  White space, an optional sign, digits, and something that is not a digit: the result is
  the value modulo \<open>2 ^ 64\<close>, as a signed number.
\<close>

lemma atol_parses:
  assumes "is_cstr v (ws @ sg @ ds @ rest)" and "\<forall>c \<in> set ws. is_blank c" and "\<forall>c \<in> set ds. is_digit c"
    and "sg \<in> {[], [45], [43]}" and "rest = [] \<or> \<not> is_digit (hd rest)"
    and "sg = [] \<Longrightarrow> ds = [] \<Longrightarrow> rest = [] \<or> \<not> is_blank (hd rest) \<and> hd rest \<noteq> 45 \<and> hd rest \<noteq> 43"
  shows "atol v = Some (s64 (if sg = [45] then - dec_value ds else dec_value ds))"
proof -
  let ?rest = "sg @ ds @ rest"
  have digit: "is_digit c \<Longrightarrow> \<not> is_blank c \<and> c \<noteq> 45 \<and> c \<noteq> 43" for c
    by (auto simp: is_digit_def is_blank_def)
  have "?rest = [] \<or> \<not> is_blank (hd ?rest)"
    using assms(3,4,6) digit by (cases sg; cases ds) (auto simp: is_blank_def)
  from atol_skip_from [OF assms(1,2) this, of 0]
  have skip: "atol_skip v 0 = Some (of_nat (length ws))" by simp
  have at: "v (of_nat (length ws)) = (if ?rest = [] then 0 else hd ?rest)"
    using is_cstr_nth [OF assms(1), of "length ws"] is_cstr_end [OF assms(1)]
    by (auto simp: nth_append hd_conv_nth)
  have digits: "atol_digits v (of_nat (length ws) + of_nat (length sg)) 0 = Some (s64 (dec_value ds))"
    using atol_digits_from [of v "ws @ sg" ds rest 0] assms(1,3,5) by (simp add: dec_value_def s64_def)
  consider (none) "sg = []" | (minus) "sg = [45]" | (plus) "sg = [43]" using assms(4) by auto
  then show ?thesis
  proof cases
    case none
    then have "v (of_nat (length ws)) \<noteq> 45 \<and> v (of_nat (length ws)) \<noteq> 43"
      using at assms(3,6) digit by (cases ds; cases rest) auto
    then show ?thesis using none skip digits by (simp add: atol_def s64_def)
  next
    case minus
    have "s64 (s64 (dec_value ds) * - 1) = s64 (- dec_value ds)" by (rule s64_cong) (simp add: wi_hom_syms)
    then show ?thesis using minus skip at digits by (simp add: atol_def)
  next
    case plus
    then show ?thesis using skip at digits by (simp add: atol_def s64_def)
  qed
qed

lemma digit_char_digit: "d < 10 \<Longrightarrow> is_digit (digit_char d) \<and> uint (digit_char d) - 48 = int d"
  using unat_digit_char [of d] by (simp add: is_digit_def word_le_nat_alt uint_nat)

lemma show_nat_digits: "\<forall>c \<in> set (show_nat 10 n). is_digit c"
proof (induction n rule: less_induct)
  case (less n)
  show ?case
    using less.IH [of "n div 10"] digit_char_digit [of n] digit_char_digit [of "n mod 10"]
    by (subst show_nat_step) auto
qed

lemma dec_value_show_nat: "dec_value (show_nat 10 n) = int n"
proof (induction n rule: less_induct)
  case (less n)
  show ?case
  proof (cases "n < 10")
    case True
    then show ?thesis using digit_char_digit [of n] by (subst show_nat_step) (simp_all add: dec_value_def)
  next
    case False
    have "dec_value (show_nat 10 n) = dec_value (show_nat 10 (n div 10)) * 10 + int (n mod 10)"
      using False digit_char_digit [of "n mod 10"] by (subst show_nat_step) (simp_all add: dec_value_def)
    then show ?thesis using less.IH [of "n div 10"] False by (simp add: of_nat_div of_nat_mod)
  qed
qed

lemma atol_show_int:
  assumes "is_cstr v (show_int n)" and "- (2 ^ 63) \<le> n" and "n < 2 ^ 63"
  shows "atol v = Some n"
proof -
  have "atol v = Some (s64 n)"
    using atol_parses [of v "[]" "if n < 0 then [45] else []" "show_nat 10 (nat \<bar>n\<bar>)" "[]"]
      show_nat_digits [of "nat \<bar>n\<bar>"] dec_value_show_nat [of "nat \<bar>n\<bar>"] show_nat_nonempty [of 10 "nat \<bar>n\<bar>"] assms(1)
    by (cases "n < 0") (simp_all add: show_int_def)
  then show ?thesis using assms by (simp add: s64_id)
qed

section \<open>Text of numbers\<close>

lemma itoa_decimal_text:
  assumes "- (2 ^ 63) < val" and "val < 2 ^ 63" and "21 \<le> cap"
  shows "itoa_decimal cap val = Some (show_int val @ [0], int (length (show_int val)))"
proof -
  define n where "n = nat \<bar>val\<bar>"
  let ?pre = "if val < 0 then [45] else [] :: u8 list"
  have sh: "show_int val = ?pre @ show_nat 10 n" by (simp add: show_int_def n_def)
  have len: "length (show_int val) \<le> 20" using length_show_int [of val] assms(1,2) by simp
  have val: "val < 0 \<Longrightarrow> s64 (- val) = int n" "\<not> val < 0 \<Longrightarrow> val = int n"
    using assms(1,2) by (auto simp: n_def s64_id)
  have "dec_digits_loop cap ?pre (int n) = Some (?pre @ rev (show_nat 10 n))"
    using dec_digits_loop_eq [of cap ?pre n] len assms(3) sh by auto
  moreover have "push cap (?pre @ rev (show_nat 10 n)) 0 = Some (?pre @ rev (show_nat 10 n) @ [0])"
    using len assms(3) sh by (simp add: push_def)
  moreover have "swap_loop (?pre @ rev (show_nat 10 n) @ [0]) (length ?pre) (length ?pre + length (rev (show_nat 10 n)) - 1)
      = ?pre @ show_nat 10 n @ [0]"
    using swap_loop_mid [of "rev (show_nat 10 n)" ?pre "[0]"] show_nat_nonempty [of 10 n] by simp
  moreover have "s32 (int (length (show_int val))) = int (length (show_int val))"
    using len by (intro s32_id) simp_all
  ultimately show ?thesis
    using val assms(3) sh by (cases "val < 0") (simp_all add: itoa_decimal_def push_def)
qed

text \<open>Hexadecimal digits, upper case if asked for.\<close>

definition upcase_hex :: "bool \<Rightarrow> u8 \<Rightarrow> u8" where
  "upcase_hex u c = (if u \<and> 97 \<le> c then c - 32 else c)"

definition hex_text :: "bool \<Rightarrow> u64 \<Rightarrow> u8 list" where
  "hex_text u n = str (if u then ''0X'' else ''0x'') @ map (upcase_hex u) (show_nat 16 (unat n))"

lemma hex_digit_table:
  assumes "d < 16"
  shows "str (if u then ''0123456789ABCDEF'' else ''0123456789abcdef'') ! d = upcase_hex u (digit_char d)"
proof -
  have "\<forall>u. \<forall>d < 16. str (if u then ''0123456789ABCDEF'' else ''0123456789abcdef'') ! d = upcase_hex u (digit_char d)"
    by code_simp
  then show ?thesis using assms by blast
qed

lemma low_nibble: "unat (v AND 0xF :: u64) = unat v mod 16"
  using nibble [of 0 v] by simp

lemma shift_nibble: "unat (drop_bit 4 v :: u64) = unat v div 16"
  by (simp add: drop_bit_eq_div unat_div)

lemma hex_digits_loop_eq:
  assumes "length buf + length (digits_of 16 (unat val)) \<le> cap"
  shows "hex_digits_loop cap (str (if u then ''0123456789ABCDEF'' else ''0123456789abcdef'')) buf val =
    Some (buf @ map (\<lambda>d. upcase_hex u (digit_char d)) (digits_of 16 (unat val)))"
  using assms
proof (induction "unat val" arbitrary: buf val rule: less_induct)
  case less
  let ?tab = "str (if u then ''0123456789ABCDEF'' else ''0123456789abcdef'')"
  show ?case
  proof (cases "val = 0")
    case True
    then show ?thesis by (simp add: hex_digits_loop.simps)
  next
    case False
    then have pos: "0 < unat val" "val > 0" by (simp_all add: unat_gt_0 word_gt_0)
    have d: "digits_of 16 (unat val) = unat val mod 16 # digits_of 16 (unat (drop_bit 4 val))"
      using pos by (simp add: digits_of_pos shift_nibble)
    have "hex_digits_loop cap ?tab buf val =
        hex_digits_loop cap ?tab (buf @ [upcase_hex u (digit_char (unat val mod 16))]) (drop_bit 4 val)"
      using pos less.prems d hex_digit_table [of "unat val mod 16" u]
      by (subst hex_digits_loop.simps) (simp add: push_Some low_nibble)
    also have "\<dots> = Some ((buf @ [upcase_hex u (digit_char (unat val mod 16))]) @
        map (\<lambda>d. upcase_hex u (digit_char d)) (digits_of 16 (unat (drop_bit 4 val))))"
      using pos less.prems d by (intro less.hyps) (simp_all add: shift_nibble)
    finally show ?thesis by (simp add: d)
  qed
qed

lemma length_hex_text: "length (hex_text u val) \<le> 18"
proof -
  have "unat val < 16 ^ 16" using unat_less_64 [of val] by simp
  from length_show_nat [OF _ this] show ?thesis by (simp add: hex_text_def)
qed

lemma itoa_hex_text:
  assumes "19 \<le> cap"
  shows "itoa_hex cap val u = Some (hex_text u val @ [0], int (length (hex_text u val)))"
proof -
  let ?pre = "str (if u then ''0X'' else ''0x'')"
  let ?ds = "map (upcase_hex u) (show_nat 16 (unat val))"
  have len: "length ?ds \<le> 16" using length_hex_text [of u val] by (cases u) (simp_all add: hex_text_def)
  have ne: "?ds \<noteq> []" using show_nat_nonempty [of 16] by simp
  have digits: "(if val = 0 then push cap ?pre 48
      else hex_digits_loop cap (str (if u then ''0123456789ABCDEF'' else ''0123456789abcdef'')) ?pre val) =
    Some (?pre @ rev ?ds)"
  proof (cases "val = 0")
    case True
    then show ?thesis using assms by (simp add: push_def show_nat_def upcase_hex_def)
  next
    case False
    then have "?ds = rev (map (\<lambda>d. upcase_hex u (digit_char d)) (digits_of 16 (unat val)))"
      by (simp add: show_nat_def unat_eq_zero rev_map)
    then show ?thesis
      using False hex_digits_loop_eq [of ?pre val cap u] len assms by simp
  qed
  have "push cap (?pre @ rev ?ds) 0 = Some (?pre @ rev ?ds @ [0])"
    using len assms by (simp add: push_def)
  moreover have "swap_loop (?pre @ rev ?ds @ [0]) (length ?pre) (length ?pre + length (rev ?ds) - 1) = ?pre @ ?ds @ [0]"
    using swap_loop_mid [of "rev ?ds" ?pre "[0]"] ne by simp
  moreover have "s32 (int (length (hex_text u val))) = int (length (hex_text u val))"
    using length_hex_text [of u val] by (intro s32_id) simp_all
  moreover have "length (hex_text u val) = length (?pre @ rev ?ds)" "?pre @ ?ds = hex_text u val"
    by (simp_all add: hex_text_def)
  moreover have "itoa_hex cap val u = do {
      p \<leftarrow> (if val = 0 then push cap ?pre 48
        else hex_digits_loop cap (str (if u then ''0123456789ABCDEF'' else ''0123456789abcdef'')) ?pre val);
      buf \<leftarrow> push cap p 0;
      Some (swap_loop buf (length ?pre) (length p - 1), s32 (int (length p))) }"
    using assms by (cases u) (simp_all add: itoa_hex_def push_Some)
  ultimately show ?thesis by (simp add: digits del: str_simps)
qed

section \<open>What a format means\<close>

text \<open>
  The text of a format with the argument slots \<open>args\<close>; \<open>strs a\<close> is the string at address \<open>a\<close>.
  \<open>None\<close> if an argument is missing.
\<close>

definition takes_arg :: "u8 \<Rightarrow> bool" where
  "takes_arg d \<longleftrightarrow> d \<in> {ch CHR ''d'', ch CHR ''x'', ch CHR ''X'', ch CHR ''s'', ch CHR ''c''}"

definition arg_text :: "(u64 \<Rightarrow> u8 list) \<Rightarrow> u8 \<Rightarrow> u64 \<Rightarrow> u8 list" where
  "arg_text strs d a =
     (if d = ch CHR ''d'' then show_int (sint (ucast a :: u32))
      else if d = ch CHR ''x'' then hex_text False (ucast (ucast a :: u32))
      else if d = ch CHR ''X'' then hex_text True (ucast (ucast a :: u32))
      else if d = ch CHR ''s'' then strs a
      else [ucast (ucast a :: u32)])"

fun format_text :: "(u64 \<Rightarrow> u8 list) \<Rightarrow> u8 list \<Rightarrow> u64 list \<Rightarrow> u8 list option" where
  "format_text strs [] args = Some []"
| "format_text strs [c] args = Some [c]"
| "format_text strs (c # d # f) args =
     (if c = ch CHR ''%'' then
        if takes_arg d then
          (case args of [] \<Rightarrow> None
           | a # args \<Rightarrow> map_option (append (arg_text strs d a)) (format_text strs f args))
        else map_option (append (if d = ch CHR ''%'' then [d] else [c, d])) (format_text strs f args)
      else map_option (Cons c) (format_text strs (d # f) args))"

text \<open>The addresses a format takes strings from.\<close>

fun format_strs :: "u8 list \<Rightarrow> u64 list \<Rightarrow> u64 set" where
  "format_strs (c # d # f) args =
     (if c = ch CHR ''%'' then
        if takes_arg d then
          (case args of [] \<Rightarrow> {}
           | a # args \<Rightarrow> (if d = ch CHR ''s'' then {a} else {}) \<union> format_strs f args)
        else format_strs f args
      else format_strs (d # f) args)"
| "format_strs f args = {}"

text \<open>
  The progress of the output: the first \<open>k\<close> bytes of \<open>t\<close> are in the buffer, byte \<open>k\<close> may
  hold the NUL of a copied string, the rest of memory is as it was.
\<close>

definition printed :: "u64 \<Rightarrow> u8 list \<Rightarrow> ram \<Rightarrow> nat \<Rightarrow> ram \<Rightarrow> bool" where
  "printed buf t m0 k m \<longleftrightarrow>
     (\<forall>a. (unat (a - buf) < k \<longrightarrow> m a = t ! unat (a - buf)) \<and> (k < unat (a - buf) \<longrightarrow> m a = m0 a))"

lemma offset_sub:
  assumes "k + l < 2 ^ 64"
  shows "unat ((a - buf) - of_nat k :: u64) \<le> l \<longleftrightarrow> k \<le> unat (a - buf) \<and> unat (a - buf) \<le> k + l"
    and "k \<le> unat (a - buf) \<Longrightarrow> unat ((a - buf) - of_nat k :: u64) = unat (a - buf) - k"
proof -
  have k: "unat (of_nat k :: u64) = k" using assms by (simp add: unat_of_nat_64)
  show eq: "k \<le> unat (a - buf) \<Longrightarrow> unat ((a - buf) - of_nat k :: u64) = unat (a - buf) - k"
    using unat_sub [of "of_nat k" "a - buf"] k by (simp add: word_le_nat_alt)
  show "unat ((a - buf) - of_nat k :: u64) \<le> l \<longleftrightarrow> k \<le> unat (a - buf) \<and> unat (a - buf) \<le> k + l"
  proof (cases "k \<le> unat (a - buf)")
    case False
    then have "unat ((a - buf) - of_nat k :: u64) = 2 ^ 64 + unat (a - buf) - k"
      using k by (simp add: unat_sub_if_size word_size word_le_nat_alt)
    then show ?thesis using False assms by simp
  qed (auto simp: eq)
qed

lemma printed_put_str:
  assumes "printed buf t m0 k m" and "take (length s) (drop k t) = s" and "k + length s < 2 ^ 64"
    and "k \<le> length t"
  shows "printed buf t m0 (k + length s) (put_str (buf + of_nat k) s m)"
  unfolding printed_def
proof (intro allI conjI impI)
  fix a
  have sub: "a - (buf + of_nat k) = (a - buf) - of_nat k" by (simp add: diff_diff_eq)
  note off = offset_sub [OF assms(3), of a buf]
  have nth: "t ! (k + i) = s ! i" if "i < length s" for i
    using that assms(2,4) by (metis (no_types, lifting) length_drop length_take min_less_iff_conj nth_drop nth_take)
  {
    assume "unat (a - buf) < k + length s"
    then show "put_str (buf + of_nat k) s m a = t ! unat (a - buf)"
      using assms(1) off nth [of "unat (a - buf) - k"]
      by (cases "unat (a - buf) < k") (auto simp: put_str_def sub printed_def nth_append)
  next
    assume "k + length s < unat (a - buf)"
    then show "put_str (buf + of_nat k) s m a = m0 a"
      using assms(1) off(1) by (auto simp: put_str_def sub printed_def)
  }
qed

lemma printed_char:
  assumes "printed buf t m0 k m" and "k < length t" and "length t < 2 ^ 64"
  shows "printed buf t m0 (Suc k) (m(buf + of_nat k := t ! k))"
proof -
  have "a = buf + of_nat k \<longleftrightarrow> unat (a - buf) = k" for a
  proof -
    have "a = buf + of_nat k \<longleftrightarrow> a - buf = of_nat k" by (auto simp: algebra_simps)
    then show ?thesis using assms(2,3) by (simp add: word_unat_eq_iff unat_of_nat_64)
  qed
  then show ?thesis using assms(1) by (auto simp: printed_def less_Suc_eq)
qed

lemma printed_end:
  assumes "printed buf t m0 (length t) m" and "length t < 2 ^ 64"
  shows "m(buf + of_nat (length t) := 0) = put_str buf t m0"
proof
  fix a
  have "a = buf + of_nat (length t) \<longleftrightarrow> unat (a - buf) = length t"
  proof -
    have "a = buf + of_nat (length t) \<longleftrightarrow> a - buf = of_nat (length t)" by (auto simp: algebra_simps)
    then show ?thesis using assms(2) by (simp add: word_unat_eq_iff unat_of_nat_64)
  qed
  then show "(m(buf + of_nat (length t) := 0)) a = put_str buf t m0 a"
    using assms(1) by (auto simp: printed_def put_str_def nth_append not_le)
qed

lemma put_conversion_text:
  assumes "conv = Some (s @ [0], int (length s))" and "0 \<notin> set s" and "length s < 2 ^ 64"
  shows "put_conversion conv p m = Some (p + of_nat (length s), put_str p s m)"
  using strcpy_local_cstr [OF is_cstr_obj [of s "[]"], of p m] assms by (simp add: put_conversion_def)

lemma hex_text_nz: "0 \<notin> set (hex_text u n)"
proof -
  have "upcase_hex u c \<noteq> 0" if "48 \<le> unat c" for c
  proof
    assume "upcase_hex u c = 0"
    then have "c = 0 \<or> c = 32" "c = 32 \<longrightarrow> 97 \<le> c" by (auto simp: upcase_hex_def split: if_splits)
    then show False using that by auto
  qed
  then have "0 \<notin> set (map (upcase_hex u) (show_nat 16 (unat n)))"
    using show_nat_chars [of 16 _ "unat n"] by fastforce
  then show ?thesis by (cases u) (simp_all add: hex_text_def)
qed

lemma put_hex:
  "put_conversion (itoa_hex 32 n u) p m = Some (p + of_nat (length (hex_text u n)), put_str p (hex_text u n) m)"
  using length_hex_text [of u n] hex_text_nz [of u n] by (intro put_conversion_text itoa_hex_text) simp_all

text \<open>A string argument outside the buffer is not disturbed by the output.\<close>

definition outside :: "u64 \<Rightarrow> nat \<Rightarrow> u64 \<Rightarrow> u8 list \<Rightarrow> bool" where
  "outside buf n a s \<longleftrightarrow> (\<forall>i \<le> length s. n < unat (a + of_nat i - buf))"

lemma printed_cstr:
  assumes "printed buf t m0 k m" and "k \<le> length t" and "is_cstr (ram_ptr m0 a) s" and "outside buf (length t) a s"
  shows "is_cstr (ram_ptr m a) s"
proof -
  have "m (a + of_nat i) = m0 (a + of_nat i)" if "i \<le> length s" for i
    using assms(1,2,4) that by (force simp: printed_def outside_def)
  then show ?thesis using assms(3) by (simp add: is_cstr_def ram_ptr_def)
qed

lemma outside_sep:
  assumes "outside buf n a s" and "k \<le> n" and "n < 2 ^ 64" and "length s < 2 ^ 64"
  shows "length s < unat (buf + of_nat k - a)"
proof (rule ccontr)
  let ?i = "unat (buf + of_nat k - a)"
  assume "\<not> length s < ?i"
  then have "?i \<le> length s" by simp
  then have "n < unat (a + of_nat ?i - buf)" using assms(1) unfolding outside_def by blast
  moreover have "a + of_nat ?i - buf = of_nat k" by simp
  ultimately show False using assms(2,3) by (simp add: unat_of_nat_64)
qed

lemma put_step:
  assumes "printed buf (t1 @ s @ t2) m0 (length t1) m" and "length (t1 @ s @ t2) < 2 ^ 64"
  shows "printed buf (t1 @ s @ t2) m0 (length (t1 @ s)) (put_str (buf + of_nat (length t1)) s m)"
  using printed_put_str [OF assms(1), of s] assms(2) by simp

lemma char_step:
  assumes "printed buf (t1 @ c # t2) m0 (length t1) m" and "length (t1 @ c # t2) < 2 ^ 64"
  shows "printed buf (t1 @ c # t2) m0 (length (t1 @ [c])) (m(buf + of_nat (length t1) := c))"
  using printed_char [OF assms(1)] assms(2) by simp

text \<open>One conversion writes the text of its argument and goes on behind it.\<close>

lemma conversion_step:
  assumes takes: "takes_arg d"
    and pr: "printed buf (t1 @ arg_text strs d a @ t3) m0 (length t1) m"
    and len: "length (t1 @ arg_text strs d a @ t3) < 2 ^ 64"
    and a: "d = ch CHR ''s'' \<Longrightarrow>
      is_cstr (ram_ptr m0 a) (strs a) \<and> outside buf (length (t1 @ arg_text strs d a @ t3)) a (strs a)"
  shows "\<exists>m1. sprintf_loop ((ch CHR ''%'') # d # f) (a # args) (buf + of_nat (length t1)) m =
      sprintf_loop f args (buf + of_nat (length (t1 @ arg_text strs d a))) m1 \<and>
    printed buf (t1 @ arg_text strs d a @ t3) m0 (length (t1 @ arg_text strs d a)) m1"
proof -
  let ?p = "buf + of_nat (length t1)"
  let ?s = "arg_text strs d a"
  let ?loop = "sprintf_loop ((ch CHR ''%'') # d # f) (a # args) ?p m"
  have put: ?thesis if "?loop = sprintf_loop f args (?p + of_nat (length ?s)) (put_str ?p ?s m)"
    using that put_step [OF pr len] by (intro exI [of _ "put_str ?p ?s m"]) (simp add: add.assoc)
  consider (d) "d = ch CHR ''d''" | (x) "d = ch CHR ''x''" | (X) "d = ch CHR ''X''"
    | (s) "d = ch CHR ''s''" | (c) "d = ch CHR ''c''" using takes by (auto simp: takes_arg_def)
  then show ?thesis
  proof cases
    case d
    let ?n = "sint (ucast a :: u32)"
    have n: "- (2 ^ 63) < ?n" "?n < 2 ^ 63" using sint_ge [of "ucast a :: u32"] sint_lt [of "ucast a :: u32"] by simp_all
    have "?s = show_int ?n" using d by (simp add: arg_text_def)
    moreover have "put_conversion (itoa_decimal 32 ?n) ?p m = Some (?p + of_nat (length (show_int ?n)), put_str ?p (show_int ?n) m)"
      using n length_show_int [of ?n] show_int_nz by (intro put_conversion_text itoa_decimal_text) simp_all
    ultimately show ?thesis using d by (intro put) simp
  next
    case x
    then show ?thesis
      using put_hex [of "ucast (ucast a :: u32)" False ?p m] by (intro put) (simp add: arg_text_def)
  next
    case X
    then show ?thesis
      using put_hex [of "ucast (ucast a :: u32)" True ?p m] by (intro put) (simp add: arg_text_def)
  next
    case s
    have s_eq: "?s = strs a" using s by (simp add: arg_text_def)
    note a = a [OF s, THEN conjunct1] a [OF s, THEN conjunct2]
    have "is_cstr (ram_ptr m a) (strs a)"
      using printed_cstr [OF pr _ a] by simp
    moreover have "length (strs a) < unat (?p - a)"
      using outside_sep [OF a(2), of "length t1"] len s_eq by simp
    ultimately have "strcpy ?p a m = Some (?p, put_str ?p (strs a) m)" by (intro strcpy_cstr) simp_all
    moreover have "is_cstr (ram_ptr (put_str ?p (strs a) m) a) (strs a)"
      using printed_cstr [OF put_step [OF pr len] _ a(1)] a(2) s_eq by simp
    ultimately show ?thesis using s s_eq strlen_cstr by (intro put) simp
  next
    case c
    then have s_eq: "?s = [ucast (ucast a :: u32)]" by (simp add: arg_text_def)
    have "?loop = sprintf_loop f args (?p + 1) (m(?p := ucast (ucast a :: u32)))"
      using c by simp
    moreover have "?p + 1 = buf + of_nat (length (t1 @ ?s))" using s_eq by simp
    ultimately show ?thesis
      using pr len char_step [of buf t1 "ucast (ucast a :: u32)" t3 m0 m] by (simp only: s_eq) auto
  qed
qed

lemma literal_step:
  assumes "c \<noteq> ch CHR ''%''" and "printed buf (t1 @ c # t3) m0 (length t1) m" and "length (t1 @ c # t3) < 2 ^ 64"
  shows "\<exists>m1. sprintf_loop (c # d # f) args (buf + of_nat (length t1)) m =
      sprintf_loop (d # f) args (buf + of_nat (length (t1 @ [c]))) m1 \<and>
    printed buf (t1 @ [c] @ t3) m0 (length (t1 @ [c])) m1"
  using char_step [OF assms(2,3)] assms(1)
  by (intro exI [of _ "m(buf + of_nat (length t1) := c)"]) (simp add: add.commute add.left_commute)

text \<open>A \<^verbatim>\<open>%\<close> before anything else: a second \<^verbatim>\<open>%\<close> stands for one, other characters are copied with it.\<close>

abbreviation escaped :: "u8 \<Rightarrow> u8 list" where
  "escaped d \<equiv> if d = ch CHR ''%'' then [d] else [ch CHR ''%'', d]"

lemma escaped_step:
  assumes d: "\<not> takes_arg d"
    and pr: "printed buf (t1 @ escaped d @ t3) m0 (length t1) m" and len: "length (t1 @ escaped d @ t3) < 2 ^ 64"
  shows "\<exists>m1. sprintf_loop ((ch CHR ''%'') # d # f) args (buf + of_nat (length t1)) m =
      sprintf_loop f args (buf + of_nat (length (t1 @ escaped d))) m1 \<and>
    printed buf (t1 @ escaped d @ t3) m0 (length (t1 @ escaped d)) m1"
proof -
  let ?p = "buf + of_nat (length t1)" and ?c = "ch CHR ''%'' :: u8"
  let ?m = "if d = ?c then m(?p := d) else m(?p := ?c, ?p + 1 := d)"
  have "printed buf (t1 @ escaped d @ t3) m0 (length (t1 @ escaped d)) ?m"
    using pr len char_step [of buf t1 d t3 m0 m] char_step [of buf t1 ?c "d # t3" m0 m]
      char_step [of buf "t1 @ [?c]" d t3 m0 "m(?p := ?c)"] by (auto simp: add.commute add.left_commute)
  moreover have "sprintf_loop (?c # d # f) args ?p m = sprintf_loop f args (buf + of_nat (length (t1 @ escaped d))) ?m"
    using d by (auto simp: takes_arg_def add.commute add.left_commute)
  ultimately show ?thesis by blast
qed

lemma sprintf_loop_text:
  assumes "format_text strs f args = Some t2"
    and "length (t1 @ t2) < 2 ^ 64" and "printed buf (t1 @ t2) m0 (length t1) m"
    and "\<forall>a \<in> format_strs f args. is_cstr (ram_ptr m0 a) (strs a) \<and> outside buf (length (t1 @ t2)) a (strs a)"
  shows "\<exists>m'. sprintf_loop f args (buf + of_nat (length t1)) m = Some (buf + of_nat (length (t1 @ t2)), m') \<and>
    printed buf (t1 @ t2) m0 (length (t1 @ t2)) m'"
  using assms
proof (induction strs f args arbitrary: t1 t2 m rule: format_text.induct)
  case (1 strs args)
  then show ?case by auto
next
  case (2 strs c args)
  then show ?case using char_step [of buf t1 c "[]" m0 m] by (auto simp: add.assoc)
next
  case (3 strs c d f args)
  note prems = "3.prems"
  consider (lit) "c \<noteq> ch CHR ''%''" | (esc) "c = ch CHR ''%''" "\<not> takes_arg d" | (arg) "c = ch CHR ''%''" "takes_arg d"
    by blast
  then show ?case
  proof cases
    case lit
    then obtain t3 where t3: "format_text strs (d # f) args = Some t3" "t2 = [c] @ t3" using prems(1) by auto
    obtain m1 where m1: "sprintf_loop (c # d # f) args (buf + of_nat (length t1)) m =
        sprintf_loop (d # f) args (buf + of_nat (length (t1 @ [c]))) m1"
      "printed buf ((t1 @ [c]) @ t3) m0 (length (t1 @ [c])) m1"
      using literal_step [OF lit, of buf t1 t3 m0 m d f args] prems(2,3) t3(2) by auto
    show ?thesis
      unfolding m1(1) t3(2) append_assoc [symmetric]
      using lit t3 prems(2,4) by (intro "3.IH"(3) m1(2)) auto
  next
    case esc
    then obtain t3 where t3: "format_text strs f args = Some t3" "t2 = escaped d @ t3" using prems(1) by auto
    obtain m1 where m1: "sprintf_loop (c # d # f) args (buf + of_nat (length t1)) m =
        sprintf_loop f args (buf + of_nat (length (t1 @ escaped d))) m1"
      "printed buf ((t1 @ escaped d) @ t3) m0 (length (t1 @ escaped d)) m1"
      using escaped_step [OF esc(2), of buf t1 t3 m0 m f args] prems(2,3) t3(2) esc(1) unfolding append_assoc by blast
    show ?thesis
      unfolding m1(1) t3(2) append_assoc [symmetric]
      using esc t3 prems(2,4) by (intro "3.IH"(2) m1(2)) auto
  next
    case arg
    then obtain a args' where args: "args = a # args'" using prems(1) by (cases args) auto
    let ?s = "arg_text strs d a"
    obtain t3 where t3: "format_text strs f args' = Some t3" "t2 = ?s @ t3" using prems(1) arg args by auto
    have "is_cstr (ram_ptr m0 a) (strs a) \<and> outside buf (length (t1 @ ?s @ t3)) a (strs a)" if "d = ch CHR ''s''"
      using prems(4) t3(2) arg args that by (auto simp: takes_arg_def)
    then obtain m1 where m1: "sprintf_loop (c # d # f) args (buf + of_nat (length t1)) m =
        sprintf_loop f args' (buf + of_nat (length (t1 @ ?s))) m1"
      "printed buf ((t1 @ ?s) @ t3) m0 (length (t1 @ ?s)) m1"
      using conversion_step [OF arg(2), of buf t1 strs a t3 m0 m f args'] prems(2,3) t3(2)
      unfolding append_assoc args arg(1) by blast
    show ?thesis
      unfolding m1(1) t3(2) append_assoc [symmetric]
      using arg args t3 prems(2,4) by (intro "3.IH"(1) m1(2)) auto
  qed
qed

lemma simple_sprintf_text:
  assumes "format_text strs fmt args = Some t" and "length t < 2 ^ 31"
    and "\<forall>a \<in> format_strs fmt args. is_cstr (ram_ptr m a) (strs a) \<and> outside buf (length t) a (strs a)"
  shows "simple_sprintf buf fmt args m = Some (int (length t), put_str buf t m)"
proof -
  have "printed buf ([] @ t) m (length []) m" by (simp add: printed_def)
  from sprintf_loop_text [OF assms(1) _ this] assms(2,3) obtain m'
    where m': "sprintf_loop fmt args buf m = Some (buf + of_nat (length t), m')" "printed buf t m (length t) m'"
    by auto
  have l: "sint (of_nat (length t) :: u64) = int (length t)" "s32 (int (length t)) = int (length t)"
    using assms(2) by (auto simp: s32_id signed_of_nat signed_take_bit_int_eq_self)
  show ?thesis using m' printed_end [OF m'(2)] assms(2) l by (simp add: simple_sprintf_def)
qed

section \<open>Properties\<close>

text \<open>A memory with given bytes from an address on, for concrete runs.\<close>

definition ram_with :: "(u64 \<times> u8 list) list \<Rightarrow> ram" where
  "ram_with objs = (\<lambda>a. case find (\<lambda>(p, bs). unat (a - p) < length bs) objs of
     None \<Rightarrow> 0 | Some (p, bs) \<Rightarrow> bs ! unat (a - p))"

text \<open>
  C23.  \<open>memmove\<close> is right for any two objects, however they overlap: afterwards the destination
  holds what the source held before, every other byte is unchanged, and the destination is
  returned.
\<close>

theorem memmove_correct:
  assumes "unat dst + unat n \<le> 2 ^ 64" and "unat src + unat n \<le> 2 ^ 64"
  shows "\<exists>m'. memmove dst src n m = (dst, m') \<and> bytes_at m' dst (unat n) = bytes_at m src (unat n) \<and>
    (\<forall>a. n \<le> a - dst \<longrightarrow> m' a = m a)"
proof -
  have "bytes_at (moved dst src n m) dst (unat n) = bytes_at m src (unat n)"
    using unat_less_64 [of n]
    by (auto simp: bytes_at_def moved_def word_less_nat_alt unat_of_nat_64)
  then show ?thesis
    using memmove_moved [OF assms, of m] by (auto simp: moved_def)
qed

theorem memmove_correct_witness:
  "bytes_at (snd (memmove 102 100 4 (ram_with [(100, [1, 2, 3, 4, 5, 6])]))) 102 4 = [1, 2, 3, 4]"
proof -
  have "bytes_at (ram_with [(100, [1, 2, 3, 4, 5, 6])]) 100 4 = [1, 2, 3, 4]"
    by (simp add: bytes_at_def ram_with_def upt_rec)
  then show ?thesis
    using memmove_correct [of 102 4 100 "ram_with [(100, [1, 2, 3, 4, 5, 6])]"] by auto
qed

text \<open>
  \<open>memcpy\<close> moves the bytes unless the destination starts strictly inside the source.
\<close>

theorem memcpy_correct:
  assumes "dst = src \<or> n \<le> dst - src"
  shows "\<exists>m'. memcpy dst src n m = (dst, m') \<and> bytes_at m' dst (unat n) = bytes_at m src (unat n) \<and>
    (\<forall>a. n \<le> a - dst \<longrightarrow> m' a = m a)"
proof -
  have "bytes_at (moved dst src n m) dst (unat n) = bytes_at m src (unat n)"
    using unat_less_64 [of n]
    by (auto simp: bytes_at_def moved_def word_less_nat_alt unat_of_nat_64)
  then show ?thesis
    using memcpy_moved [OF assms, of m] by (auto simp: moved_def)
qed

theorem memcpy_correct_witness:
  "bytes_at (snd (memcpy 98 100 4 (ram_with [(100, [1, 2, 3, 4])]))) 98 4 = [1, 2, 3, 4]"
proof -
  have "bytes_at (ram_with [(100, [1, 2, 3, 4])]) 100 4 = [1, 2, 3, 4]"
    by (simp add: bytes_at_def ram_with_def upt_rec)
  then show ?thesis
    using memcpy_correct [of 98 100 4 "ram_with [(100, [1, 2, 3, 4])]"] by auto
qed

text \<open>
  C25.  \<open>strcmp\<close> on two strings returns, and the sign of its result is their lexicographic order as
  sequences of unsigned bytes; \<open>strncmp\<close> is the same on the first \<open>n\<close> bytes.  Both change their sign when their arguments are swapped.
\<close>

theorem strcmp_orders:
  assumes "is_cstr v s" and "is_cstr u t"
  shows "(\<exists>r. strcmp v u = Some r \<and> (r = 0 \<longleftrightarrow> s = t) \<and>
      (r < 0 \<longleftrightarrow> (s, t) \<in> lexord {(a, b). a < b}) \<and> strcmp u v = Some (- r)) \<and>
    (strncmp v u n = 0 \<longleftrightarrow> take (unat n) s = take (unat n) t) \<and>
    (strncmp v u n < 0 \<longleftrightarrow> (take (unat n) s, take (unat n) t) \<in> lexord {(a, b). a < b}) \<and>
    strncmp u v n = - strncmp v u n"
proof -
  have nz: "0 \<notin> set s" "0 \<notin> set t" using assms by (auto simp: is_cstr_def)
  then have nzt: "0 \<notin> set (take (unat n) s)" "0 \<notin> set (take (unat n) t)" by (auto dest: in_set_takeD)
  have "strcmp v u = Some (byte_diff s t)" "strcmp u v = Some (- byte_diff s t)"
    using strcmp_cstr [OF assms] strcmp_cstr [OF assms(2,1)] byte_diff_swap [of t s] by simp_all
  moreover have "strncmp v u n = byte_diff (take (unat n) s) (take (unat n) t)"
    "strncmp u v n = - byte_diff (take (unat n) s) (take (unat n) t)"
    using strncmp_cstr [OF assms] strncmp_cstr [OF assms(2,1)] byte_diff_swap [of "take (unat n) t" "take (unat n) s"] by simp_all
  ultimately show ?thesis
    using byte_diff_eq [OF nz] byte_diff_less [OF nz] byte_diff_eq [OF nzt] byte_diff_less [OF nzt] by simp
qed

theorem strcmp_orders_witness:
  "\<exists>r. strcmp (lit ''heap'') (lit ''help'') = Some r \<and> r < 0 \<and> strncmp (lit ''heap'') (lit ''help'') 2 = 0 \<and>
     strncmp (lit ''heap'') (lit ''help'') 3 < 0"
proof -
  have c: "is_cstr (lit ''heap'') (str ''heap'')" "is_cstr (lit ''help'') (str ''help'')"
    by (rule is_cstr_lit; simp)+
  have "(take (unat (3 :: u64)) (str ''heap''), take (unat (3 :: u64)) (str ''help'')) \<in> lexord {(a, b). a < b}" by simp
  then have "strncmp (lit ''heap'') (lit ''help'') 3 < 0" using strcmp_orders [OF c, of 3] by blast
  moreover have "\<exists>r. strcmp (lit ''heap'') (lit ''help'') = Some r \<and> r < 0" "strncmp (lit ''heap'') (lit ''help'') 2 = 0"
    using strcmp_orders [OF c, of 2] by auto
  ultimately show ?thesis by blast
qed

text \<open>
  C26.  \<open>strstr\<close> returns, with the address of the first occurrence of the needle, or NULL if there is
  none.
\<close>

theorem strstr_first:
  assumes "is_cstr (ram_ptr m p) s" and "is_cstr (ram_ptr m q) t"
  shows "\<exists>r. strstr p q m = Some r \<and>
    (case find_sub t s of
       None \<Rightarrow> r = 0 \<and> (\<forall>i \<le> length s. take (length t) (drop i s) \<noteq> t)
     | Some i \<Rightarrow> r = p + of_nat i \<and> i \<le> length s \<and> take (length t) (drop i s) = t \<and>
         (\<forall>j < i. take (length t) (drop j s) \<noteq> t))"
proof (cases "find_sub t s")
  case None
  then show ?thesis using strstr_cstr [OF assms] find_sub_None [of t s] by simp
next
  case (Some i)
  then show ?thesis using strstr_cstr [OF assms] find_sub_Some [of t s i] by simp
qed

theorem strstr_first_witness:
  "strstr 100 200 (ram_with [(100, str ''kernel'' @ [0]), (200, str ''ne'' @ [0])]) = Some 103"
proof -
  let ?m = "ram_with [(100, str ''kernel'' @ [0]), (200, str ''ne'' @ [0])]"
  have c: "is_cstr (ram_ptr ?m 100) (str ''kernel'')" "is_cstr (ram_ptr ?m 200) (str ''ne'')"
    by (auto simp: is_cstr_def ram_ptr_def ram_with_def less_Suc_eq)
  have "find_sub (str ''ne'') (str ''kernel'') = Some 3" by simp
  then show ?thesis using strstr_first [OF c] by auto
qed

text \<open>
  C27.  \<open>strncpy\<close> writes exactly \<open>n\<close> bytes: the source up to its first NUL or \<open>n\<close> bytes of it, and
  zeros after that; a source of \<open>n\<close> bytes or more is left without a NUL.
\<close>

theorem strncpy_pads:
  assumes "dst = src \<or> n \<le> dst - src"
  shows "\<exists>m'. strncpy dst src n m = (dst, m') \<and>
    (let s = takeWhile (\<lambda>c. c \<noteq> 0) (bytes_at m src (unat n))
     in bytes_at m' dst (unat n) = s @ replicate (unat n - length s) 0) \<and>
    (\<forall>a. n \<le> a - dst \<longrightarrow> m' a = m a)"
proof -
  let ?s = "cut_at m src n"
  have "length ?s \<le> unat n" by (metis cut_at_def length_takeWhile_le length_bytes_at)
  then have "bytes_at (padded dst ?s n m) dst (unat n) = ?s @ replicate (unat n - length ?s) 0"
    using unat_less_64 [of n]
    by (intro nth_equalityI) (auto simp: bytes_at_def padded_def word_less_nat_alt unat_of_nat_64 nth_append)
  then show ?thesis
    using strncpy_padded [OF assms, of m] by (auto simp: padded_def Let_def cut_at_def)
qed

theorem strncpy_pads_witness:
  "bytes_at (snd (strncpy 200 100 4 (ram_with [(100, str ''ls'' @ [0, 7])]))) 200 4 = str ''ls'' @ [0, 0]"
proof -
  let ?m = "ram_with [(100, str ''ls'' @ [0, 7])]"
  have "takeWhile (\<lambda>c. c \<noteq> 0) (bytes_at ?m 100 4) = str ''ls''"
    by (simp add: bytes_at_def ram_with_def upt_rec)
  moreover have "replicate 2 (0 :: u8) = [0, 0]" by (simp add: numeral_2_eq_2)
  ultimately show ?thesis
    using strncpy_pads [of 200 100 4 ?m] by (auto simp: Let_def)
qed

text \<open>The most negative value: its negation is itself, and its last digit is taken with the sign.\<close>

lemma itoa_decimal_min: "itoa_decimal 32 (- (2 ^ 63)) = Some (str ''-('' @ [0], 2)"
proof -
  have "(- (2 ^ 63) :: int) smod 10 = - 8" "(- (2 ^ 63) :: int) sdiv 10 = - 922337203685477580"
    by (simp_all add: signed_divide_int_def signed_modulo_int_def)
  moreover have "s64 (2 ^ 63) = - (2 ^ 63)" by (simp add: s64_def)
  ultimately show ?thesis
    by (simp add: itoa_decimal_def push_def dec_digits_loop.simps swap_loop.simps s32_id)
qed

text \<open>
  C24.  \<open>atol\<close> reads the decimal representation of every 64-bit value.  So \<open>itoa_decimal\<close> into an array of 32 bytes and \<open>atol\<close>
  back gives the value again, for every value but the most negative one; that one is written as a minus sign and an opening
  parenthesis, which \<open>atol\<close> reads as 0.
\<close>

theorem itoa_atol_roundtrip:
  assumes "- (2 ^ 63) \<le> val" and "val < 2 ^ 63"
  shows "(\<exists>buf len. itoa_decimal 32 val = Some (buf, len) \<and> strlen (obj buf) = Some (word_of_int len) \<and>
      (if val = - (2 ^ 63) then buf = str ''-('' @ [0] \<and> atol (obj buf) = Some 0 else atol (obj buf) = Some val)) \<and>
    (is_cstr v (show_int val) \<longrightarrow> atol v = Some val)"
proof (cases "val = - (2 ^ 63)")
  case True
  have c: "is_cstr (obj (str ''-('' @ [0])) (str ''-('')" using is_cstr_obj [of "str ''-(''" "[]"] by simp
  have "atol (obj (str ''-('' @ [0])) = Some 0"
    using atol_parses [of "obj (str ''-('' @ [0])" "[]" "[45]" "[]" "[40]"] c by (simp add: is_digit_def dec_value_def s64_def)
  then show ?thesis
    using True itoa_decimal_min strlen_cstr [OF c] atol_show_int [OF _ assms] by auto
next
  case False
  then have lo: "- (2 ^ 63) < val" using assms(1) by simp
  have c: "is_cstr (obj (show_int val @ [0])) (show_int val)"
    using is_cstr_obj [of "show_int val" "[]"] show_int_nz length_show_int [of val] assms by simp
  show ?thesis
    using False itoa_decimal_text [OF lo assms(2), of 32] atol_show_int [OF c] atol_show_int [OF _ assms] strlen_cstr [OF c] assms
    by auto
qed

theorem itoa_atol_roundtrip_witness:
  "(\<exists>buf len. itoa_decimal 32 (- 80) = Some (buf, len) \<and> atol (obj buf) = Some (- 80)) \<and>
   (\<exists>buf len. itoa_decimal 32 (- (2 ^ 63)) = Some (buf, len) \<and> atol (obj buf) = Some 0)"
proof
  show "\<exists>buf len. itoa_decimal 32 (- 80) = Some (buf, len) \<and> atol (obj buf) = Some (- 80)"
    using itoa_atol_roundtrip [of "- 80", THEN conjunct1] by fastforce
  show "\<exists>buf len. itoa_decimal 32 (- (2 ^ 63)) = Some (buf, len) \<and> atol (obj buf) = Some 0"
    using itoa_atol_roundtrip [of "- (2 ^ 63)", THEN conjunct1] by fastforce
qed

text \<open>
  C20.  \<open>simple_sprintf\<close> writes exactly the text its format means, and a NUL, at \<open>buf\<close>, returns the
  length of the text and changes nothing else, provided the arguments are there and
  the strings passed lie outside the output.
\<close>

theorem simple_sprintf_correct:
  assumes "format_text strs fmt args = Some t" and "length t < 2 ^ 31"
    and "\<forall>a \<in> format_strs fmt args. is_cstr (ram_ptr m a) (strs a) \<and> outside buf (length t) a (strs a)"
  shows "simple_sprintf buf fmt args m = Some (int (length t), put_str buf t m)"
  using assms by (rule simple_sprintf_text)

theorem simple_sprintf_correct_witness:
  "simple_sprintf 100 (str ''%d=%x'') [42, 255] (\<lambda>a. 0) = Some (7, put_str 100 (str ''42=0xff'') (\<lambda>a. 0))"
proof -
  have "show_int 42 = str ''42''" "hex_text False 255 = str ''0xff''"
    by (simp_all add: show_int_def hex_text_def show_nat_def digits_of.simps digit_char_def upcase_hex_def)
  then show ?thesis
    using simple_sprintf_correct [of "\<lambda>a. []" "str ''%d=%x''" "[42, 255]" "str ''42=0xff''" "\<lambda>a. 0" 100]
    by (simp add: takes_arg_def arg_text_def)
qed

end
