(* ===== verification/Logger.thy ===== *)
theory Logger
  imports Uart CString
begin

text \<open>
  The logger: \<^verbatim>\<open>src/lib/logger.c\<close>, complete.  A bounded output stream, number and string
  output with padding, the format interpreter \<open>my_vsnprintf\<close> and the logging functions on
  top of it.  Formats are the bytes of the format string before its NUL, variable arguments the
  list of 64-bit argument slots; fetching an argument that was not passed, storing past
  the end of an array and reading outside \<^verbatim>\<open>digits\<close> are undefined (\<open>None\<close>).
\<close>

section \<open>The output stream\<close>

text \<open>
  \<open>written\<close> is what has been stored from the start of the caller's array on; the pointer
  \<^verbatim>\<open>buffer\<close> of the struct is just behind it.  \<open>cap\<close> is the size of the array.
\<close>

record pstream_t =
  written :: "u8 list"
  remain :: int
  added :: int

record strprops_t =
  pad :: u8
  npad :: int
  alternate :: bool

definition BUFSZ :: nat where
  "BUFSZ = 512"

definition digits :: "u8 list" where
  "digits = str ''0123456789abcdef''"

definition addchar :: "nat \<Rightarrow> u8 \<Rightarrow> pstream_t \<Rightarrow> pstream_t option" where
  "addchar cap c p = do {
     p \<leftarrow> (if remain p \<noteq> 0 then do {
             ws \<leftarrow> push cap (written p) c;
             Some (p\<lparr>written := ws, remain := s32 (remain p - 1)\<rparr>) }
           else Some p);
     Some (p\<lparr>added := s32 (added p + 1)\<rparr>) }"

text \<open>The two padding loops send the pad byte as often as \<^verbatim>\<open>npad\<close> is away from 0.\<close>

definition print_str :: "nat \<Rightarrow> pstream_t \<Rightarrow> cptr \<Rightarrow> strprops_t \<Rightarrow> pstream_t option" where
  "print_str cap p s props = do {
     (np, p) \<leftarrow> (if npad props > 0 then do {
                  len \<leftarrow> strlen s;
                  let np = s32 (npad props - uint len);
                  p \<leftarrow> put_all (addchar cap) (replicate (nat np) (pad props)) p;
                  Some (min np 0, p) }
                else Some (npad props, p));
     p \<leftarrow> for_chars (addchar cap) s 0 p;
     if np < 0 then do {
       len \<leftarrow> strlen s;
       let np = s32 (np + uint len);
       put_all (addchar cap) (replicate (nat (- np)) (ch CHR '' '')) p }
     else Some p }"

text \<open>\<^verbatim>\<open>while (n) { *p++ = digits[n % base]; n /= base; }\<close>, signed and unsigned.\<close>

function int_digits :: "nat \<Rightarrow> int \<Rightarrow> u8 list \<Rightarrow> int \<Rightarrow> u8 list option" where
  "int_digits cap base buf n =
     (if n \<noteq> 0 then
        (if 0 \<le> n smod base \<and> n smod base < 16 then
           (case push cap buf (digits ! nat (n smod base)) of
              None \<Rightarrow> None
            | Some buf' \<Rightarrow> int_digits cap base buf' (n sdiv base))
         else None)
      else Some buf)"
  by pat_completeness auto
termination
  by (relation "measure (\<lambda>(cap, base, buf, n). cap - length buf)") (auto simp: push_def split: if_splits)

function unsigned_digits :: "nat \<Rightarrow> u64 \<Rightarrow> u8 list \<Rightarrow> u64 \<Rightarrow> u8 list option" where
  "unsigned_digits cap base buf n =
     (if n \<noteq> 0 then
        (if n mod base < 16 then
           (case push cap buf (digits ! unat (n mod base)) of
              None \<Rightarrow> None
            | Some buf' \<Rightarrow> unsigned_digits cap base buf' (n div base))
         else None)
      else Some buf)"
  by pat_completeness auto
termination
  by (relation "measure (\<lambda>(cap, base, buf, n). cap - length buf)") (auto simp: push_def split: if_splits)

text \<open>\<^verbatim>\<open>for (i = 0; i < n / 2; ++i)\<close>: swap the bytes \<open>i\<close> and \<open>n - 1 - i\<close>.\<close>

function mirror_loop :: "nat \<Rightarrow> nat \<Rightarrow> u8 list \<Rightarrow> u8 list" where
  "mirror_loop n i buf =
     (if i < n div 2 then mirror_loop n (i + 1) (buf[i := buf ! (n - 1 - i), n - 1 - i := buf ! i]) else buf)"
  by pat_completeness auto
termination
  by (relation "measure (\<lambda>(n, i, buf). n div 2 - i)") simp_all

declare int_digits.simps [simp del] unsigned_digits.simps [simp del] mirror_loop.simps [simp del]

text \<open>The local buffers have \<^verbatim>\<open>sizeof(long) * 3 + 2\<close> and \<^verbatim>\<open>+ 3\<close> bytes.\<close>

definition print_int :: "nat \<Rightarrow> pstream_t \<Rightarrow> int \<Rightarrow> int \<Rightarrow> strprops_t \<Rightarrow> pstream_t option" where
  "print_int cap ps n base props = do {
     let (s, n) = (if n < 0 then (True, s64 (- n)) else (False, n));
     p \<leftarrow> int_digits 26 base [] n;
     p \<leftarrow> (if s then push 26 p (ch CHR ''-'') else Some p);
     p \<leftarrow> (if p = [] then push 26 p (ch CHR ''0'') else Some p);
     buf \<leftarrow> push 26 (mirror_loop (length p) 0 p) 0;
     print_str cap ps (obj buf) props }"

definition print_unsigned :: "nat \<Rightarrow> pstream_t \<Rightarrow> u64 \<Rightarrow> u64 \<Rightarrow> strprops_t \<Rightarrow> pstream_t option" where
  "print_unsigned cap ps n base props = do {
     p \<leftarrow> unsigned_digits 27 base [] n;
     (p, ps, props) \<leftarrow>
       (if p = [] then do { p \<leftarrow> push 27 p (ch CHR ''0''); Some (p, ps, props) }
        else if alternate props \<and> base = 16 then
          (if pad props = ch CHR ''0'' then do {
             ps \<leftarrow> addchar cap (ch CHR ''0'') ps;
             ps \<leftarrow> addchar cap (ch CHR ''x'') ps;
             Some (p, ps, if npad props > 0
               then props\<lparr>npad := if s32 (npad props - 2) > 0 then s32 (npad props - 2) else 0\<rparr> else props) }
           else do {
             p \<leftarrow> push 27 p (ch CHR ''x'');
             p \<leftarrow> push 27 p (ch CHR ''0'');
             Some (p, ps, props) })
        else Some (p, ps, props));
     buf \<leftarrow> push 27 (mirror_loop (length p) 0 p) 0;
     print_str cap ps (obj buf) props }"

section \<open>The format interpreter\<close>

fun fmtnum_digits :: "int \<Rightarrow> u8 list \<Rightarrow> int \<times> u8 list" where
  "fmtnum_digits num [] = (num, [])"
| "fmtnum_digits num (c # f) =
     (if ch CHR ''0'' \<le> c \<and> c \<le> ch CHR ''9''
      then fmtnum_digits (s32 (s32 (num * 10) + (uint c - 48))) f else (num, c # f))"

definition fmtnum :: "u8 list \<Rightarrow> int \<times> u8 list" where
  "fmtnum fmt =
     (if fmt \<noteq> [] \<and> hd fmt = ch CHR ''-''
      then (let (num, f) = fmtnum_digits 0 (tl fmt) in (s32 (- num), f))
      else fmtnum_digits 0 fmt)"

lemma fmtnum_digits_length: "length (snd (fmtnum_digits num f)) \<le> length f"
  by (induction num f rule: fmtnum_digits.induct) auto

lemma fmtnum_length: "length (snd (fmtnum f)) \<le> length f"
  using fmtnum_digits_length [of 0 f] fmtnum_digits_length [of 0 "tl f"]
  by (auto simp: fmtnum_def case_prod_unfold Let_def intro: le_trans)

text \<open>A conversion that starts with a digit or a minus sign consumes at least that byte.\<close>

lemma fmtnum_length_less:
  assumes "c = 45 \<or> 48 \<le> c \<and> c \<le> 57"
  shows "length (snd (fmtnum (c # f))) < Suc (length f)"
  using assms fmtnum_digits_length [of 0 f] fmtnum_digits_length [of "s32 (s32 0 + (uint c - 48))" f]
  by (auto simp: fmtnum_def case_prod_unfold Let_def)

definition va_arg :: "u64 list \<Rightarrow> (u64 \<times> u64 list) option" where
  "va_arg va = (case va of [] \<Rightarrow> None | a # va \<Rightarrow> Some (a, va))"

text \<open>Arguments of type \<^verbatim>\<open>int\<close> and \<^verbatim>\<open>unsigned\<close> occupy the low half of their slot.\<close>

definition va_signed :: "nat \<Rightarrow> u64 \<Rightarrow> int" where
  "va_signed nlong a = (if nlong = 0 then sint (ucast a :: u32) else sint a)"

definition va_unsigned :: "nat \<Rightarrow> u64 \<Rightarrow> u64" where
  "va_unsigned nlong a = (if nlong = 0 then ucast (ucast a :: u32) else a)"

text \<open>The \<^verbatim>\<open>switch\<close> after \<^verbatim>\<open>morefmt:\<close>, on what follows the percent sign.\<close>

function morefmt :: "nat \<Rightarrow> ram \<Rightarrow> u8 list \<Rightarrow> strprops_t \<Rightarrow> nat \<Rightarrow> u64 list \<Rightarrow> pstream_t \<Rightarrow>
    (u8 list \<times> u64 list \<times> pstream_t) option" where
  "morefmt cap m fmt props nlong va s =
     (case fmt of
        [] \<Rightarrow> Some ([], va, s)
      | f # fmt' \<Rightarrow>
          if f = ch CHR ''%'' then do { s \<leftarrow> addchar cap (ch CHR ''%'') s; Some (fmt', va, s) }
          else if f = ch CHR ''c'' then do {
            (a, va) \<leftarrow> va_arg va; s \<leftarrow> addchar cap (ucast (ucast a :: u32)) s; Some (fmt', va, s) }
          else if f = ch CHR ''#'' then morefmt cap m fmt' (props\<lparr>alternate := True\<rparr>) nlong va s
          else if f = ch CHR ''0'' then
            morefmt cap m (snd (fmtnum fmt')) (props\<lparr>pad := ch CHR ''0'', npad := fst (fmtnum fmt')\<rparr>) nlong va s
          else if ch CHR ''1'' \<le> f \<and> f \<le> ch CHR ''9'' \<or> f = ch CHR ''-'' then
            morefmt cap m (snd (fmtnum (f # fmt'))) (props\<lparr>npad := fst (fmtnum (f # fmt'))\<rparr>) nlong va s
          else if f = ch CHR ''l'' then morefmt cap m fmt' props (nlong + 1) va s
          else if f = ch CHR ''d'' then do {
            (a, va) \<leftarrow> va_arg va; s \<leftarrow> print_int cap s (va_signed nlong a) 10 props; Some (fmt', va, s) }
          else if f = ch CHR ''u'' then do {
            (a, va) \<leftarrow> va_arg va; s \<leftarrow> print_unsigned cap s (va_unsigned nlong a) 10 props; Some (fmt', va, s) }
          else if f = ch CHR ''x'' then do {
            (a, va) \<leftarrow> va_arg va; s \<leftarrow> print_unsigned cap s (va_unsigned nlong a) 16 props; Some (fmt', va, s) }
          else if f = ch CHR ''p'' then do {
            (a, va) \<leftarrow> va_arg va; s \<leftarrow> print_unsigned cap s a 16 (props\<lparr>alternate := True\<rparr>); Some (fmt', va, s) }
          else if f = ch CHR ''s'' then do {
            (a, va) \<leftarrow> va_arg va; s \<leftarrow> print_str cap s (ram_ptr m a) props; Some (fmt', va, s) }
          else do { s \<leftarrow> addchar cap f s; Some (fmt', va, s) })"
  by pat_completeness auto
termination
  by (relation "measure (\<lambda>(cap, m, fmt, props, nlong, va, s). length fmt)")
    (auto intro: le_less_trans [OF fmtnum_length] fmtnum_length_less simp: word_le_nat_alt)

declare morefmt.simps [simp del]

lemma morefmt_length: "morefmt cap m fmt props nlong va s = Some (fmt', va', s') \<Longrightarrow> length fmt' \<le> length fmt"
proof (induction cap m fmt props nlong va s rule: morefmt.induct)
  case (1 cap m fmt props nlong va s)
  show ?case
  proof (cases fmt)
    case Nil
    then show ?thesis using "1.prems" by (simp add: morefmt.simps)
  next
    case (Cons f f')
    note IH = "1.IH" [OF Cons]
    show ?thesis
      using "1.prems" IH fmtnum_length [of f'] fmtnum_length [of "f # f'"] unfolding Cons
      by (subst (asm) morefmt.simps)
        (auto simp: bind_eq_Some_conv split: if_splits intro: le_SucI le_trans dest: le_trans)
  qed
qed

text \<open>\<^verbatim>\<open>while (*fmt)\<close>: bytes other than the percent sign are copied.\<close>

function vsnprintf_loop :: "nat \<Rightarrow> ram \<Rightarrow> u8 list \<Rightarrow> u64 list \<Rightarrow> pstream_t \<Rightarrow> pstream_t option" where
  "vsnprintf_loop cap m [] va s = Some s"
| "vsnprintf_loop cap m (f # fmt) va s =
     (if f \<noteq> ch CHR ''%'' then do { s \<leftarrow> addchar cap f s; vsnprintf_loop cap m fmt va s }
      else do {
        (fmt, va, s) \<leftarrow> morefmt cap m fmt \<lparr>pad = ch CHR '' '', npad = 0, alternate = False\<rparr> 0 va s;
        vsnprintf_loop cap m fmt va s })"
  by pat_completeness auto
termination
  by (relation "measure (\<lambda>(cap, m, fmt, va, s). length fmt)") (auto dest!: morefmt_length)

text \<open>
  The result is the array from its start to the final NUL, and the number of bytes the
  whole text has.
\<close>

definition my_vsnprintf :: "nat \<Rightarrow> int \<Rightarrow> u8 list \<Rightarrow> u64 list \<Rightarrow> ram \<Rightarrow> (u8 list \<times> int) option" where
  "my_vsnprintf cap sz fmt va m = do {
     s \<leftarrow> vsnprintf_loop cap m fmt va \<lparr>written = [], remain = s32 (sz - 1), added = 0\<rparr>;
     buf \<leftarrow> push cap (written s) 0;
     Some (buf, added s) }"

definition my_snprintf :: "nat \<Rightarrow> int \<Rightarrow> u8 list \<Rightarrow> u64 list \<Rightarrow> ram \<Rightarrow> (u8 list \<times> int) option" where
  "my_snprintf cap sz fmt va m = my_vsnprintf cap sz fmt va m"

definition my_vprintf :: "u8 list \<Rightarrow> u64 list \<Rightarrow> 'a machine_scheme \<Rightarrow> (int \<times> 'a machine_scheme) option" where
  "my_vprintf fmt va w = do {
     (buf, r) \<leftarrow> my_vsnprintf BUFSZ (int BUFSZ) fmt va (ram w);
     w \<leftarrow> uart_puts (obj buf) w;
     Some (r, w) }"

section \<open>Log levels\<close>

datatype log_level_t = LOG_LEVEL_DEBUG | LOG_LEVEL_INFO | LOG_LEVEL_WARN | LOG_LEVEL_ERROR | LOG_LEVEL_NORMAL

text \<open>The levels in the order of the C enumeration; messages from \<open>LOG_LEVEL_INFO\<close> on carry the prefix.\<close>

fun level_rank :: "log_level_t \<Rightarrow> nat" where
  "level_rank LOG_LEVEL_DEBUG = 0"
| "level_rank LOG_LEVEL_INFO = 1"
| "level_rank LOG_LEVEL_WARN = 2"
| "level_rank LOG_LEVEL_ERROR = 3"
| "level_rank LOG_LEVEL_NORMAL = 4"

lemma level_rank_inject: "level_rank a = level_rank b \<longleftrightarrow> a = b"
  by (cases a; cases b) simp_all

instantiation log_level_t :: linorder
begin

definition less_eq_log_level_t :: "log_level_t \<Rightarrow> log_level_t \<Rightarrow> bool" where
  "less_eq_log_level_t a b \<longleftrightarrow> level_rank a \<le> level_rank b"

definition less_log_level_t :: "log_level_t \<Rightarrow> log_level_t \<Rightarrow> bool" where
  "less_log_level_t a b \<longleftrightarrow> level_rank a < level_rank b"

instance
  by standard (auto simp: less_eq_log_level_t_def less_log_level_t_def level_rank_inject)

end

record log_config_t =
  color :: "string option"
  show_prefix :: bool

definition ESC :: char where
  "ESC = CHR 0x1B"

definition ANSI_RED :: string where "ANSI_RED = ESC # ''[31m''"
definition ANSI_YELLOW :: string where "ANSI_YELLOW = ESC # ''[33m''"
definition ANSI_GREEN :: string where "ANSI_GREEN = ESC # ''[32m''"
definition ANSI_BLUE :: string where "ANSI_BLUE = ESC # ''[34m''"
definition ANSI_RESET :: string where "ANSI_RESET = ESC # ''[0m''"

fun log_configs :: "log_level_t \<Rightarrow> log_config_t" where
  "log_configs LOG_LEVEL_DEBUG = \<lparr>color = Some ANSI_BLUE, show_prefix = False\<rparr>"
| "log_configs LOG_LEVEL_INFO = \<lparr>color = Some ANSI_GREEN, show_prefix = True\<rparr>"
| "log_configs LOG_LEVEL_WARN = \<lparr>color = Some ANSI_YELLOW, show_prefix = True\<rparr>"
| "log_configs LOG_LEVEL_ERROR = \<lparr>color = Some ANSI_RED, show_prefix = True\<rparr>"
| "log_configs LOG_LEVEL_NORMAL = \<lparr>color = None, show_prefix = True\<rparr>"

definition logger_output :: "log_level_t \<Rightarrow> u8 list \<Rightarrow> u64 list \<Rightarrow> 'a machine_scheme \<Rightarrow> (int \<times> 'a machine_scheme) option" where
  "logger_output level fmt args w = do {
     (buf, r) \<leftarrow> my_vsnprintf BUFSZ (int BUFSZ) fmt args (ram w);
     let config = log_configs level;
     w \<leftarrow> (case color config of Some c \<Rightarrow> uart_puts (lit c) w | None \<Rightarrow> Some w);
     w \<leftarrow> (if show_prefix config then uart_puts (lit ''[TESTOS] '') w else Some w);
     w \<leftarrow> uart_puts (obj buf) w;
     w \<leftarrow> (case color config of Some c \<Rightarrow> uart_puts (lit ANSI_RESET) w | None \<Rightarrow> Some w);
     Some (r, w) }"

definition logger :: "string \<Rightarrow> u64 list \<Rightarrow> 'a machine_scheme \<Rightarrow> (int \<times> 'a machine_scheme) option" where
  "logger fmt va w = logger_output LOG_LEVEL_NORMAL (str fmt) va w"

definition logger_debug :: "string \<Rightarrow> u64 list \<Rightarrow> 'a machine_scheme \<Rightarrow> (int \<times> 'a machine_scheme) option" where
  "logger_debug fmt va w = logger_output LOG_LEVEL_DEBUG (str fmt) va w"

definition logger_info :: "string \<Rightarrow> u64 list \<Rightarrow> 'a machine_scheme \<Rightarrow> (int \<times> 'a machine_scheme) option" where
  "logger_info fmt va w = logger_output LOG_LEVEL_INFO (str fmt) va w"

definition logger_warn :: "string \<Rightarrow> u64 list \<Rightarrow> 'a machine_scheme \<Rightarrow> (int \<times> 'a machine_scheme) option" where
  "logger_warn fmt va w = logger_output LOG_LEVEL_WARN (str fmt) va w"

definition logger_error :: "string \<Rightarrow> u64 list \<Rightarrow> 'a machine_scheme \<Rightarrow> (int \<times> 'a machine_scheme) option" where
  "logger_error fmt va w = logger_output LOG_LEVEL_ERROR (str fmt) va w"

definition print_hex_logger :: "u64 \<Rightarrow> 'a machine_scheme \<Rightarrow> 'a machine_scheme option" where
  "print_hex_logger val w = map_option snd (logger ''0x%llx'' [val] w)"

text \<open>\<^verbatim>\<open>for (i = 0; i < nums; i += 4)\<close>, four 64-bit words of memory a line.\<close>

partial_function (option) dumpmem_loop :: "u64 \<Rightarrow> int \<Rightarrow> int \<Rightarrow> 'a machine_scheme \<Rightarrow> 'a machine_scheme option" where
  "dumpmem_loop addr nums i w =
     (if i < nums then do {
        let word = (\<lambda>k. if k = 0 \<or> s32 (i + k) < nums then load64 (ram w) (addr + 8 * word_of_int (s32 (i + k))) else 0);
        (_, w) \<leftarrow> logger (''0x%llx, 0x%llx, 0x%llx, 0x%llx'' @ nl) [word 0, word 1, word 2, word 3] w;
        dumpmem_loop addr nums (s32 (i + 4)) w }
      else Some w)"

declare dumpmem_loop.simps [code]

definition dumpmem_as_u64 :: "u64 \<Rightarrow> int \<Rightarrow> 'a machine_scheme \<Rightarrow> 'a machine_scheme option" where
  "dumpmem_as_u64 addr nums w = dumpmem_loop addr nums 0 w"

end
