(* ===== verification/LoggerText.thy ===== *)
theory LoggerText
  imports Logger
begin

text \<open>
  What the logger prints.  A format is parsed once and for all into a list of directives, whose
  text is a plain function of the arguments; the interpreter \<open>vsnprintf_loop\<close> is shown to send
  exactly that text into its bounded stream, and a log call to transmit one line of it.
\<close>

section \<open>The stream as a truncated text\<close>

text \<open>The stream after the text \<open>t\<close> has been sent to a buffer of size \<open>n\<close>.\<close>

definition stream_of :: "nat \<Rightarrow> u8 list \<Rightarrow> pstream_t" where
  "stream_of n t = \<lparr>written = take (n - 1) t, remain = int (n - 1 - length t), added = s32 (int (length t))\<rparr>"

lemma word_of_int_s32 [simp]: "(word_of_int (s32 n) :: u32) = word_of_int n"
  by (simp add: s32_def)

lemma s32_s32_plus: "s32 (s32 a + b) = s32 (a + b)" "s32 (b + s32 a) = s32 (b + a)"
proof -
  have "(word_of_int (s32 a + b) :: u32) = word_of_int (a + b)" by (simp add: wi_hom_syms)
  then show "s32 (s32 a + b) = s32 (a + b)" by (simp add: s32_def)
  then show "s32 (b + s32 a) = s32 (b + a)" by (simp add: add.commute)
qed

lemma s32_range: "- (2 ^ 31) \<le> s32 n" "s32 n < 2 ^ 31"
  using sint_ge [of "word_of_int n :: u32"] sint_lt [of "word_of_int n :: u32"] by (simp_all add: s32_def)

definition fits :: "nat \<Rightarrow> nat \<Rightarrow> bool" where
  "fits n cap \<longleftrightarrow> 0 < n \<and> n \<le> cap \<and> n < 2 ^ 31"

lemma addchar_stream:
  assumes "fits n cap"
  shows "addchar cap c (stream_of n t) = Some (stream_of n (t @ [c]))"
proof (cases "length t < n - 1")
  case True
  have "s32 (int (n - 1 - length t) - 1) = int (n - 1 - length (t @ [c]))"
    using True assms by (subst s32_id) (auto simp: fits_def of_nat_diff)
  moreover have "int (n - 1 - length t) \<noteq> 0" "length t < cap" "take (n - 1) t @ [c] = take (n - 1) (t @ [c])"
    using True assms by (auto simp: fits_def)
  ultimately show ?thesis
    using True by (simp add: addchar_def stream_of_def push_def s32_s32_plus add.commute)
next
  case False
  then show ?thesis
    by (simp add: addchar_def stream_of_def s32_s32_plus add.commute)
qed

lemma put_all_stream:
  "fits n cap \<Longrightarrow> put_all (addchar cap) bs (stream_of n t) = Some (stream_of n (t @ bs))"
  by (induction bs arbitrary: t) (simp_all add: addchar_stream)

text \<open>The padding of a text: left to a positive width, right (with spaces) to a negative one.\<close>

definition pad_text :: "strprops_t \<Rightarrow> u8 list \<Rightarrow> u8 list" where
  "pad_text props s =
     (if npad props > 0 then replicate (nat (npad props) - length s) (pad props) @ s
      else s @ replicate (nat (- npad props) - length s) 32)"

definition props_ok :: "strprops_t \<Rightarrow> bool" where
  "props_ok props \<longleftrightarrow> - (2 ^ 31) \<le> npad props \<and> npad props < 2 ^ 31"

lemma print_str_stream:
  assumes "fits n cap" and "is_cstr v s" and "length s < 2 ^ 31 \<or> npad props = 0" and "props_ok props"
  shows "print_str cap (stream_of n t) v props = Some (stream_of n (t @ pad_text props s))"
proof -
  have len: "strlen v = Some (of_nat (length s))" "uint (of_nat (length s) :: u64) = int (length s)"
    using strlen_cstr [OF assms(2)] is_cstr_len [OF assms(2)] by (simp_all add: uint_nat unat_of_nat_64)
  note put = put_all_stream [OF assms(1)] and str = for_chars_cstr [OF assms(2), of "addchar cap"]
  consider (pos) "npad props > 0" | (zero) "npad props = 0" | (neg) "npad props < 0" by linarith
  then show ?thesis
  proof cases
    case pos
    let ?np = "npad props - int (length s)"
    have np: "s32 ?np = ?np" "nat ?np = nat (npad props) - length s"
      using assms(3,4) pos by (auto simp: props_ok_def s32_id)
    have "s32 (?np + int (length s)) = npad props" using assms(4) pos by (simp add: props_ok_def s32_id)
    then have none: "?np < 0 \<Longrightarrow> nat (- s32 (?np + int (length s))) = 0" using pos by simp
    show ?thesis
      using pos np none len by (auto simp: print_str_def put str pad_text_def min_def not_le)
  next
    case zero
    then show ?thesis by (simp add: print_str_def str put pad_text_def)
  next
    case neg
    have "s32 (npad props + int (length s)) = npad props + int (length s)"
      using assms(3,4) neg by (auto simp: props_ok_def s32_id)
    moreover have "nat (- (npad props + int (length s))) = nat (- npad props) - length s"
      using neg by (simp add: nat_diff_distrib')
    ultimately show ?thesis
      using neg len by (auto simp: print_str_def put str pad_text_def)
  qed
qed

section \<open>Numbers\<close>

lemma digits_nth: "d < 16 \<Longrightarrow> digits ! d = digit_char d"
  using hex_digit_table [of d False] by (simp add: digits_def upcase_hex_def)

lemma mirror_swap: "mirror_loop n i buf = swap_loop buf i (n - 1 - i)"
proof (induction n i buf rule: mirror_loop.induct)
  case (1 n i buf)
  have "i < n div 2 \<longleftrightarrow> i < n - 1 - i" by arith
  then show ?case
    using 1 by (subst mirror_loop.simps, subst swap_loop.simps) (simp add: diff_diff_add)
qed

lemma mirror_rev: "mirror_loop (length xs) 0 xs = rev xs"
  using swap_loop_rev [of xs "[]"] by (cases "xs = []") (simp_all add: mirror_swap swap_loop.simps [of "[]"])

lemma int_digits_eq:
  assumes "length buf + length (digits_of 10 k) \<le> cap"
  shows "int_digits cap 10 buf (int k) = Some (buf @ map digit_char (digits_of 10 k))"
  using assms
proof (induction k arbitrary: buf rule: less_induct)
  case (less k)
  show ?case
  proof (cases "k = 0")
    case True
    then show ?thesis by (simp add: int_digits.simps)
  next
    case False
    have sd: "int k sdiv 10 = int (k div 10)" "int k smod 10 = int (k mod 10)"
      by (simp_all add: signed_divide_int_def signed_modulo_int_def zdiv_int zmod_int sgn_if)
    have d: "digits_of 10 k = k mod 10 # digits_of 10 (k div 10)" using False by (simp add: digits_of_pos)
    have m: "k mod 10 < 16" using pos_mod_bound [of 10 "int k"] mod_less_divisor [of 10 k] by linarith
    have "int_digits cap 10 buf (int k) = int_digits cap 10 (buf @ [digit_char (k mod 10)]) (int (k div 10))"
      using False less.prems digits_nth [of "k mod 10"] m
      by (subst int_digits.simps) (simp add: sd d push_Some)
    also have "\<dots> = Some ((buf @ [digit_char (k mod 10)]) @ map digit_char (digits_of 10 (k div 10)))"
      using False less.prems by (intro less.IH) (simp_all add: d)
    finally show ?thesis by (simp add: d)
  qed
qed

lemma unsigned_digits_eq:
  assumes "2 \<le> unat base" and "unat base \<le> 16" and "length buf + length (digits_of (unat base) (unat k)) \<le> cap"
  shows "unsigned_digits cap base buf k = Some (buf @ map digit_char (digits_of (unat base) (unat k)))"
  using assms(3)
proof (induction "unat k" arbitrary: k buf rule: less_induct)
  case less
  show ?case
  proof (cases "k = 0")
    case True
    then show ?thesis by (simp add: unsigned_digits.simps)
  next
    case False
    then have pos: "0 < unat k" by (simp add: unat_gt_0)
    have dm: "unat (k div base) = unat k div unat base" "unat (k mod base) = unat k mod unat base"
      by (simp_all add: unat_div unat_mod)
    have lt: "unat (k mod base) < 16" "k mod base < 16"
    proof -
      have "unat k mod unat base < unat base" using assms(1) by (intro mod_less_divisor) simp
      then show "unat (k mod base) < 16" unfolding dm using assms(2) by simp
      then show "k mod base < 16" by (simp add: word_less_nat_alt)
    qed
    have d: "digits_of (unat base) (unat k) = unat (k mod base) # digits_of (unat base) (unat (k div base))"
      using pos assms(1) by (simp add: digits_of_pos dm)
    have "unsigned_digits cap base buf k = unsigned_digits cap base (buf @ [digit_char (unat (k mod base))]) (k div base)"
      using False less.prems lt digits_nth [of "unat (k mod base)"]
      by (subst unsigned_digits.simps) (simp add: d push_Some)
    also have "\<dots> = Some ((buf @ [digit_char (unat (k mod base))]) @
        map digit_char (digits_of (unat base) (unat (k div base))))"
      using less.prems pos assms(1) by (intro less.hyps) (simp_all add: d dm)
    finally show ?thesis by (simp add: d)
  qed
qed

lemma print_int_stream:
  assumes "fits n cap" and "props_ok props" and "- (2 ^ 63) < k" and "k < 2 ^ 63"
  shows "print_int cap (stream_of n t) k 10 props = Some (stream_of n (t @ pad_text props (show_int k)))"
proof -
  define a where "a = nat \<bar>k\<bar>"
  have len: "length (show_int k) \<le> 20" using length_show_int [of k] assms(3,4) by simp
  have ds: "length (digits_of 10 a) \<le> 20"
    using length_digits_of [of 10 a 20] assms(3,4) by (simp add: a_def nat_less_iff)
  have dig: "int_digits 26 10 [] (int a) = Some (map digit_char (digits_of 10 a))"
    using int_digits_eq [of "[]" a 26] ds by simp
  have neg: "k < 0 \<Longrightarrow> s64 (- k) = int a" "\<not> k < 0 \<Longrightarrow> k = int a"
    using assms(3,4) by (auto simp: a_def s64_id)
  have nz: "digits_of 10 a = [] \<longleftrightarrow> a = 0" by (simp add: digits_of.simps [of 10 a])
  have "print_int cap (stream_of n t) k 10 props = print_str cap (stream_of n t) (obj (show_int k @ [0])) props"
  proof (cases "k < 0")
    case True
    then have "a \<noteq> 0" "show_int k = 45 # rev (map digit_char (digits_of 10 a))"
      by (simp_all add: a_def show_int_def show_nat_def)
    then show ?thesis
      using True neg dig ds mirror_rev [of "map digit_char (digits_of 10 a) @ [45]"]
      by (simp add: print_int_def push_Some nz)
  next
    case False
    then have "show_int k = show_nat 10 a" by (simp add: a_def show_int_def)
    then show ?thesis
      using False neg dig ds mirror_rev [of "map digit_char (digits_of 10 a)"] mirror_rev [of "[48 :: u8]"]
      by (cases "a = 0") (simp_all add: print_int_def push_Some nz show_nat_def)
  qed
  also have "\<dots> = Some (stream_of n (t @ pad_text props (show_int k)))"
    using is_cstr_obj [of "show_int k" "[]"] show_int_nz len assms(1,2) by (intro print_str_stream) simp_all
  finally show ?thesis .
qed

definition alt_width :: "strprops_t \<Rightarrow> strprops_t" where
  "alt_width props = props\<lparr>npad := if npad props > 0 then max (npad props - 2) 0 else npad props\<rparr>"

definition unsigned_text :: "u64 \<Rightarrow> u64 \<Rightarrow> strprops_t \<Rightarrow> u8 list" where
  "unsigned_text base k props =
     (let t = show_nat (unat base) (unat k)
      in if k \<noteq> 0 \<and> alternate props \<and> base = 16 then
           (if pad props = ch CHR ''0'' then str ''0x'' @ pad_text (alt_width props) t
            else pad_text props (str ''0x'' @ t))
         else pad_text props t)"

lemma length_show_unsigned:
  assumes "base = 10 \<or> base = (16 :: u64)"
  shows "length (show_nat (unat base) (unat (k :: u64))) \<le> 20"
proof -
  have "unat (k :: u64) < 10 ^ 20" "unat k < 16 ^ 20" using unat_less_64 [of k] by simp_all
  then show ?thesis using assms length_show_nat [of 10 "unat k" 20] length_show_nat [of 16 "unat k" 20] by auto
qed

lemma print_str_text:
  assumes "fits n cap" and "props_ok props" and "0 \<notin> set s" and "length s \<le> 26"
  shows "print_str cap (stream_of n t) (obj (s @ [0])) props = Some (stream_of n (t @ pad_text props s))"
  using is_cstr_obj [of s "[]"] assms by (intro print_str_stream) simp_all

lemma print_unsigned_stream:
  assumes fits: "fits n cap" and ok: "props_ok props" and base: "base = 10 \<or> base = 16"
  shows "print_unsigned cap (stream_of n t) k base props = Some (stream_of n (t @ unsigned_text base k props))"
proof -
  let ?t = "show_nat (unat base) (unat k)" and ?ds = "map digit_char (digits_of (unat base) (unat k))"
  have b: "2 \<le> unat base" "unat base \<le> 16" using base by auto
  have len: "length ?t \<le> 20" using base by (rule length_show_unsigned)
  have nz: "0 \<notin> set ?t" using show_nat_nz [of "unat base"] b by simp
  have lend: "length (digits_of (unat base) (unat k)) \<le> 20"
    using len by (cases "k = 0") (simp_all add: show_nat_def unat_eq_zero)
  have dig: "unsigned_digits 27 base [] k = Some ?ds"
    using unsigned_digits_eq [OF b, of "[]" k 27] lend by simp
  have t: "k \<noteq> 0 \<Longrightarrow> ?t = rev ?ds" "k = 0 \<Longrightarrow> ?t = [48]" by (simp_all add: show_nat_def unat_eq_zero)
  have ne: "k = 0 \<longleftrightarrow> ?ds = []" using b by (simp add: digits_of.simps [of "unat base"] unat_eq_zero)
  note out = print_str_text [OF fits]
  consider (zero) "k = 0" | (plain) "k \<noteq> 0" "\<not> (alternate props \<and> base = 16)"
    | (zeropad) "k \<noteq> 0" "alternate props" "base = 16" "pad props = 48"
    | (alt) "k \<noteq> 0" "alternate props" "base = 16" "pad props \<noteq> 48" by auto
  then show ?thesis
  proof cases
    case zero
    then show ?thesis
      using dig ne t(2) mirror_rev [of "[48 :: u8]"] out [OF ok, of "[48]" t]
      by (simp add: print_unsigned_def push_Some unsigned_text_def)
  next
    case plain
    then have "print_unsigned cap (stream_of n t) k base props = print_str cap (stream_of n t) (obj (?t @ [0])) props"
      using dig ne t(1) mirror_rev [of ?ds] lend by (auto simp: print_unsigned_def push_Some)
    then show ?thesis using plain out [OF ok nz, of t] len by (auto simp: unsigned_text_def)
  next
    case zeropad
    have w: "alt_width props = (if npad props > 0
        then props\<lparr>npad := if s32 (npad props - 2) > 0 then s32 (npad props - 2) else 0\<rparr> else props)"
      using ok by (auto simp: alt_width_def props_ok_def s32_id max_def)
    have ok': "props_ok (alt_width props)" using ok by (auto simp: alt_width_def props_ok_def)
    have "print_unsigned cap (stream_of n t) k base props =
        print_str cap (stream_of n (t @ str ''0x'')) (obj (?t @ [0])) (alt_width props)"
      using zeropad dig ne t(1) mirror_rev [of ?ds] lend
      by (simp add: print_unsigned_def push_Some addchar_stream [OF fits] w)
    then show ?thesis using zeropad out [OF ok' nz, of "t @ str ''0x''"] len by (simp add: unsigned_text_def)
  next
    case alt
    have "print_unsigned cap (stream_of n t) k base props =
        print_str cap (stream_of n t) (obj ((str ''0x'' @ ?t) @ [0])) props"
      using alt dig ne t(1) mirror_rev [of "?ds @ [120, 48]"] lend
      by (simp add: print_unsigned_def push_Some)
    then show ?thesis using alt out [OF ok, of "str ''0x'' @ ?t" t] nz len by (simp add: unsigned_text_def)
  qed
qed

section \<open>Formats as lists of directives\<close>

datatype directive =
  Byte u8 | CharArg | IntArg strprops_t nat | UnsignedArg u64 strprops_t nat | StrArg strprops_t

text \<open>What follows a percent sign, and the rest of the format; \<open>None\<close> at the end of the format.\<close>

function parse_directive :: "u8 list \<Rightarrow> strprops_t \<Rightarrow> nat \<Rightarrow> directive option \<times> u8 list" where
  "parse_directive fmt props nlong =
     (case fmt of
        [] \<Rightarrow> (None, [])
      | f # fmt' \<Rightarrow>
          if f = ch CHR ''c'' then (Some CharArg, fmt')
          else if f = ch CHR ''#'' then parse_directive fmt' (props\<lparr>alternate := True\<rparr>) nlong
          else if f = ch CHR ''0'' then
            parse_directive (snd (fmtnum fmt')) (props\<lparr>pad := ch CHR ''0'', npad := fst (fmtnum fmt')\<rparr>) nlong
          else if ch CHR ''1'' \<le> f \<and> f \<le> ch CHR ''9'' \<or> f = ch CHR ''-'' then
            parse_directive (snd (fmtnum (f # fmt'))) (props\<lparr>npad := fst (fmtnum (f # fmt'))\<rparr>) nlong
          else if f = ch CHR ''l'' then parse_directive fmt' props (nlong + 1)
          else if f = ch CHR ''d'' then (Some (IntArg props nlong), fmt')
          else if f = ch CHR ''u'' then (Some (UnsignedArg 10 props nlong), fmt')
          else if f = ch CHR ''x'' then (Some (UnsignedArg 16 props nlong), fmt')
          else if f = ch CHR ''p'' then (Some (UnsignedArg 16 (props\<lparr>alternate := True\<rparr>) 1), fmt')
          else if f = ch CHR ''s'' then (Some (StrArg props), fmt')
          else (Some (Byte f), fmt'))"
  by pat_completeness auto
termination
  by (relation "measure (\<lambda>(fmt, props, nlong). length fmt)")
    (auto intro: le_less_trans [OF fmtnum_length] fmtnum_length_less simp: word_le_nat_alt)

declare parse_directive.simps [simp del]

text \<open>Carrying out one directive.\<close>

fun exec_directive :: "nat \<Rightarrow> ram \<Rightarrow> directive \<Rightarrow> u64 list \<Rightarrow> pstream_t \<Rightarrow> (u64 list \<times> pstream_t) option" where
  "exec_directive cap m (Byte c) va s = map_option (Pair va) (addchar cap c s)"
| "exec_directive cap m CharArg va s =
     do { (a, va) \<leftarrow> va_arg va; map_option (Pair va) (addchar cap (ucast (ucast a :: u32)) s) }"
| "exec_directive cap m (IntArg props nlong) va s =
     do { (a, va) \<leftarrow> va_arg va; map_option (Pair va) (print_int cap s (va_signed nlong a) 10 props) }"
| "exec_directive cap m (UnsignedArg base props nlong) va s =
     do { (a, va) \<leftarrow> va_arg va; map_option (Pair va) (print_unsigned cap s (va_unsigned nlong a) base props) }"
| "exec_directive cap m (StrArg props) va s =
     do { (a, va) \<leftarrow> va_arg va; map_option (Pair va) (print_str cap s (ram_ptr m a) props) }"

lemma map_option_bind: "map_option f x = x \<bind> (\<lambda>y. Some (f y))"
  by (cases x) simp_all

lemma morefmt_parse:
  "morefmt cap m fmt props nlong va s =
     (case parse_directive fmt props nlong of
        (None, fmt') \<Rightarrow> Some (fmt', va, s)
      | (Some d, fmt') \<Rightarrow> do { (va, s) \<leftarrow> exec_directive cap m d va s; Some (fmt', va, s) })"
proof (induction cap m fmt props nlong va s rule: morefmt.induct)
  case (1 cap m fmt props nlong va s)
  show ?case
  proof (cases fmt)
    case Nil
    then show ?thesis by (simp add: morefmt.simps parse_directive.simps)
  next
    case (Cons f f')
    note IH = "1.IH" [OF Cons]
    show ?thesis unfolding Cons
      by (subst morefmt.simps, subst parse_directive.simps)
        (use IH in \<open>auto simp: map_option_bind case_prod_unfold va_unsigned_def cong: option.case_cong\<close>)
  qed
qed

lemma parse_directive_length: "length (snd (parse_directive fmt props nlong)) \<le> length fmt"
proof (induction fmt props nlong rule: parse_directive.induct)
  case (1 fmt props nlong)
  show ?case
  proof (cases fmt)
    case Nil
    then show ?thesis by (simp add: parse_directive.simps)
  next
    case (Cons f f')
    note IH = "1.IH" [OF Cons]
    show ?thesis unfolding Cons
      by (subst parse_directive.simps)
        (use IH fmtnum_length [of f'] fmtnum_length [of "f # f'"] in \<open>auto intro: le_SucI le_trans\<close>)
  qed
qed

definition no_props :: strprops_t where
  "no_props = \<lparr>pad = ch CHR '' '', npad = 0, alternate = False\<rparr>"

function parse_format :: "u8 list \<Rightarrow> directive list" where
  "parse_format [] = []"
| "parse_format (f # fmt) =
     (if f \<noteq> ch CHR ''%'' then Byte f # parse_format fmt
      else (case fst (parse_directive fmt no_props 0) of
              None \<Rightarrow> []
            | Some d \<Rightarrow> d # parse_format (snd (parse_directive fmt no_props 0))))"
  by pat_completeness auto
termination
  by (relation "measure length") (auto intro: le_less_trans [OF parse_directive_length])

lemma parse_directive_None: "fst (parse_directive fmt props nlong) = None \<Longrightarrow> snd (parse_directive fmt props nlong) = []"
proof (induction fmt props nlong rule: parse_directive.induct)
  case (1 fmt props nlong)
  show ?case
  proof (cases fmt)
    case Nil
    then show ?thesis by (simp add: parse_directive.simps)
  next
    case (Cons f f')
    show ?thesis
      using "1.IH" [OF Cons] "1.prems" unfolding Cons parse_directive.simps [of "f # f'"]
      by (auto split: if_splits)
  qed
qed

fun exec_directives :: "nat \<Rightarrow> ram \<Rightarrow> directive list \<Rightarrow> u64 list \<Rightarrow> pstream_t \<Rightarrow> pstream_t option" where
  "exec_directives cap m [] va s = Some s"
| "exec_directives cap m (d # ds) va s =
     do { (va, s) \<leftarrow> exec_directive cap m d va s; exec_directives cap m ds va s }"

text \<open>The interpreter carries out the directives of its format in order.\<close>

lemma vsnprintf_loop_parse: "vsnprintf_loop cap m fmt va s = exec_directives cap m (parse_format fmt) va s"
proof (induction "length fmt" arbitrary: fmt va s rule: less_induct)
  case less
  show ?case
  proof (cases fmt)
    case (Cons f f')
    show ?thesis
    proof (cases "f = ch CHR ''%''")
      case False
      have "vsnprintf_loop cap m f' va = exec_directives cap m (parse_format f') va" for va
        using less.hyps [of f'] Cons by (simp add: fun_eq_iff)
      then show ?thesis using False Cons by (simp add: map_option_bind bind_eq_Some_conv)
    next
      case True
      obtain d f'' where d: "parse_directive f' no_props 0 = (d, f'')" by (cases "parse_directive f' no_props 0")
      have "length f'' < length fmt" using parse_directive_length [of f' no_props 0] d Cons by simp
      then have IH: "vsnprintf_loop cap m f'' va s = exec_directives cap m (parse_format f'') va s" for va s
        using less.hyps by blast
      show ?thesis
        using True Cons d d [unfolded no_props_def] IH parse_directive_None [of f' no_props 0]
        by (cases d; cases "exec_directive cap m (the d) va s") (auto simp: morefmt_parse)
    qed
  qed simp
qed

section \<open>The text of a format\<close>

text \<open>The text of a directive, and of a whole format; \<open>strs a\<close> is the string at address \<open>a\<close>.\<close>

fun directive_text :: "(u64 \<Rightarrow> u8 list) \<Rightarrow> directive \<Rightarrow> u64 \<Rightarrow> u8 list" where
  "directive_text strs (Byte c) a = [c]"
| "directive_text strs CharArg a = [ucast (ucast a :: u32)]"
| "directive_text strs (IntArg props nlong) a = pad_text props (show_int (va_signed nlong a))"
| "directive_text strs (UnsignedArg base props nlong) a = unsigned_text base (va_unsigned nlong a) props"
| "directive_text strs (StrArg props) a = pad_text props (strs a)"

fun directives_text :: "(u64 \<Rightarrow> u8 list) \<Rightarrow> directive list \<Rightarrow> u64 list \<Rightarrow> u8 list option" where
  "directives_text strs [] va = Some []"
| "directives_text strs (Byte c # ds) va = map_option (Cons c) (directives_text strs ds va)"
| "directives_text strs (d # ds) [] = None"
| "directives_text strs (d # ds) (a # va) = map_option (append (directive_text strs d a)) (directives_text strs ds va)"

text \<open>
  What the arguments must satisfy: strings are NUL-terminated and, where they are padded, shorter
  than \<open>2 ^ 31\<close>, and a signed number is not the most negative one, whose negation overflows.
\<close>

fun directives_ok :: "ram \<Rightarrow> (u64 \<Rightarrow> u8 list) \<Rightarrow> directive list \<Rightarrow> u64 list \<Rightarrow> bool" where
  "directives_ok m strs (IntArg props nlong # ds) (a # va) \<longleftrightarrow>
     va_signed nlong a \<noteq> - (2 ^ 63) \<and> directives_ok m strs ds va"
| "directives_ok m strs (StrArg props # ds) (a # va) \<longleftrightarrow>
     is_cstr (ram_ptr m a) (strs a) \<and> (length (strs a) < 2 ^ 31 \<or> npad props = 0) \<and> directives_ok m strs ds va"
| "directives_ok m strs (Byte c # ds) va = directives_ok m strs ds va"
| "directives_ok m strs (d # ds) (a # va) = directives_ok m strs ds va"
| "directives_ok m strs ds va = True"

text \<open>The widths a format can ask for are integers.\<close>

fun directive_wf :: "directive \<Rightarrow> bool" where
  "directive_wf (IntArg props nlong) = props_ok props"
| "directive_wf (UnsignedArg base props nlong) = (props_ok props \<and> (base = 10 \<or> base = 16))"
| "directive_wf (StrArg props) = props_ok props"
| "directive_wf d = True"

lemma fmtnum_digits_range:
  "- (2 ^ 31) \<le> num \<Longrightarrow> num < 2 ^ 31 \<Longrightarrow> - (2 ^ 31) \<le> fst (fmtnum_digits num f) \<and> fst (fmtnum_digits num f) < 2 ^ 31"
  by (induction num f rule: fmtnum_digits.induct) (use s32_range in auto)

lemma fmtnum_range: "- (2 ^ 31) \<le> fst (fmtnum f)" "fst (fmtnum f) < 2 ^ 31"
  using fmtnum_digits_range [of 0] s32_range by (auto simp: fmtnum_def case_prod_unfold Let_def)

lemma parse_directive_wf:
  "props_ok props \<Longrightarrow> fst (parse_directive fmt props nlong) = Some d \<Longrightarrow> directive_wf d"
proof (induction fmt props nlong rule: parse_directive.induct)
  case (1 fmt props nlong)
  show ?case
  proof (cases fmt)
    case Nil
    then show ?thesis using "1.prems" by (simp add: parse_directive.simps)
  next
    case (Cons f f')
    show ?thesis
      using "1.IH" [OF Cons] "1.prems" fmtnum_range [of f'] fmtnum_range [of "f # f'"]
      unfolding Cons parse_directive.simps [of "f # f'"]
      by (auto simp: props_ok_def split: if_splits)
  qed
qed

lemma parse_format_wf: "d \<in> set (parse_format fmt) \<Longrightarrow> directive_wf d"
proof (induction fmt rule: parse_format.induct)
  case (2 f fmt)
  have "props_ok no_props" by (simp add: no_props_def props_ok_def)
  then have wf: "fst (parse_directive fmt no_props 0) = Some d' \<Longrightarrow> directive_wf d'" for d'
    by (rule parse_directive_wf)
  show ?case
    using 2 wf by (cases "fst (parse_directive fmt no_props 0)") (auto split: if_splits)
qed simp

lemma va_signed_range: "- (2 ^ 63) \<le> va_signed nlong a" "va_signed nlong a < 2 ^ 63"
  using sint_ge [of a] sint_lt [of a] sint_ge [of "ucast a :: u32"] sint_lt [of "ucast a :: u32"]
  by (simp_all add: va_signed_def)

lemma exec_directives_text:
  assumes "fits n cap" and "\<forall>d \<in> set ds. directive_wf d"
    and "directives_text strs ds va = Some t2" and "directives_ok m strs ds va"
  shows "exec_directives cap m ds va (stream_of n t1) = Some (stream_of n (t1 @ t2))"
  using assms(2-4)
proof (induction m strs ds va arbitrary: t1 t2 rule: directives_ok.induct)
  case (1 m strs props nlong ds a va)
  then show ?case
    using va_signed_range [of nlong a] print_int_stream [OF assms(1), of props "va_signed nlong a" t1]
    by (auto simp: va_arg_def)
next
  case (2 m strs props ds a va)
  then show ?case
    using print_str_stream [OF assms(1), of "ram_ptr m a" "strs a" props t1] by (auto simp: va_arg_def)
qed (auto simp: va_arg_def addchar_stream [OF assms(1)] print_unsigned_stream [OF assms(1)])

section \<open>What a call formats\<close>

text \<open>
  \<open>formats m fmt va t\<close>: with the arguments \<open>va\<close> and the strings found in \<open>m\<close>, the format \<open>fmt\<close>
  means the text \<open>t\<close>.
\<close>

definition formats :: "ram \<Rightarrow> u8 list \<Rightarrow> u64 list \<Rightarrow> u8 list \<Rightarrow> bool" where
  "formats m fmt va t \<longleftrightarrow> (\<exists>strs. directives_text strs (parse_format fmt) va = Some t \<and>
     directives_ok m strs (parse_format fmt) va)"

lemma my_vsnprintf_text:
  assumes "formats m fmt va t" and "fits n cap"
  shows "my_vsnprintf cap (int n) fmt va m = Some (take (n - 1) t @ [0], s32 (int (length t)))"
proof -
  obtain strs where strs: "directives_text strs (parse_format fmt) va = Some t"
      "directives_ok m strs (parse_format fmt) va"
    using assms(1) by (auto simp: formats_def)
  have s0: "\<lparr>written = [], remain = s32 (int n - 1), added = 0\<rparr> = stream_of n []"
    using assms(2) by (simp add: stream_of_def fits_def s32_id of_nat_diff)
  have "vsnprintf_loop cap m fmt va (stream_of n []) = Some (stream_of n ([] @ t))"
    unfolding vsnprintf_loop_parse
    using parse_format_wf by (intro exec_directives_text [OF assms(2) _ strs]) blast
  moreover have "length (take (n - 1) t) < cap" using assms(2) by (auto simp: fits_def)
  ultimately show ?thesis
    unfolding my_vsnprintf_def s0 by (simp add: stream_of_def push_Some)
qed

text \<open>The part of the text that a reader of the truncated buffer sees.\<close>

definition shown :: "u8 list \<Rightarrow> u8 list" where
  "shown t = takeWhile (\<lambda>c. c \<noteq> 0) (take (BUFSZ - 1) t)"

lemma shown_cstr: "is_cstr (obj (take (BUFSZ - 1) t @ [0])) (shown t)"
proof -
  let ?b = "take (BUFSZ - 1) t"
  have "\<exists>rest. ?b @ [0] = shown t @ 0 # rest"
  proof (cases "0 \<in> set ?b")
    case True
    then have "dropWhile (\<lambda>c. c \<noteq> 0) ?b \<noteq> []" by (simp add: dropWhile_eq_Nil_conv)
    then obtain c rest where d: "dropWhile (\<lambda>c. c \<noteq> 0) ?b = c # rest" by (cases "dropWhile (\<lambda>c. c \<noteq> 0) ?b") auto
    then have "c = 0" using hd_dropWhile [of "\<lambda>c. c \<noteq> 0" ?b] by auto
    then show ?thesis using d takeWhile_dropWhile_id [of "\<lambda>c. c \<noteq> 0" ?b] by (metis append.assoc append_Cons shown_def)
  next
    case False
    then have "shown t = ?b" unfolding shown_def by (auto simp: takeWhile_eq_all_conv)
    then show ?thesis by simp
  qed
  then obtain rest where rest: "?b @ [0] = shown t @ 0 # rest" by blast
  have "length (shown t) + length rest = length ?b" using arg_cong [OF rest, of length] by simp
  then have "length (shown t) + length rest < 2 ^ 64" by (simp add: BUFSZ_def)
  moreover have "0 \<notin> set (shown t)" unfolding shown_def by (auto dest: set_takeWhileD)
  ultimately show ?thesis unfolding rest by (intro is_cstr_obj) simp_all
qed

lemma shown_short: "0 \<notin> set t \<Longrightarrow> length t < BUFSZ \<Longrightarrow> shown t = t"
  by (auto simp: shown_def takeWhile_eq_all_conv)

text \<open>What a message of a level looks like on the line.\<close>

definition log_line :: "log_level_t \<Rightarrow> u8 list \<Rightarrow> u8 list" where
  "log_line level t =
     (case color (log_configs level) of None \<Rightarrow> [] | Some c \<Rightarrow> str c) @
     (if LOG_LEVEL_INFO \<le> level then str ''[TESTOS] '' else []) @
     concat (map crlf (shown t)) @
     (if level = LOG_LEVEL_NORMAL then [] else str ANSI_RESET)"

lemma color_facts:
  assumes "color (log_configs level) = Some c"
  shows "0 \<notin> set (str c)" "length c < 2 ^ 64" "10 \<notin> set (str c)"
proof -
  have "0 \<notin> set (str c) \<and> length c < 2 ^ 64 \<and> 10 \<notin> set (str c)"
    using assms by (cases level) (auto simp: ANSI_RED_def ANSI_BLUE_def ANSI_GREEN_def ANSI_YELLOW_def ESC_def)
  then show "0 \<notin> set (str c)" "length c < 2 ^ 64" "10 \<notin> set (str c)" by simp_all
qed

lemma prints_plain:
  "0 \<notin> set (str s) \<Longrightarrow> length s < 2 ^ 64 \<Longrightarrow> 10 \<notin> set (str s) \<Longrightarrow> prints (uart_puts (lit s)) (\<lambda>t. str s)"
  using prints_lit [of s] by (simp add: msg_def concat_crlf)

lemma log_config_facts:
  "show_prefix (log_configs level) \<longleftrightarrow> LOG_LEVEL_INFO \<le> level"
  "color (log_configs level) = None \<longleftrightarrow> level = LOG_LEVEL_NORMAL"
  by (cases level; simp add: less_eq_log_level_t_def)+

text \<open>What a print does to a machine that is live.\<close>

lemma outputs_print: "prints f bs \<Longrightarrow> uart_live w \<Longrightarrow> outputs f (bs (uart_ty w)) w"
  by (simp add: prints_def)

lemma logger_output_text:
  fixes w :: "'a machine_scheme"
  assumes "uart_live w" and "formats (ram w) fmt va t"
  shows "\<exists>w'. logger_output level fmt va w = Some (s32 (int (length t)), w') \<and> uart_io 0 (log_line level t) w w'"
proof -
  let ?buf = "take (BUFSZ - 1) t @ [0]" and ?c = "color (log_configs level)"
  have buf: "my_vsnprintf BUFSZ (int BUFSZ) fmt va (ram w) = Some (?buf, s32 (int (length t)))"
    using assms(2) by (rule my_vsnprintf_text) (simp add: fits_def BUFSZ_def)
  have body: "prints (uart_puts (obj ?buf) :: 'a machine_scheme \<Rightarrow> _) (\<lambda>ty. concat (map crlf (shown t)))"
    unfolding prints_def using uart_puts_outputs shown_cstr by blast
  have prefix: "prints (\<lambda>w :: 'a machine_scheme. if show_prefix (log_configs level) then uart_puts (lit ''[TESTOS] '') w else Some w)
      (\<lambda>ty. if LOG_LEVEL_INFO \<le> level then str ''[TESTOS] '' else [])"
    using prints_plain [of "''[TESTOS] ''", where 'a = 'a] prints_Some [where 'a = 'a] by (auto simp: log_config_facts)
  have col: "prints (\<lambda>w :: 'a machine_scheme. case ?c of Some c \<Rightarrow> uart_puts (lit c) w | None \<Rightarrow> Some w)
      (\<lambda>ty. case ?c of None \<Rightarrow> [] | Some c \<Rightarrow> str c)"
    using prints_Some [where 'a = 'a] color_facts [of level] by (cases ?c) (auto intro: prints_plain)
  have reset: "prints (\<lambda>w :: 'a machine_scheme. case ?c of Some c \<Rightarrow> uart_puts (lit ANSI_RESET) w | None \<Rightarrow> Some w)
      (\<lambda>ty. if level = LOG_LEVEL_NORMAL then [] else str ANSI_RESET)"
    using prints_Some [where 'a = 'a] prints_plain [of ANSI_RESET, where 'a = 'a] log_config_facts(2) [of level]
    by (cases ?c) (auto simp: ANSI_RESET_def ESC_def)
  have "prints (\<lambda>w :: 'a machine_scheme. (case ?c of Some c \<Rightarrow> uart_puts (lit c) w | None \<Rightarrow> Some w) \<bind>
      (\<lambda>w. (if show_prefix (log_configs level) then uart_puts (lit ''[TESTOS] '') w else Some w) \<bind>
      (\<lambda>w. uart_puts (obj ?buf) w \<bind>
      (\<lambda>w. case ?c of Some c \<Rightarrow> uart_puts (lit ANSI_RESET) w | None \<Rightarrow> Some w)))) (\<lambda>ty. log_line level t)"
    unfolding log_line_def by (intro prints_bind col prefix body reset)
  then obtain w1 w2 w3 w' where
    "(case ?c of Some c \<Rightarrow> uart_puts (lit c) w | None \<Rightarrow> Some w) = Some w1"
    "(if show_prefix (log_configs level) then uart_puts (lit ''[TESTOS] '') w1 else Some w1) = Some w2"
    "uart_puts (obj ?buf) w2 = Some w3"
    "(case ?c of Some c \<Rightarrow> uart_puts (lit ANSI_RESET) w3 | None \<Rightarrow> Some w3) = Some w'"
    and io: "uart_io 0 (log_line level t) w w'"
    using assms(1) by (elim printsE [of _ _ w]) (assumption, simp only: bind_eq_Some_conv, blast)
  then have "logger_output level fmt va w = Some (s32 (int (length t)), w')"
    unfolding logger_output_def Let_def by (simp only: buf bind.bind_lunit prod.case)
  then show ?thesis using io by blast
qed


section \<open>Undefined cases\<close>

text \<open>The most negative number: its negation overflows, and the first digit is \<^verbatim>\<open>digits[-8]\<close>.\<close>

lemma print_int_min: "print_int cap ps (- (2 ^ 63)) 10 props = None"
proof -
  have "int_digits 26 10 [] (- (2 ^ 63)) = None"
    by (subst int_digits.simps) (simp add: signed_modulo_int_def)
  then show ?thesis by (simp add: print_int_def s64_def)
qed

text \<open>With size 0 the remaining space is \<open>- 1\<close>, which never reaches 0 again: nothing is truncated.\<close>

lemma addchar_unbounded:
  assumes "remain s < 0" and "- (2 ^ 31) < remain s"
  shows "addchar cap c s = (if length (written s) < cap
    then Some \<lparr>written = written s @ [c], remain = remain s - 1, added = s32 (added s + 1)\<rparr> else None)"
  using assms by (cases s) (auto simp: addchar_def push_def s32_id)

lemma loop_unbounded:
  assumes "37 \<notin> set fmt" and "length (written s) \<le> cap"
    and "remain s < 0" and "- (2 ^ 31) \<le> remain s - int (cap - length (written s)) - 1"
  shows "\<exists>a. vsnprintf_loop cap m fmt va s =
    (if length (written s) + length fmt \<le> cap
     then Some \<lparr>written = written s @ fmt, remain = remain s - int (length fmt), added = a\<rparr> else None)"
  using assms
proof (induction fmt arbitrary: s)
  case Nil
  then show ?case by (cases s) simp
next
  case (Cons f fmt)
  show ?case
  proof (cases "length (written s) < cap")
    case True
    then show ?thesis
      using Cons.prems Cons.IH [of "\<lparr>written = written s @ [f], remain = remain s - 1, added = s32 (added s + 1)\<rparr>"]
      by (simp add: addchar_unbounded of_nat_diff algebra_simps cong: if_cong)
  next
    case False
    then show ?thesis using Cons.prems by (simp add: addchar_unbounded)
  qed
qed

section \<open>Formats of the kernel's messages\<close>

text \<open>The formats the kernel uses, piece by piece.\<close>

lemma parse_format_plain: "37 \<notin> set bs \<Longrightarrow> parse_format (bs @ fmt) = map Byte bs @ parse_format fmt"
  by (induction bs) auto

lemma directives_text_plain:
  "directives_text strs (map Byte bs @ ds) va = map_option (append bs) (directives_text strs ds va)"
  "directives_ok m strs (map Byte bs @ ds) va = directives_ok m strs ds va"
  by (induction bs; cases "directives_text strs ds va"; simp)+

lemma formats_end: "formats m [] va []"
  by (simp add: formats_def)

lemma formats_plain:
  assumes "37 \<notin> set bs" and "formats m fmt va t"
  shows "formats m (bs @ fmt) va (bs @ t)"
  using assms(2) unfolding formats_def parse_format_plain [OF assms(1)]
  by (auto simp: directives_text_plain)

lemma formats_lit: "37 \<notin> set bs \<Longrightarrow> formats m bs va bs"
  using formats_plain [OF _ formats_end] by fastforce

text \<open>A directive that takes a number.\<close>

lemma formats_number:
  assumes "parse_format (dir @ fmt) = d # parse_format fmt"
    and "d = UnsignedArg base props nlong \<or> d = IntArg props nlong \<and> va_signed nlong a \<noteq> - (2 ^ 63)"
    and "formats m fmt va t"
  shows "formats m (dir @ fmt) (a # va) (directive_text (\<lambda>_. []) d a @ t)"
  using assms(2,3) unfolding formats_def assms(1) by auto

lemma formats_llu:
  assumes "formats m fmt va t"
  shows "formats m (str ''%llu'' @ fmt) (a # va) (show_nat 10 (unat a) @ t)"
  using formats_number [OF _ _ assms, of "str ''%llu''" "UnsignedArg 10 no_props 2" 10 no_props 2 a]
  by (simp add: parse_directive.simps unsigned_text_def pad_text_def va_unsigned_def no_props_def)

lemma formats_llx:
  assumes "formats m fmt va t"
  shows "formats m (str ''%llx'' @ fmt) (a # va) (show_nat 16 (unat a) @ t)"
  using formats_number [OF _ _ assms, of "str ''%llx''" "UnsignedArg 16 no_props 2" 16 no_props 2 a]
  by (simp add: parse_directive.simps unsigned_text_def pad_text_def va_unsigned_def no_props_def)

lemma formats_lld:
  assumes "formats m fmt va t" and "sint a \<noteq> - (2 ^ 63)"
  shows "formats m (str ''%lld'' @ fmt) (a # va) (show_int (sint a) @ t)"
  using formats_number [OF _ _ assms(1), of "str ''%lld''" "IntArg no_props 2" 0 no_props 2 a] assms(2)
  by (simp add: parse_directive.simps pad_text_def va_signed_def no_props_def)

lemma formats_d:
  assumes "formats m fmt va t"
  shows "formats m (str ''%d'' @ fmt) (a # va) (show_int (sint (ucast a :: u32)) @ t)"
proof -
  have "sint (ucast a :: u32) \<noteq> - (2 ^ 63)" using sint_ge [of "ucast a :: u32"] by simp
  then show ?thesis
    using formats_number [OF _ _ assms(1), of "str ''%d''" "IntArg no_props 0" 0 no_props 0 a]
    by (simp add: parse_directive.simps pad_text_def va_signed_def no_props_def)
qed

lemma formats_c: "formats m (str ''%c'') [a] [ucast (ucast a :: u32)]"
proof -
  have "parse_format (str ''%c'') = [CharArg]" by (simp add: parse_directive.simps)
  then show ?thesis by (simp add: formats_def)
qed

lemma formats_s:
  assumes "is_cstr (ram_ptr m a) s"
  shows "formats m (str ''%s'') [a] s"
proof -
  have "parse_format (str ''%s'') = [StrArg no_props]" by (simp add: parse_directive.simps)
  moreover have "pad_text no_props s = s" by (simp add: pad_text_def no_props_def)
  ultimately show ?thesis
    unfolding formats_def using assms by (intro exI [of _ "\<lambda>_. s"]) (simp add: no_props_def)
qed

section \<open>Log calls as prints\<close>

text \<open>A log call whose result is not used.\<close>

definition say :: "('a machine_scheme \<Rightarrow> (int \<times> 'a machine_scheme) option) \<Rightarrow> 'a machine_scheme \<Rightarrow> 'a machine_scheme option" where
  "say f w = map_option snd (f w)"

lemma outputs_say:
  assumes "uart_live w" and "formats (ram w) fmt va t"
  shows "outputs (say (logger_output level fmt va)) (log_line level t) w"
  using logger_output_text [OF assms, of level] by (auto simp: outputs_def say_def)

lemma prints_say:
  "(\<And>m. formats m fmt va t) \<Longrightarrow> prints (say (logger_output level fmt va)) (\<lambda>ty. log_line level t)"
  by (simp add: prints_def outputs_say)

lemmas log_defs = logger_def [abs_def] logger_debug_def [abs_def] logger_info_def [abs_def]
  logger_warn_def [abs_def] logger_error_def [abs_def]

section \<open>Properties\<close>

definition word_ram :: ram where
  "word_ram = (\<lambda>a. if a = 0x1000 then 108 else if a = 0x1001 then 115 else 0)"

lemma word_ram_cstr: "is_cstr (ram_ptr word_ram 0x1000) (str ''ls'')"
  by (auto simp: is_cstr_def word_ram_def ram_ptr_def less_Suc_eq nth_Cons')

lemma demo_parse:
  "parse_format (str ''%-4s|%05d|%#lx'') =
     [StrArg \<lparr>pad = 32, npad = - 4, alternate = False\<rparr>, Byte 124,
      IntArg \<lparr>pad = 48, npad = 5, alternate = False\<rparr> 0, Byte 124,
      UnsignedArg 16 \<lparr>pad = 32, npad = 0, alternate = True\<rparr> 1]"
  by code_simp

lemma demo_texts: "show_int (- 42) = str ''-42''" "show_nat 16 0x80200000 = str ''80200000''"
  by (simp_all add: show_int_def show_nat_def digits_of.simps digit_char_def)

lemma demo_texts_padded:
  "pad_text \<lparr>pad = 32, npad = - 4, alternate = False\<rparr> (str ''ls'') = str ''ls  ''"
  "pad_text \<lparr>pad = 48, npad = 5, alternate = False\<rparr> (str ''-42'') = str ''00-42''"
  "unsigned_text 16 0x80200000 \<lparr>pad = 32, npad = 0, alternate = True\<rparr> = str ''0x80200000''"
proof -
  show "pad_text \<lparr>pad = 32, npad = - 4, alternate = False\<rparr> (str ''ls'') = str ''ls  ''"
    "pad_text \<lparr>pad = 48, npad = 5, alternate = False\<rparr> (str ''-42'') = str ''00-42''"
    by (simp_all add: pad_text_def numeral_2_eq_2)
  show "unsigned_text 16 0x80200000 \<lparr>pad = 32, npad = 0, alternate = True\<rparr> = str ''0x80200000''"
    by (simp add: pad_text_def unsigned_text_def demo_texts)
qed

lemma demo_ok:
  "directives_ok word_ram (\<lambda>_. str ''ls'') (parse_format (str ''%-4s|%05d|%#lx'')) [0x1000, 0xFFFFFFD6, 0x80200000]"
  unfolding demo_parse using word_ram_cstr by (simp add: va_signed_def)

lemma demo_formats: "formats word_ram (str ''%-4s|%05d|%#lx'') [0x1000, 0xFFFFFFD6, 0x80200000] (str ''ls  |00-42|0x80200000'')"
proof -
  have "directives_text (\<lambda>_. str ''ls'') (parse_format (str ''%-4s|%05d|%#lx'')) [0x1000, 0xFFFFFFD6, 0x80200000] =
      Some (str ''ls  |00-42|0x80200000'')"
    unfolding demo_parse by (simp add: va_signed_def va_unsigned_def demo_texts demo_texts_padded del: str_simps) simp
  then show ?thesis using demo_ok by (auto simp only: formats_def)
qed

text \<open>
  C1.  \<open>my_vsnprintf\<close> refines its format: for every format and arguments that mean the text \<open>t\<close>
  (flags, widths and length modifiers included) it stores the first \<open>n - 1\<close> bytes of \<open>t\<close> and a
  NUL in an array of \<open>n\<close> bytes, never writes past it, and returns the length of the whole text.
\<close>

theorem vsnprintf_truncates:
  assumes "formats m fmt va t" and "0 < n" and "n \<le> cap" and "n < 2 ^ 31"
  shows "my_vsnprintf cap (int n) fmt va m = Some (take (n - 1) t @ [0], s32 (int (length t)))"
  using my_vsnprintf_text [OF assms(1)] assms(2-4) by (simp add: fits_def)

theorem vsnprintf_truncates_witness:
  "my_vsnprintf 16 8 (str ''%-4s|%05d|%#lx'') [0x1000, 0xFFFFFFD6, 0x80200000] word_ram =
     Some (str ''ls  |00'' @ [0], 21)"
  using vsnprintf_truncates [OF demo_formats, of 8 16] by (simp add: s32_id)

text \<open>
  C15.  A log call with a meaningful format returns the length of its text and transmits the
  colour of its level, the prefix (from level INFO on), the text up to its first NUL or
  its 511th byte, and the colour reset (except for plain messages).
\<close>

theorem logger_output_line:
  assumes "uart_live w" and "formats (ram w) fmt va t"
  shows "\<exists>w'. logger_output level fmt va w = Some (s32 (int (length t)), w') \<and>
    uart_io 0 ((case color (log_configs level) of None \<Rightarrow> [] | Some c \<Rightarrow> str c) @
      (if LOG_LEVEL_INFO \<le> level then str ''[TESTOS] '' else []) @
      concat (map crlf (takeWhile (\<lambda>c. c \<noteq> 0) (take 511 t))) @
      (if level = LOG_LEVEL_NORMAL then [] else str ANSI_RESET)) w w'"
  using logger_output_text [OF assms, of level] by (simp add: log_line_def shown_def BUFSZ_def)

theorem logger_output_line_witness:
  "\<exists>w'. logger_output LOG_LEVEL_WARN (str ''%-4s|%05d|%#lx'') [0x1000, 0xFFFFFFD6, 0x80200000]
       ((demo_uart UART_TYPE_PL011)\<lparr>ram := word_ram\<rparr>) = Some (21, w') \<and>
     uart_io 0 (str (ESC # ''[33m[TESTOS] ls  |00-42|0x80200000'') @ str (ESC # ''[0m''))
       ((demo_uart UART_TYPE_PL011)\<lparr>ram := word_ram\<rparr>) w'"
proof -
  let ?w = "(demo_uart UART_TYPE_PL011)\<lparr>ram := word_ram\<rparr>"
  have "uart_live ?w" using demo_uart_facts(1) by (simp add: uart_live_cong [of ?w "demo_uart UART_TYPE_PL011"])
  moreover have "formats (ram ?w) (str ''%-4s|%05d|%#lx'') [0x1000, 0xFFFFFFD6, 0x80200000] (str ''ls  |00-42|0x80200000'')"
    using demo_formats by simp
  ultimately have "\<exists>w'. logger_output LOG_LEVEL_WARN (str ''%-4s|%05d|%#lx'') [0x1000, 0xFFFFFFD6, 0x80200000] ?w =
      Some (s32 (int (length (str ''ls  |00-42|0x80200000''))), w') \<and> uart_io 0 (str ANSI_YELLOW @ str ''[TESTOS] '' @
      concat (map crlf (takeWhile (\<lambda>c. c \<noteq> 0) (take 511 (str ''ls  |00-42|0x80200000'')))) @ str ANSI_RESET) ?w w'"
    using logger_output_line [of ?w _ _ _ LOG_LEVEL_WARN] by (fastforce simp: less_eq_log_level_t_def)
  then show ?thesis by (simp add: less_eq_log_level_t_def ANSI_YELLOW_def ANSI_RESET_def crlf_def s32_id)
qed

text \<open>
  C34.  Formatting the most negative 64-bit number has no defined result, on any format that
  begins with its directive: the negation overflows and the first digit is read before the
  digit table.
\<close>

theorem vsnprintf_min_undefined:
  "my_vsnprintf cap n (str ''%ld'' @ fmt) (0x8000000000000000 # va) m = None"
proof -
  have "va_signed 1 0x8000000000000000 = - (2 ^ 63)" by (simp add: va_signed_def)
  then show ?thesis
    using print_int_min by (simp add: my_vsnprintf_def morefmt.simps va_arg_def)
qed

text \<open>
  C35.  A size of 0 turns the bound off: a text as long as the array is then stored whole, and
  its NUL or its last bytes past the end.
\<close>

theorem vsnprintf_size_zero:
  assumes "37 \<notin> set fmt" and "cap \<le> length fmt" and "cap < 2 ^ 31 - 1"
  shows "my_vsnprintf cap 0 fmt va m = None"
proof -
  obtain a where "vsnprintf_loop cap m fmt va \<lparr>written = [], remain = - 1, added = 0\<rparr> =
      (if length fmt \<le> cap then Some \<lparr>written = fmt, remain = - 1 - int (length fmt), added = a\<rparr> else None)"
    using loop_unbounded [OF assms(1), of "\<lparr>written = [], remain = - 1, added = 0\<rparr>" cap m va] assms(3)
    by (auto cong: if_cong)
  then show ?thesis using assms(2) by (simp add: my_vsnprintf_def s32_id push_def)
qed

theorem vsnprintf_size_zero_witness: "my_vsnprintf 4 0 (str ''overrun'') [] (\<lambda>_. 0) = None"
  by (rule vsnprintf_size_zero) simp_all

end
