(* ===== verification/Effects.thy ===== *)
theory Effects
  imports Uart
begin

text \<open>
  Composing kernel functions that print and update the state.  What such a function does is
  described by the update \<open>u\<close> of everything but the device counters and log, and the text
  \<open>bs\<close> it sends: \<open>performs P f u bs\<close> says that from every state with a live UART that satisfies
  \<open>P\<close>, \<open>f\<close> returns with exactly this effect.  Because the updates do not touch the device, the
  effects of a sequence of calls compose (\<open>performs_bind\<close>).
\<close>

section \<open>Updates and readings that leave the device alone\<close>

definition neutral :: "('a machine_scheme \<Rightarrow> 'a machine_scheme) \<Rightarrow> bool" where
  "neutral u \<longleftrightarrow> (\<forall>w c l. u (w\<lparr>mmio_cnt := c, mmio_log := l\<rparr>) = (u w)\<lparr>mmio_cnt := c, mmio_log := l\<rparr>) \<and>
     (\<forall>w. plat (u w) = plat w \<and> uart_ty (u w) = uart_ty w \<and> mmio_rd (u w) = mmio_rd w \<and>
       mmio_cnt (u w) = mmio_cnt w \<and> mmio_log (u w) = mmio_log w)"

definition steady :: "('a machine_scheme \<Rightarrow> 'b) \<Rightarrow> bool" where
  "steady r \<longleftrightarrow> (\<forall>w c l. r (w\<lparr>mmio_cnt := c, mmio_log := l\<rparr>) = r w)"

lemma neutralI:
  assumes "\<And>w c l. u (w\<lparr>mmio_cnt := c, mmio_log := l\<rparr>) = (u w)\<lparr>mmio_cnt := c, mmio_log := l\<rparr>"
    and "\<And>w. plat (u w) = plat w" and "\<And>w. uart_ty (u w) = uart_ty w" and "\<And>w. mmio_rd (u w) = mmio_rd w"
    and "\<And>w. mmio_cnt (u w) = mmio_cnt w" and "\<And>w. mmio_log (u w) = mmio_log w"
  shows "neutral u"
  using assms by (simp add: neutral_def)

lemma neutral_id: "neutral (\<lambda>w. w)"
  by (simp add: neutral_def)

lemma neutral_comp: "neutral u \<Longrightarrow> neutral v \<Longrightarrow> neutral (\<lambda>w. v (u w))"
  by (simp add: neutral_def)

lemma neutral_if: "steady c \<Longrightarrow> neutral u \<Longrightarrow> neutral v \<Longrightarrow> neutral (\<lambda>w. if c w then u w else v w)"
  by (simp add: neutral_def steady_def)

lemma neutral_io: "neutral u \<Longrightarrow> uart_io k bs w w' \<Longrightarrow> uart_io k bs (u w) (u w')"
  by (rule uart_io_upd) (simp_all add: neutral_def)

lemma neutral_live: "neutral u \<Longrightarrow> uart_live (u w) = uart_live w"
  by (rule uart_live_cong) (simp_all add: neutral_def)

lemma steady_io: "steady r \<Longrightarrow> uart_io k bs w w' \<Longrightarrow> r w' = r w"
  by (auto simp: steady_def uart_io_def)

lemma steady_const: "steady (\<lambda>w. c)"
  by (simp add: steady_def)

lemma steady_neutral: "neutral u \<Longrightarrow> steady r \<Longrightarrow> steady (\<lambda>w. r (u w))"
  by (simp add: neutral_def steady_def)

lemma steady_app: "steady r \<Longrightarrow> steady (\<lambda>w. f (r w))"
  by (simp add: steady_def)

lemma steady_pair: "steady r \<Longrightarrow> steady s \<Longrightarrow> steady (\<lambda>w. f (r w) (s w))"
  by (simp add: steady_def)

section \<open>Effects\<close>

definition performs :: "('a machine_scheme \<Rightarrow> bool) \<Rightarrow> ('a machine_scheme \<Rightarrow> 'a machine_scheme option) \<Rightarrow>
    ('a machine_scheme \<Rightarrow> 'a machine_scheme) \<Rightarrow> ('a machine_scheme \<Rightarrow> u8 list) \<Rightarrow> bool" where
  "performs P f u bs \<longleftrightarrow> neutral u \<and> steady bs \<and> steady P \<and>
     (\<forall>w. uart_live w \<longrightarrow> P w \<longrightarrow> (\<exists>w'. f w = Some w' \<and> uart_io 0 (bs w) (u w) w'))"

text \<open>The same for a function with a result.\<close>

definition yields :: "('a machine_scheme \<Rightarrow> bool) \<Rightarrow> ('a machine_scheme \<Rightarrow> ('r \<times> 'a machine_scheme) option) \<Rightarrow>
    ('a machine_scheme \<Rightarrow> 'r) \<Rightarrow> ('a machine_scheme \<Rightarrow> 'a machine_scheme) \<Rightarrow> ('a machine_scheme \<Rightarrow> u8 list) \<Rightarrow> bool" where
  "yields P f r u bs \<longleftrightarrow> neutral u \<and> steady bs \<and> steady P \<and> steady r \<and>
     (\<forall>w. uart_live w \<longrightarrow> P w \<longrightarrow> (\<exists>w'. f w = Some (r w, w') \<and> uart_io 0 (bs w) (u w) w'))"

lemma performsE:
  assumes "performs P f u bs" and "uart_live w" and "P w"
  obtains w' where "f w = Some w'" "uart_io 0 (bs w) (u w) w'"
  using assms by (auto simp: performs_def)

lemma yieldsE:
  assumes "yields P f r u bs" and "uart_live w" and "P w"
  obtains w' where "f w = Some (r w, w')" "uart_io 0 (bs w) (u w) w'"
  using assms by (auto simp: yields_def)

lemma performs_print: "prints f bs \<Longrightarrow> performs (\<lambda>w. True) f (\<lambda>w. w) (\<lambda>w. bs (uart_ty w))"
  by (auto simp: performs_def neutral_id steady_def elim: printsE)

lemma performs_update: "neutral u \<Longrightarrow> performs (\<lambda>w. True) (\<lambda>w. Some (u w)) u (\<lambda>w. [])"
  by (auto simp: performs_def steady_def intro: uart_io_refl)

lemma performs_weaken:
  "performs Q f u bs \<Longrightarrow> (\<And>w. P w \<Longrightarrow> Q w) \<Longrightarrow> steady P \<Longrightarrow> performs P f u bs"
  by (auto simp: performs_def)

lemma performs_cong:
  assumes "performs P f u bs" and "\<And>w. P w \<Longrightarrow> u w = v w" and "\<And>w. P w \<Longrightarrow> bs w = cs w"
    and "neutral v" and "steady cs"
  shows "performs P f v cs"
  using assms by (auto simp: performs_def)

lemma yields_weaken:
  "yields Q f r u bs \<Longrightarrow> (\<And>w. P w \<Longrightarrow> Q w) \<Longrightarrow> steady P \<Longrightarrow> yields P f r u bs"
  by (auto simp: yields_def)

text \<open>The effect of the second call, from where the first one left.\<close>

lemma then_io:
  assumes "neutral u" and "neutral v" and "uart_io 0 as (u w) w1" and "uart_io 0 bs (v w1) w2"
  shows "uart_io 0 (as @ bs) (v (u w)) w2"
  using uart_io_trans [OF neutral_io [OF assms(2,3)] assms(4)] by simp

lemma performs_bind:
  assumes f: "performs P f u as" and g: "performs Q g v bs" and PQ: "\<And>w. P w \<Longrightarrow> Q (u w)"
  shows "performs P (\<lambda>w. f w \<bind> g) (\<lambda>w. v (u w)) (\<lambda>w. as w @ bs (u w))"
proof -
  have parts: "neutral u" "neutral v" "steady as" "steady bs" "steady P" "steady Q"
    using f g by (simp_all add: performs_def)
  have "\<exists>w'. f w \<bind> g = Some w' \<and> uart_io 0 (as w @ bs (u w)) (v (u w)) w'" if w: "uart_live w" "P w" for w
  proof -
    obtain w1 where w1: "f w = Some w1" "uart_io 0 (as w) (u w) w1" using f w by (rule performsE)
    have same: "Q w1 = Q (u w)" "bs w1 = bs (u w)" using parts w1(2) by (simp_all add: steady_io)
    have "uart_live w1" using w(1) parts(1) w1(2) neutral_live uart_live_io by blast
    then obtain w2 where "g w1 = Some w2" "uart_io 0 (bs w1) (v w1) w2"
      using g PQ [OF w(2)] same(1) by (auto elim: performsE)
    then show ?thesis using then_io [OF parts(1,2) w1(2)] w1(1) same(2) by auto
  qed
  then show ?thesis
    using parts neutral_comp [OF parts(1,2)] steady_pair [OF parts(3) steady_neutral [OF parts(1,4)]]
    by (simp add: performs_def)
qed

lemma performs_yields:
  assumes f: "performs P f u as" and g: "yields Q g r v bs" and PQ: "\<And>w. P w \<Longrightarrow> Q (u w)"
  shows "yields P (\<lambda>w. f w \<bind> g) (\<lambda>w. r (u w)) (\<lambda>w. v (u w)) (\<lambda>w. as w @ bs (u w))"
proof -
  have parts: "neutral u" "neutral v" "steady as" "steady bs" "steady P" "steady Q" "steady r"
    using f g by (simp_all add: performs_def yields_def)
  have "\<exists>w'. f w \<bind> g = Some (r (u w), w') \<and> uart_io 0 (as w @ bs (u w)) (v (u w)) w'" if w: "uart_live w" "P w" for w
  proof -
    obtain w1 where w1: "f w = Some w1" "uart_io 0 (as w) (u w) w1" using f w by (rule performsE)
    have same: "Q w1 = Q (u w)" "bs w1 = bs (u w)" "r w1 = r (u w)" using parts w1(2) by (simp_all add: steady_io)
    have "uart_live w1" using w(1) parts(1) w1(2) neutral_live uart_live_io by blast
    then obtain w2 where "g w1 = Some (r w1, w2)" "uart_io 0 (bs w1) (v w1) w2"
      using g PQ [OF w(2)] same(1) by (auto elim: yieldsE)
    then show ?thesis using then_io [OF parts(1,2) w1(2)] w1(1) same(2,3) by auto
  qed
  then show ?thesis
    using parts neutral_comp [OF parts(1,2)] steady_pair [OF parts(3) steady_neutral [OF parts(1,4)]]
      steady_neutral [OF parts(1,7)]
    by (simp add: yields_def)
qed

text \<open>An update before the rest, a value read from the state, a branch.\<close>

lemma performs_after_update:
  assumes "neutral u" and "performs Q g v bs" and "\<And>w. P w \<Longrightarrow> Q (u w)" and "steady P"
  shows "performs P (\<lambda>w. g (u w)) (\<lambda>w. v (u w)) (\<lambda>w. bs (u w))"
proof -
  have "performs P (\<lambda>w. Some (u w)) u (\<lambda>w. [])"
    using performs_weaken [OF performs_update [OF assms(1)]] assms(4) by blast
  from performs_bind [OF this assms(2,3)] show ?thesis by simp
qed

lemma performs_read:
  assumes f: "\<And>x. performs P (f x) (u x) (bs x)" and r: "steady r"
  shows "performs P (\<lambda>w. f (r w) w) (\<lambda>w. u (r w) w) (\<lambda>w. bs (r w) w)"
proof -
  have "neutral (\<lambda>w. u (r w) w)" using f r by (simp add: performs_def neutral_def steady_def)
  then show ?thesis using f r unfolding performs_def steady_def by auto
qed

lemma performs_if:
  assumes "steady c" and "performs (\<lambda>w. P w \<and> c w) f u as" and "performs (\<lambda>w. P w \<and> \<not> c w) g v bs" and "steady P"
  shows "performs P (\<lambda>w. if c w then f w else g w) (\<lambda>w. if c w then u w else v w) (\<lambda>w. if c w then as w else bs w)"
  using assms neutral_if [OF assms(1), of u v] unfolding performs_def steady_def by auto

end
