(* ===== verification/Timer.thy ===== *)
theory Timer
  imports Heap LoggerText Effects
begin

text \<open>
  The timer: \<^verbatim>\<open>src/timer.c\<close>, complete.  The machine is extended by the module's global
  variables.  Interrupt times are set with an SBI call; the firmware behind it is not program
  code, so a call is recorded in \<open>sbi_timer\<close> with the time it asks for.
\<close>

record timer_stats_t =
  total_interrupts :: u64
  total_seconds :: u64
  last_interrupt_time :: u64

record timer_machine = heap_machine +
  g_system_ticks :: u64
  g_timer_frequency :: u64
  g_uptime_seconds :: u64
  g_tick_counter :: u32
  g_timer_stats :: timer_stats_t

section \<open>Operations\<close>

definition timer_reset_stats :: "'a timer_machine_scheme \<Rightarrow> 'a timer_machine_scheme" where
  "timer_reset_stats w = w\<lparr>g_timer_stats :=
     \<lparr>total_interrupts = 0, total_seconds = 0, last_interrupt_time = 0\<rparr>\<rparr>"

definition timer_disable :: "'a timer_machine_scheme \<Rightarrow> 'a timer_machine_scheme option" where
  "timer_disable w =
     (let sie = READ_SIE w;
          sie = sie AND NOT SIE_STIE
      in say (logger_info (''Timer disabled'' @ nl) []) (CSR_WRITE_sie sie w))"

definition timer_set_next_interrupt :: "u64 \<Rightarrow> 'a timer_machine_scheme \<Rightarrow> 'a timer_machine_scheme" where
  "timer_set_next_interrupt ticks_from_now w =
     (let (current_time, w) = READ_TIME w;
          next_time = current_time + ticks_from_now
      in w\<lparr>sbi_timer := sbi_timer w @ [next_time]\<rparr>)"

definition timer_schedule_next_tick :: "'a timer_machine_scheme \<Rightarrow> 'a timer_machine_scheme" where
  "timer_schedule_next_tick w =
     (let ticks_per_interrupt = g_timer_frequency w div TIMER_FREQUENCY_HZ
      in timer_set_next_interrupt ticks_per_interrupt w)"

definition timer_get_system_ticks :: "'a timer_machine_scheme \<Rightarrow> u64" where
  "timer_get_system_ticks w = g_system_ticks w"

definition timer_get_uptime_ms :: "'a timer_machine_scheme \<Rightarrow> u64" where
  "timer_get_uptime_ms w = g_system_ticks w * TIMER_TICK_MS"

definition timer_get_uptime_seconds :: "'a timer_machine_scheme \<Rightarrow> u64" where
  "timer_get_uptime_seconds w = g_uptime_seconds w"

definition timer_get_frequency :: "'a timer_machine_scheme \<Rightarrow> u64" where
  "timer_get_frequency w = g_timer_frequency w"

text \<open>The destination is \<open>None\<close> for a null pointer.\<close>

definition timer_get_stats :: "timer_stats_t option \<Rightarrow> 'a timer_machine_scheme \<Rightarrow> timer_stats_t option" where
  "timer_get_stats stats w = (case stats of None \<Rightarrow> None | Some _ \<Rightarrow> Some (g_timer_stats w))"

definition timer_init :: "'a timer_machine_scheme \<Rightarrow> 'a timer_machine_scheme option" where
  "timer_init w = do {
     w \<leftarrow> say (logger_info (''Timer initialization:'' @ nl) []) w;
     w \<leftarrow> say (logger_info (''  Timer frequency: %llu Hz'' @ nl) [g_timer_frequency w]) w;
     w \<leftarrow> say (logger_info (''  Target frequency: %d Hz'' @ nl) [TIMER_FREQUENCY_HZ]) w;
     w \<leftarrow> say (logger_info (''  Tick interval: %d ms'' @ nl) [TIMER_TICK_MS]) w;
     w \<leftarrow> timer_disable w;
     let w = timer_reset_stats w;
     say (logger_info (''Timer initialized successfully'' @ nl) []) w }"

definition timer_enable :: "'a timer_machine_scheme \<Rightarrow> 'a timer_machine_scheme option" where
  "timer_enable w = do {
     w \<leftarrow> say (logger_debug (''Starting timer_enable...'' @ nl) []) w;
     let ticks_per_interrupt = g_timer_frequency w div TIMER_FREQUENCY_HZ;
     w \<leftarrow> say (logger_info (''Timer enabled with %llu ticks per interrupt'' @ nl) [ticks_per_interrupt]) w;
     w \<leftarrow> say (logger_debug (''Setting next interrupt...'' @ nl) []) w;
     let w = timer_set_next_interrupt ticks_per_interrupt w;
     w \<leftarrow> say (logger_debug (''Interrupt time set, enabling MTIE...'' @ nl) []) w;
     let sie = READ_SIE w;
     let sie = sie OR SIE_STIE;
     let w = CSR_WRITE_sie sie w;
     say (logger_info (''Machine timer interrupt enabled'' @ nl) []) w }"

definition timer_handler :: "'a timer_machine_scheme \<Rightarrow> 'a timer_machine_scheme option" where
  "timer_handler w = do {
     let w = w\<lparr>g_system_ticks := g_system_ticks w + 1\<rparr>;
     let w = w\<lparr>g_tick_counter := g_tick_counter w + 1\<rparr>;
     let w = w\<lparr>g_timer_stats := (g_timer_stats w)\<lparr>total_interrupts := total_interrupts (g_timer_stats w) + 1\<rparr>\<rparr>;
     let w = w\<lparr>g_timer_stats := (g_timer_stats w)\<lparr>last_interrupt_time := timer_get_uptime_ms w\<rparr>\<rparr>;
     w \<leftarrow> (if g_tick_counter w \<ge> ucast TIMER_FREQUENCY_HZ then do {
              let w = w\<lparr>g_uptime_seconds := g_uptime_seconds w + 1\<rparr>;
              let w = w\<lparr>g_tick_counter := 0\<rparr>;
              let w = w\<lparr>g_timer_stats := (g_timer_stats w)\<lparr>total_seconds := g_uptime_seconds w\<rparr>\<rparr>;
              say (logger_info (''System running - Uptime: %llus'' @ nl) [g_uptime_seconds w]) w }
            else Some w);
     Some (timer_schedule_next_tick w) }"

text \<open>\<^verbatim>\<open>while (READ_TIME() < target_time) nop;\<close>\<close>

definition wait_until :: "u64 \<Rightarrow> 'a machine_scheme \<Rightarrow> 'a machine_scheme option" where
  "wait_until target_time = busy_wait (\<lambda>w. let (t, w) = READ_TIME w in (\<not> t < target_time, w))"

definition timer_delay_ms :: "u32 \<Rightarrow> 'a timer_machine_scheme \<Rightarrow> 'a timer_machine_scheme option" where
  "timer_delay_ms ms w =
     (let (start_time, w) = READ_TIME w;
          delay_ticks = (g_timer_frequency w * ucast ms) div 1000;
          target_time = start_time + delay_ticks
      in wait_until target_time w)"

definition timer_delay_us :: "u32 \<Rightarrow> 'a timer_machine_scheme \<Rightarrow> 'a timer_machine_scheme option" where
  "timer_delay_us us w =
     (let (start_time, w) = READ_TIME w;
          delay_ticks = (g_timer_frequency w * ucast us) div 1000000;
          target_time = start_time + delay_ticks
      in wait_until target_time w)"

definition timer_dump_info :: "'a timer_machine_scheme \<Rightarrow> 'a timer_machine_scheme option" where
  "timer_dump_info w = do {
     w \<leftarrow> say (logger_info (nl @ ''=== Timer Information ==='' @ nl) []) w;
     w \<leftarrow> say (logger_info (''System Ticks: %llu'' @ nl) [g_system_ticks w]) w;
     w \<leftarrow> say (logger_info (''Uptime: %llu seconds (%llu ms)'' @ nl) [g_uptime_seconds w, timer_get_uptime_ms w]) w;
     w \<leftarrow> say (logger_info (''Timer Frequency: %llu Hz'' @ nl) [g_timer_frequency w]) w;
     w \<leftarrow> say (logger_info (''Total Interrupts: %llu'' @ nl) [total_interrupts (g_timer_stats w)]) w;
     say (logger_info (''========================'' @ nl) []) w }"

section \<open>Messages\<close>

text \<open>A message without arguments, and one with a number in the middle.\<close>

lemma prints_note:
  assumes "37 \<notin> set (str s)"
  shows "prints (say (logger_output level (str s) va)) (\<lambda>ty. log_line level (str s))"
  using formats_lit [OF assms] by (intro prints_say)

lemma prints_llu:
  assumes "37 \<notin> set (str a)" and "37 \<notin> set (str b)"
  shows "prints (say (logger_output level (str (a @ ''%llu'' @ b)) [v]))
    (\<lambda>ty. log_line level (str a @ show_nat 10 (unat v) @ str b))"
proof (intro prints_say)
  fix m
  have "formats m (str ''%llu'' @ str b) [v] (show_nat 10 (unat v) @ str b)"
    using formats_lit [OF assms(2)] by (rule formats_llu)
  then show "formats m (str (a @ ''%llu'' @ b)) [v] (str a @ show_nat 10 (unat v) @ str b)"
    using formats_plain [OF assms(1)] by (simp only: str_append)
qed

lemma outputs_if:
  "outputs f bs w \<Longrightarrow> \<exists>v. (if b then f w else Some w) = Some v \<and> uart_io 0 (if b then bs else []) w v"
  using uart_io_refl [of w] by (auto simp: outputs_def)

section \<open>The clock\<close>

text \<open>
  \<open>clock_at n w\<close>: the counters of \<open>w\<close> stand at the \<open>n\<close>-th tick, a hundred ticks to a second.
\<close>

definition clock_at :: "nat \<Rightarrow> 'a timer_machine_scheme \<Rightarrow> bool" where
  "clock_at n w \<longleftrightarrow> g_system_ticks w = of_nat n \<and> g_tick_counter w = of_nat (n mod 100) \<and>
     g_uptime_seconds w = of_nat (n div 100)"

text \<open>What tick \<open>n\<close> prints, and the state it leaves.\<close>

definition tick_text :: "nat \<Rightarrow> u8 list" where
  "tick_text n = (if n mod 100 = 0
     then log_line LOG_LEVEL_INFO (str ''System running - Uptime: '' @ show_nat 10 (n div 100 mod 2 ^ 64) @ str ''s'' @ str nl)
     else [])"

definition tick_state :: "nat \<Rightarrow> 'a timer_machine_scheme \<Rightarrow> 'a timer_machine_scheme" where
  "tick_state n w = w\<lparr>g_system_ticks := of_nat n, g_tick_counter := of_nat (n mod 100), g_uptime_seconds := of_nat (n div 100),
     g_timer_stats := \<lparr>total_interrupts = total_interrupts (g_timer_stats w) + 1,
       total_seconds = (if n mod 100 = 0 then of_nat (n div 100) else total_seconds (g_timer_stats w)),
       last_interrupt_time = of_nat (10 * n)\<rparr>,
     time_cnt := Suc (time_cnt w),
     sbi_timer := sbi_timer w @ [time_rd w (time_cnt w) + g_timer_frequency w div 100]\<rparr>"

lemma clock_tick_state: "clock_at n (tick_state n w)"
  by (simp add: clock_at_def tick_state_def)

lemma Suc_mod_100: "Suc n mod 100 = (if n mod 100 = 99 then 0 else Suc (n mod 100))"
  and Suc_div_100: "Suc n div 100 = (if n mod 100 = 99 then Suc (n div 100) else n div 100)"
  by (simp_all add: mod_Suc div_Suc)

lemma TIMER_FREQUENCY_HZ_eq [simp]: "TIMER_FREQUENCY_HZ = 100"
  by (simp add: TIMER_FREQUENCY_HZ_def TIMER_TICK_MS_def)

text \<open>The counters after one more tick, and the message of a whole second.\<close>

definition count_tick :: "nat \<Rightarrow> 'a timer_machine_scheme \<Rightarrow> 'a timer_machine_scheme" where
  "count_tick n w = w\<lparr>g_system_ticks := of_nat (Suc n), g_tick_counter := of_nat (Suc n mod 100),
     g_uptime_seconds := of_nat (Suc n div 100),
     g_timer_stats := \<lparr>total_interrupts = total_interrupts (g_timer_stats w) + 1,
       total_seconds = (if Suc n mod 100 = 0 then of_nat (Suc n div 100) else total_seconds (g_timer_stats w)),
       last_interrupt_time = of_nat (10 * Suc n)\<rparr>\<rparr>"

abbreviation say_uptime :: "'a timer_machine_scheme \<Rightarrow> 'a timer_machine_scheme option" where
  "say_uptime u \<equiv> say (logger_info (''System running - Uptime: %llus'' @ nl) [g_uptime_seconds u]) u"

lemma second_is_over: "(100 :: u32) \<le> of_nat (n mod 100) + 1 \<longleftrightarrow> n mod 100 = 99"
proof -
  have lt: "n mod 100 < 100" by simp
  then have "unat (of_nat (Suc (n mod 100)) :: u32) = Suc (n mod 100)" by (subst unat_of_nat) simp
  moreover have "unat (100 :: u32) = 100" by simp
  ultimately have "(100 :: u32) \<le> of_nat (Suc (n mod 100)) \<longleftrightarrow> 100 \<le> Suc (n mod 100)"
    by (simp only: word_le_nat_alt)
  then show ?thesis using lt by (auto simp: add.commute)
qed

lemma timer_handler_count:
  assumes clock: "clock_at n w"
  shows "timer_handler w = do {
    v \<leftarrow> (if Suc n mod 100 = 0 then say_uptime (count_tick n w) else Some (count_tick n w));
    Some (timer_schedule_next_tick v) }"
proof -
  let ?s = "g_timer_stats w"
  have counter: "(100 :: u32) \<le> g_tick_counter w + 1 \<longleftrightarrow> n mod 100 = 99"
    using clock second_is_over by (simp add: clock_at_def)
  have u: "count_tick n w = (if n mod 100 = 99
    then w\<lparr>g_system_ticks := g_system_ticks w + 1, g_uptime_seconds := g_uptime_seconds w + 1, g_tick_counter := 0,
        g_timer_stats := ?s\<lparr>total_interrupts := total_interrupts ?s + 1,
          last_interrupt_time := (g_system_ticks w + 1) * 10, total_seconds := g_uptime_seconds w + 1\<rparr>\<rparr>
    else w\<lparr>g_system_ticks := g_system_ticks w + 1, g_tick_counter := g_tick_counter w + 1,
        g_timer_stats := ?s\<lparr>total_interrupts := total_interrupts ?s + 1,
          last_interrupt_time := (g_system_ticks w + 1) * 10\<rparr>\<rparr>)"
    using clock
    by (cases ?s) (simp add: count_tick_def clock_at_def Suc_mod_100 Suc_div_100 add.commute distrib_right)
  show ?thesis
    unfolding u using counter
    by (simp add: timer_handler_def timer_get_uptime_ms_def TIMER_TICK_MS_def Suc_mod_100)
qed

lemma say_uptime_text:
  assumes "uart_live w"
  shows "\<exists>v. (if Suc n mod 100 = 0 then say_uptime (count_tick n w) else Some (count_tick n w)) = Some v \<and>
    uart_io 0 (tick_text (Suc n)) (count_tick n w) v"
proof -
  let ?u = "count_tick n w"
  let ?t = "str ''System running - Uptime: '' @ show_nat 10 (unat (g_uptime_seconds ?u)) @ str (''s'' @ nl)"
  have "plat ?u = plat w" "uart_ty ?u = uart_ty w" "mmio_rd ?u = mmio_rd w" by (simp_all add: count_tick_def)
  then have live: "uart_live ?u" using assms uart_live_cong by blast
  have say: "outputs (say (logger_info (''System running - Uptime: %llus'' @ nl) [g_uptime_seconds ?u]))
      (log_line LOG_LEVEL_INFO ?t) ?u"
    using outputs_print [OF prints_llu [of "''System running - Uptime: ''" "''s'' @ nl" LOG_LEVEL_INFO] live]
    by (simp add: log_defs nl_def)
  have "tick_text (Suc n) = (if Suc n mod 100 = 0 then log_line LOG_LEVEL_INFO ?t else [])"
    by (simp add: tick_text_def count_tick_def unat_of_nat)
  then show ?thesis using outputs_if [OF say, of "Suc n mod 100 = 0"] by simp
qed

text \<open>One interrupt is one tick of the clock.\<close>

lemma timer_handler_tick:
  assumes "uart_live w" and clock: "clock_at n w"
  shows "\<exists>w'. timer_handler w = Some w' \<and> uart_io 0 (tick_text (Suc n)) (tick_state (Suc n) w) w'"
proof -
  obtain v where v: "(if Suc n mod 100 = 0 then say_uptime (count_tick n w) else Some (count_tick n w)) = Some v"
    "uart_io 0 (tick_text (Suc n)) (count_tick n w) v"
    using say_uptime_text [OF assms(1), of n] by blast
  have "uart_io 0 (tick_text (Suc n)) (timer_schedule_next_tick (count_tick n w)) (timer_schedule_next_tick v)"
    by (rule uart_io_upd [OF _ _ _ _ _ v(2)])
      (simp_all add: timer_schedule_next_tick_def timer_set_next_interrupt_def READ_TIME_def)
  moreover have "timer_schedule_next_tick (count_tick n w) = tick_state (Suc n) w"
    by (simp add: timer_schedule_next_tick_def timer_set_next_interrupt_def READ_TIME_def count_tick_def tick_state_def)
  ultimately show ?thesis using timer_handler_count [OF clock] v(1) by simp
qed

section \<open>Runs of ticks\<close>

fun timer_ticks :: "nat \<Rightarrow> 'a timer_machine_scheme \<Rightarrow> 'a timer_machine_scheme option" where
  "timer_ticks 0 w = Some w"
| "timer_ticks (Suc n) w = do { w \<leftarrow> timer_ticks n w; timer_handler w }"

text \<open>The state after \<open>n\<close> further ticks of a clock that stood at \<open>k\<close>.\<close>

definition after_ticks :: "nat \<Rightarrow> nat \<Rightarrow> 'a timer_machine_scheme \<Rightarrow> 'a timer_machine_scheme \<Rightarrow> bool" where
  "after_ticks k n w w' \<longleftrightarrow> uart_live w' \<and> clock_at (k + n) w' \<and>
     total_interrupts (g_timer_stats w') = total_interrupts (g_timer_stats w) + of_nat n \<and>
     last_interrupt_time (g_timer_stats w') = (if n = 0 then last_interrupt_time (g_timer_stats w) else of_nat (10 * (k + n))) \<and>
     total_seconds (g_timer_stats w') =
       (if (k + n) div 100 = k div 100 then total_seconds (g_timer_stats w) else of_nat ((k + n) div 100)) \<and>
     sbi_timer w' = sbi_timer w @ map (\<lambda>i. time_rd w (time_cnt w + i) + g_timer_frequency w div 100) [0..<n] \<and>
     mmio_log w' = mmio_log w @ map (\<lambda>b. (uart_data w, ucast b)) (concat (map (\<lambda>i. tick_text (Suc (k + i))) [0..<n])) \<and>
     time_cnt w' = time_cnt w + n \<and> time_rd w' = time_rd w \<and> uart_data w' = uart_data w \<and>
     g_timer_frequency w' = g_timer_frequency w \<and> ram w' = ram w \<and> heap w' = heap w \<and>
     csr_sie w' = csr_sie w \<and> csr_sstatus w' = csr_sstatus w"

lemma timer_more_io:
  fixes w w' :: "'a timer_machine_scheme"
  assumes "uart_io k bs w w'"
  shows "g_system_ticks w' = g_system_ticks w" "g_tick_counter w' = g_tick_counter w"
    "g_uptime_seconds w' = g_uptime_seconds w" "g_timer_stats w' = g_timer_stats w"
    "g_timer_frequency w' = g_timer_frequency w" "heap w' = heap w" "timer_machine.more w' = timer_machine.more w"
  using assms by (auto simp: uart_io_def)

lemma tick_state_same:
  "plat (tick_state n w) = plat w" "uart_ty (tick_state n w) = uart_ty w" "mmio_rd (tick_state n w) = mmio_rd w"
  "mmio_log (tick_state n w) = mmio_log w"
  by (simp_all add: tick_state_def)

lemma after_ticks_Suc:
  assumes "after_ticks k n w v" and io: "uart_io 0 (tick_text (Suc (k + n))) (tick_state (Suc (k + n)) v) w'"
  shows "after_ticks k (Suc n) w w'"
proof -
  let ?t = "tick_state (Suc (k + n)) v"
  have "uart_live ?t = uart_live v" by (rule uart_live_cong) (rule tick_state_same)+
  then have "uart_live ?t" using assms(1) by (simp add: after_ticks_def)
  then have live: "uart_live w'" using io by (rule uart_live_io)
  have data: "uart_data ?t = uart_data v" by (simp add: uart_data_def tick_state_same)
  have clock: "clock_at (Suc (k + n)) w'"
    using clock_tick_state [of "Suc (k + n)" v] timer_more_io [OF io] by (simp only: clock_at_def)
  have last: "last_interrupt_time (g_timer_stats w') = of_nat (10 * Suc (k + n))"
    using timer_more_io(4) [OF io] by (simp only: tick_state_def) simp
  have "total_seconds (g_timer_stats w') =
      (if Suc (k + n) mod 100 = 0 then of_nat (Suc (k + n) div 100) else total_seconds (g_timer_stats v))"
    using timer_more_io(4) [OF io] by (simp only: tick_state_def) simp
  moreover have "k div 100 \<le> (k + n) div 100" by (simp add: div_le_mono)
  ultimately have secs: "total_seconds (g_timer_stats w') =
      (if (k + Suc n) div 100 = k div 100 then total_seconds (g_timer_stats w) else of_nat ((k + Suc n) div 100))"
    using assms(1) Suc_mod_100 [of "k + n"] Suc_div_100 [of "k + n"] unfolding after_ticks_def by (auto split: if_splits)
  have rest: "total_interrupts (g_timer_stats w') = total_interrupts (g_timer_stats v) + 1"
    "sbi_timer w' = sbi_timer v @ [time_rd v (time_cnt v) + g_timer_frequency v div 100]"
    "time_cnt w' = Suc (time_cnt v)" "time_rd w' = time_rd v" "g_timer_frequency w' = g_timer_frequency v"
    "ram w' = ram v" "heap w' = heap v" "csr_sie w' = csr_sie v" "csr_sstatus w' = csr_sstatus v"
    using timer_more_io [OF io] uart_io_frame [OF io] by (simp_all only: tick_state_def) simp_all
  have log: "mmio_log w' = mmio_log v @ map (\<lambda>b. (uart_data v, ucast b)) (tick_text (Suc (k + n)))" "uart_data w' = uart_data v"
    using uart_io_regs [OF io] data by (simp_all add: tick_state_same)
  show ?thesis
    using assms(1) live clock last secs rest log unfolding after_ticks_def by simp
qed

lemma timer_ticks_run:
  assumes "uart_live w" and "clock_at k w"
  shows "\<exists>w'. timer_ticks n w = Some w' \<and> after_ticks k n w w'"
proof (induction n)
  case 0
  then show ?case using assms by (simp add: after_ticks_def)
next
  case (Suc n)
  then obtain v where v: "timer_ticks n w = Some v" "after_ticks k n w v" by blast
  then obtain w' where "timer_handler v = Some w'" "uart_io 0 (tick_text (Suc (k + n))) (tick_state (Suc (k + n)) v) w'"
    using timer_handler_tick [of v "k + n"] unfolding after_ticks_def by blast
  then show ?case using v after_ticks_Suc by auto
qed

section \<open>Delays\<close>

text \<open>
  Waiting reads the counter until its value is not below the target; every earlier value was.
\<close>

lemma wait_until_from:
  assumes "target \<le> time_rd w j" and "c \<le> j"
  shows "\<exists>n > c. wait_until target (w\<lparr>time_cnt := c\<rparr>) = Some (w\<lparr>time_cnt := n\<rparr>) \<and>
    target \<le> time_rd w (n - 1) \<and> (\<forall>i. c \<le> i \<and> Suc i < n \<longrightarrow> time_rd w i < target)"
  using assms(2)
proof (induction "j - c" arbitrary: c rule: less_induct)
  case less
  show ?case
  proof (cases "time_rd w c < target")
    case True
    then have "c < j" using less.prems assms(1) by (metis le_neq_implies_less not_le)
    then have "j - Suc c < j - c" "Suc c \<le> j" by simp_all
    from less.hyps [OF this] obtain n where n: "Suc c < n" "wait_until target (w\<lparr>time_cnt := Suc c\<rparr>) = Some (w\<lparr>time_cnt := n\<rparr>)"
      "target \<le> time_rd w (n - 1)" "\<forall>i. Suc c \<le> i \<and> Suc i < n \<longrightarrow> time_rd w i < target"
      by blast
    then show ?thesis
      using True by (intro exI [of _ n]) (auto simp: wait_until_def busy_wait.simps [of _ "w\<lparr>time_cnt := c\<rparr>"] READ_TIME_def
          dest: le_eq_less_or_eq [THEN iffD1])
  next
    case False
    then show ?thesis
      by (intro exI [of _ "Suc c"]) (auto simp: wait_until_def busy_wait.simps [of _ "w\<lparr>time_cnt := c\<rparr>"] READ_TIME_def)
  qed
qed

text \<open>
  The counter value at which a delay of \<open>d\<close> units ends, \<open>scale\<close> of them to a second; the code
  computes it if neither the product nor the sum wraps.
\<close>

definition delay_end :: "u64 \<Rightarrow> u64 \<Rightarrow> u32 \<Rightarrow> u64 \<Rightarrow> nat" where
  "delay_end start freq d scale = unat start + unat freq * unat d div unat scale"

lemma delay_target:
  assumes "unat f < 2 ^ 32" and "delay_end start f d scale < 2 ^ 64"
  shows "unat (start + (f * ucast d) div scale :: u64) = delay_end start f d scale"
proof -
  have d: "unat d < 2 ^ 32" using unsigned_less [of d] by simp
  then have up: "unat (ucast d :: u64) = unat d" by (simp add: unsigned_ucast_eq take_bit_nat_eq_self)
  have "unat f * unat d < 2 ^ 32 * 2 ^ 32" using assms(1) d by (intro mult_strict_mono) simp_all
  then have "unat (f * ucast d :: u64) = unat f * unat d"
    by (subst unat_mult_lem [THEN iffD1]) (simp_all add: up)
  then have "unat ((f * ucast d) div scale) = unat f * unat d div unat scale" by (simp add: unat_div)
  then show ?thesis using assms(2) unfolding delay_end_def by (subst unat_add_lem [THEN iffD1]) simp_all
qed

lemma delay_waits:
  assumes "unat f < 2 ^ 32" and "delay_end (time_rd w c) f d scale < 2 ^ 64"
    and "\<exists>j > c. delay_end (time_rd w c) f d scale \<le> unat (time_rd w j)"
  shows "\<exists>n > Suc c. wait_until (time_rd w c + (f * ucast d) div scale) (w\<lparr>time_cnt := Suc c\<rparr>) = Some (w\<lparr>time_cnt := n\<rparr>) \<and>
    delay_end (time_rd w c) f d scale \<le> unat (time_rd w (n - 1)) \<and>
    (\<forall>i. c < i \<and> Suc i < n \<longrightarrow> unat (time_rd w i) < delay_end (time_rd w c) f d scale)"
proof -
  let ?t = "time_rd w c + (f * ucast d) div scale"
  note t = delay_target [OF assms(1,2)]
  have "\<exists>j. Suc c \<le> j \<and> ?t \<le> time_rd w j"
    using assms(3) unfolding word_le_nat_alt t Suc_le_eq by blast
  then obtain j where j: "Suc c \<le> j" "?t \<le> time_rd w j" by blast
  show ?thesis
    using wait_until_from [OF j(2,1)] by (simp add: word_le_nat_alt word_less_nat_alt t Suc_le_eq)
qed

lemma timer_delay_us_waits:
  assumes "unat (g_timer_frequency w) < 2 ^ 32" and "delay_end (time_rd w (time_cnt w)) (g_timer_frequency w) us 1000000 < 2 ^ 64"
    and "\<exists>j > time_cnt w. delay_end (time_rd w (time_cnt w)) (g_timer_frequency w) us 1000000 \<le> unat (time_rd w j)"
  shows "\<exists>n > Suc (time_cnt w). timer_delay_us us w = Some (w\<lparr>time_cnt := n\<rparr>) \<and>
    delay_end (time_rd w (time_cnt w)) (g_timer_frequency w) us 1000000 \<le> unat (time_rd w (n - 1))"
  using delay_waits [OF assms] by (auto simp: timer_delay_us_def READ_TIME_def)

section \<open>Enabling and disabling\<close>

lemma performs_note:
  "37 \<notin> set (str s) \<Longrightarrow> performs (\<lambda>w. True) (say (logger_output level (str s) va)) (\<lambda>w. w) (\<lambda>w. log_line level (str s))"
  by (rule performs_print [OF prints_note])

lemma performs_llu:
  "37 \<notin> set (str a) \<Longrightarrow> 37 \<notin> set (str b) \<Longrightarrow>
   performs (\<lambda>w. True) (say (logger_output level (str (a @ ''%llu'' @ b)) [v])) (\<lambda>w. w)
     (\<lambda>w. log_line level (str a @ show_nat 10 (unat v) @ str b))"
  by (rule performs_print [OF prints_llu])

definition enable_state :: "'a timer_machine_scheme \<Rightarrow> 'a timer_machine_scheme" where
  "enable_state w = w\<lparr>time_cnt := Suc (time_cnt w),
     sbi_timer := sbi_timer w @ [time_rd w (time_cnt w) + g_timer_frequency w div 100],
     csr_sie := csr_sie w OR 32\<rparr>"

definition enable_text :: "u64 \<Rightarrow> u8 list" where
  "enable_text freq = log_line LOG_LEVEL_DEBUG (str (''Starting timer_enable...'' @ nl)) @
     log_line LOG_LEVEL_INFO (str ''Timer enabled with '' @ show_nat 10 (unat (freq div 100)) @ str ('' ticks per interrupt'' @ nl)) @
     log_line LOG_LEVEL_DEBUG (str (''Setting next interrupt...'' @ nl)) @
     log_line LOG_LEVEL_DEBUG (str (''Interrupt time set, enabling MTIE...'' @ nl)) @
     log_line LOG_LEVEL_INFO (str (''Machine timer interrupt enabled'' @ nl))"

lemma neutral_csr_sie: "neutral (\<lambda>w. CSR_WRITE_sie (f (READ_SIE w)) w)"
  by (rule neutralI) (simp_all add: CSR_WRITE_sie_def READ_SIE_def)

lemma neutral_set_next: "neutral (timer_set_next_interrupt n)"
  by (rule neutralI) (simp_all add: timer_set_next_interrupt_def READ_TIME_def)

text \<open>The messages of the module end in a line feed.\<close>

lemma performs_line:
  "37 \<notin> set (str s) \<Longrightarrow>
   performs (\<lambda>w. True) (say (logger_output level (str (s @ nl)) va)) (\<lambda>w. w) (\<lambda>w. log_line level (str (s @ nl)))"
  by (rule performs_note) (simp add: nl_def)

lemma timer_enable_performs: "performs (\<lambda>w. True) timer_enable enable_state (\<lambda>w. enable_text (g_timer_frequency w))"
proof -
  let ?m = "\<lambda>level s. say (logger_output level (str (s @ nl)) [])"
  let ?llu = "\<lambda>v. say (logger_output LOG_LEVEL_INFO (str (''Timer enabled with '' @ ''%llu'' @ '' ticks per interrupt'' @ nl)) [v])"
  let ?t = "\<lambda>v. log_line LOG_LEVEL_INFO (str ''Timer enabled with '' @ show_nat 10 (unat v) @ str ('' ticks per interrupt'' @ nl))"
  let ?csr = "\<lambda>w. CSR_WRITE_sie (READ_SIE w OR SIE_STIE) w" and ?freq = "\<lambda>w. g_timer_frequency w div TIMER_FREQUENCY_HZ"
  let ?s1 = "''Starting timer_enable...''" and ?s2 = "''Setting next interrupt...''"
    and ?s3 = "''Interrupt time set, enabling MTIE...''" and ?s4 = "''Machine timer interrupt enabled''"
  let ?l = "\<lambda>level s. log_line level (str (s @ nl))"
  have plain: "37 \<notin> set (str ?s1)" "37 \<notin> set (str ?s2)" "37 \<notin> set (str ?s3)" "37 \<notin> set (str ?s4)" by simp_all
  have m3: "performs (\<lambda>w. True) (\<lambda>w. ?m LOG_LEVEL_DEBUG ?s3 (timer_set_next_interrupt v w)) (timer_set_next_interrupt v)
      (\<lambda>w. ?l LOG_LEVEL_DEBUG ?s3)" for v
    by (rule performs_after_update [OF neutral_set_next performs_line [OF plain(3)]]) (simp_all add: steady_const)
  have m4: "performs (\<lambda>w. True) (\<lambda>w. ?m LOG_LEVEL_INFO ?s4 (?csr w)) ?csr (\<lambda>w. ?l LOG_LEVEL_INFO ?s4)"
    by (rule performs_after_update [OF neutral_csr_sie performs_line [OF plain(4)]]) (simp_all add: steady_const)
  have llu: "performs (\<lambda>w. True) (?llu v) (\<lambda>w. w) (\<lambda>w. ?t v)" for v
    by (rule performs_llu) (simp_all add: nl_def)
  note rest = performs_bind [OF llu performs_bind [OF performs_line [OF plain(2)] performs_bind [OF m3 m4]]]
  have "performs (\<lambda>w. True) (\<lambda>w. ?llu v w \<bind> (\<lambda>w. ?m LOG_LEVEL_DEBUG ?s2 w \<bind>
      (\<lambda>w. ?m LOG_LEVEL_DEBUG ?s3 (timer_set_next_interrupt v w) \<bind> (\<lambda>w. ?m LOG_LEVEL_INFO ?s4 (?csr w)))))
      (\<lambda>w. ?csr (timer_set_next_interrupt v w))
      (\<lambda>w. ?t v @ ?l LOG_LEVEL_DEBUG ?s2 @ ?l LOG_LEVEL_DEBUG ?s3 @ ?l LOG_LEVEL_INFO ?s4)" for v
    by (rule rest) simp_all
  note read = performs_read [OF this, of ?freq]
  have all: "performs (\<lambda>w. True) timer_enable (\<lambda>w. ?csr (timer_set_next_interrupt (?freq w) w))
      (\<lambda>w. ?l LOG_LEVEL_DEBUG ?s1 @ ?t (?freq w) @ ?l LOG_LEVEL_DEBUG ?s2 @ ?l LOG_LEVEL_DEBUG ?s3 @ ?l LOG_LEVEL_INFO ?s4)"
    using performs_bind [OF performs_line [OF plain(1)] read] 
    unfolding timer_enable_def [abs_def] Let_def log_defs
    by (simp add: steady_def)
  show ?thesis
    by (rule performs_cong [OF all])
      (simp_all add: enable_state_def enable_text_def timer_set_next_interrupt_def READ_TIME_def CSR_WRITE_sie_def
        READ_SIE_def SIE_STIE_def neutral_def steady_def)
qed

lemma timer_disable_performs:
  "performs (\<lambda>w. True) timer_disable (\<lambda>w. CSR_WRITE_sie (READ_SIE w AND NOT SIE_STIE) w)
     (\<lambda>w. log_line LOG_LEVEL_INFO (str (''Timer disabled'' @ nl)))"
  unfolding timer_disable_def [abs_def] Let_def log_defs
  by (rule performs_after_update [OF neutral_csr_sie performs_line]) (simp_all add: steady_const)

lemma timer_handler_performs:
  "performs (clock_at n) timer_handler (tick_state (Suc n)) (\<lambda>w. tick_text (Suc n))"
proof -
  have "neutral (tick_state (Suc n))" by (rule neutralI) (simp_all add: tick_state_def)
  moreover have "steady (clock_at n)" by (simp add: steady_def clock_at_def)
  ultimately show ?thesis
    unfolding performs_def using timer_handler_tick by (blast intro: steady_const)
qed

section \<open>Properties\<close>

text \<open>The variables as they are loaded.\<close>

definition timer_boot :: "heap_machine \<Rightarrow> timer_machine" where
  "timer_boot w = heap_machine.extend w (timer_machine.fields 0 TIMER_FREQ_HZ 0 0
     \<lparr>total_interrupts = 0, total_seconds = 0, last_interrupt_time = 0\<rparr>)"

definition demo_timer_machine :: timer_machine where
  "demo_timer_machine = timer_boot demo_heap_machine"

lemma timer_boot_fields:
  "plat (timer_boot w) = plat w" "uart_ty (timer_boot w) = uart_ty w" "mmio_rd (timer_boot w) = mmio_rd w"
  "time_rd (timer_boot w) = time_rd w" "time_cnt (timer_boot w) = time_cnt w" "g_timer_frequency (timer_boot w) = 10000000"
  "csr_sie (timer_boot w) = csr_sie w" "sbi_timer (timer_boot w) = sbi_timer w"
  by (simp_all add: timer_boot_def timer_machine.defs heap_machine.defs TIMER_FREQ_HZ_def)

lemma timer_boot_clock: "clock_at 0 (timer_boot w)"
  by (simp add: clock_at_def timer_boot_def timer_machine.defs heap_machine.defs)

lemma demo_timer_facts:
  "uart_live demo_timer_machine" "clock_at 0 demo_timer_machine" "g_timer_frequency demo_timer_machine = 10000000"
  "time_rd demo_timer_machine = of_nat" "time_cnt demo_timer_machine = 0" "csr_sie demo_timer_machine = 0"
  "sbi_timer demo_timer_machine = []"
proof -
  have "uart_live (timer_boot demo_heap_machine) = uart_live demo_heap_machine"
    by (rule uart_live_cong) (rule timer_boot_fields)+
  then show "uart_live demo_timer_machine" using demo_heap_machine_facts(1) by (simp add: demo_timer_machine_def)
qed (simp_all add: demo_timer_machine_def timer_boot_clock timer_boot_fields demo_heap_machine_def ready_machine_def)

text \<open>
  C21.  The clock: from tick \<open>k\<close> on, \<open>n\<close> timer interrupts return with the tick count, the
  seconds and the ticks within the second those of \<open>k + n\<close>; the statistics have counted them all, and hold the uptime
  in milliseconds at the last of them and the seconds at the last full second they passed.  They have asked the firmware for \<open>n\<close> interrupts, each
  a tick after the time it was asked at, have printed the uptime at every full second and
  nothing else, and left the heap, the memory and the CSRs alone.
\<close>

theorem timer_ticks_counted:
  assumes "uart_live w" and "clock_at k w"
  shows "\<exists>w'. timer_ticks n w = Some w' \<and>
    timer_get_system_ticks w' = of_nat (k + n) \<and> timer_get_uptime_seconds w' = of_nat ((k + n) div 100) \<and>
    timer_get_uptime_ms w' = of_nat (10 * (k + n)) \<and> g_tick_counter w' = of_nat ((k + n) mod 100) \<and>
    total_interrupts (g_timer_stats w') = total_interrupts (g_timer_stats w) + of_nat n \<and>
    last_interrupt_time (g_timer_stats w') = (if n = 0 then last_interrupt_time (g_timer_stats w) else of_nat (10 * (k + n))) \<and>
    total_seconds (g_timer_stats w') =
      (if (k + n) div 100 = k div 100 then total_seconds (g_timer_stats w) else of_nat ((k + n) div 100)) \<and>
    sbi_timer w' = sbi_timer w @ map (\<lambda>i. time_rd w (time_cnt w + i) + g_timer_frequency w div 100) [0..<n] \<and>
    mmio_log w' = mmio_log w @ map (\<lambda>b. (uart_data w, ucast b)) (concat (map (\<lambda>i. tick_text (Suc (k + i))) [0..<n])) \<and>
    heap w' = heap w \<and> ram w' = ram w \<and> csr_sie w' = csr_sie w \<and> csr_sstatus w' = csr_sstatus w"
proof -
  obtain w' where w': "timer_ticks n w = Some w'" "after_ticks k n w w'"
    using timer_ticks_run [OF assms] by blast
  have "clock_at (k + n) w'" using w'(2) by (simp add: after_ticks_def)
  then have "timer_get_uptime_ms w' = of_nat (10 * (k + n))" "timer_get_system_ticks w' = of_nat (k + n)"
    "timer_get_uptime_seconds w' = of_nat ((k + n) div 100)" "g_tick_counter w' = of_nat ((k + n) mod 100)"
    by (simp_all add: clock_at_def timer_get_uptime_ms_def TIMER_TICK_MS_def timer_get_system_ticks_def
        timer_get_uptime_seconds_def algebra_simps)
  then show ?thesis using w' unfolding after_ticks_def by blast
qed

theorem timer_ticks_counted_witness:
  "\<exists>w'. timer_ticks 250 demo_timer_machine = Some w' \<and> timer_get_uptime_seconds w' = 2 \<and>
     timer_get_uptime_ms w' = 2500 \<and> length (sbi_timer w') = 250 \<and>
     total_seconds (g_timer_stats w') = 2 \<and> last_interrupt_time (g_timer_stats w') = 2500"
proof -
  obtain w' where "timer_ticks 250 demo_timer_machine = Some w'" "timer_get_uptime_seconds w' = of_nat ((0 + 250) div 100)"
    "timer_get_uptime_ms w' = of_nat (10 * (0 + 250))"
    "last_interrupt_time (g_timer_stats w') = (if (250 :: nat) = 0 then last_interrupt_time (g_timer_stats demo_timer_machine)
       else of_nat (10 * (0 + 250)))"
    "total_seconds (g_timer_stats w') = (if (0 + 250) div 100 = (0 :: nat) div 100 then total_seconds (g_timer_stats demo_timer_machine)
       else of_nat ((0 + 250) div 100))"
    "sbi_timer w' = sbi_timer demo_timer_machine @ map (\<lambda>i. time_rd demo_timer_machine (time_cnt demo_timer_machine + i) +
      g_timer_frequency demo_timer_machine div 100) [0..<250]"
    using timer_ticks_counted [OF demo_timer_facts(1,2), of 250] by blast
  then show ?thesis by (simp add: demo_timer_facts)
qed

text \<open>
  C22.  A delay ends if the counter ever reaches the target, and not before: the counter value that
  ends it is at least \<open>ms\<close> milliseconds (of \<open>g_timer_frequency / 1000\<close> units) after the start,
  every value read before is earlier, and nothing but the counter was touched.
\<close>

theorem timer_delay_ms_waits:
  assumes "unat (g_timer_frequency w) < 2 ^ 32" and "delay_end (time_rd w (time_cnt w)) (g_timer_frequency w) ms 1000 < 2 ^ 64"
    and "\<exists>j > time_cnt w. delay_end (time_rd w (time_cnt w)) (g_timer_frequency w) ms 1000 \<le> unat (time_rd w j)"
  shows "\<exists>n > Suc (time_cnt w). timer_delay_ms ms w = Some (w\<lparr>time_cnt := n\<rparr>) \<and>
    delay_end (time_rd w (time_cnt w)) (g_timer_frequency w) ms 1000 \<le> unat (time_rd w (n - 1)) \<and>
    (\<forall>i. time_cnt w < i \<and> Suc i < n \<longrightarrow>
      unat (time_rd w i) < delay_end (time_rd w (time_cnt w)) (g_timer_frequency w) ms 1000)"
  using delay_waits [OF assms] by (simp add: timer_delay_ms_def READ_TIME_def)

theorem timer_delay_ms_waits_witness:
  "\<exists>n > 1. timer_delay_ms 3 demo_timer_machine = Some (demo_timer_machine\<lparr>time_cnt := n\<rparr>) \<and>
     30000 \<le> unat (of_nat (n - 1) :: u64)"
proof -
  have goal: "delay_end (time_rd demo_timer_machine (time_cnt demo_timer_machine)) (g_timer_frequency demo_timer_machine) 3 1000 = 30000"
    by (simp add: delay_end_def demo_timer_facts)
  have "\<exists>j > time_cnt demo_timer_machine. delay_end (time_rd demo_timer_machine (time_cnt demo_timer_machine))
      (g_timer_frequency demo_timer_machine) 3 1000 \<le> unat (time_rd demo_timer_machine j)"
    unfolding goal by (rule exI [of _ 30000]) (simp add: demo_timer_facts)
  from timer_delay_ms_waits [OF _ _ this] show ?thesis
    unfolding goal by (auto simp: demo_timer_facts intro: Suc_lessD)
qed

text \<open>
  \<open>timer_enable\<close> asks for the first interrupt one tick from now, then sets the timer bit
  of \<open>sie\<close> and keeps the others, and prints its messages; nothing else changes.
\<close>

theorem timer_enable_arms:
  assumes "uart_live w"
  shows "\<exists>w'. timer_enable w = Some w' \<and> uart_io 0 (enable_text (g_timer_frequency w))
    (w\<lparr>time_cnt := Suc (time_cnt w), sbi_timer := sbi_timer w @ [time_rd w (time_cnt w) + g_timer_frequency w div 100],
       csr_sie := csr_sie w OR 32\<rparr>) w'"
  using timer_enable_performs assms unfolding performs_def enable_state_def by blast

theorem timer_enable_arms_witness:
  "\<exists>w'. timer_enable demo_timer_machine = Some w' \<and> csr_sie w' = 32 \<and> sbi_timer w' = [100000]"
proof -
  obtain w' where "timer_enable demo_timer_machine = Some w'" and io: "uart_io 0 (enable_text (g_timer_frequency demo_timer_machine))
    (demo_timer_machine\<lparr>time_cnt := Suc (time_cnt demo_timer_machine), sbi_timer := sbi_timer demo_timer_machine @
       [time_rd demo_timer_machine (time_cnt demo_timer_machine) + g_timer_frequency demo_timer_machine div 100],
       csr_sie := csr_sie demo_timer_machine OR 32\<rparr>) w'"
    using timer_enable_arms [OF demo_timer_facts(1)] by blast
  then show ?thesis using uart_io_frame [OF io] by (simp add: demo_timer_facts)
qed

end
