(* ===== verification/Trap.thy ===== *)
theory Trap
  imports Timer
begin

text \<open>
  Trap handling: \<^verbatim>\<open>src/exception/exception.c\<close>, complete, the system calls of
  \<^verbatim>\<open>src/entry.c\<close> that are registered in its table, and the entry and exit code of
  \<^verbatim>\<open>src/exception/exception.S\<close>.  Function pointers are the functions of the program that
  have the pointer's type; calling the null pointer is undefined.  A function that may not return says how it
  ends: with a result, or in an endless loop.
\<close>

section \<open>Causes\<close>

definition CAUSE_ILLEGAL_INSTRUCTION :: u64 where "CAUSE_ILLEGAL_INSTRUCTION = 2"
definition CAUSE_BREAKPOINT :: u64 where "CAUSE_BREAKPOINT = 3"
definition CAUSE_MISALIGNED_LOAD :: u64 where "CAUSE_MISALIGNED_LOAD = 4"
definition CAUSE_LOAD_ACCESS :: u64 where "CAUSE_LOAD_ACCESS = 5"
definition CAUSE_MISALIGNED_STORE :: u64 where "CAUSE_MISALIGNED_STORE = 6"
definition CAUSE_STORE_ACCESS :: u64 where "CAUSE_STORE_ACCESS = 7"
definition CAUSE_SUPERVISOR_ECALL :: u64 where "CAUSE_SUPERVISOR_ECALL = 9"
definition IRQ_S_SOFT :: u64 where "IRQ_S_SOFT = 1"
definition IRQ_S_TIMER :: u64 where "IRQ_S_TIMER = 5"
definition IRQ_S_EXT :: u64 where "IRQ_S_EXT = 9"

lemmas cause_defs = CAUSE_ILLEGAL_INSTRUCTION_def CAUSE_BREAKPOINT_def CAUSE_MISALIGNED_LOAD_def
  CAUSE_LOAD_ACCESS_def CAUSE_MISALIGNED_STORE_def CAUSE_STORE_ACCESS_def CAUSE_SUPERVISOR_ECALL_def
  IRQ_S_SOFT_def IRQ_S_TIMER_def IRQ_S_EXT_def

section \<open>State\<close>

record trap_frame_t =
  xregs :: "u64 list"
  fregs :: "u64 list"
  sepc :: u64
  scause :: u64
  stval :: u64
  sstatus :: u64
  fcsr :: u64

datatype exception_handler_t = NullHandler | DefaultException | DefaultInterrupt | EbreakHandler

datatype syscall_handler_t = NullSyscall | DefaultSyscall | SysPutchar | SysPuts

record trap_machine = timer_machine +
  exception_handlers :: "exception_handler_t list"
  interrupt_handlers :: "exception_handler_t list"
  syscall_handlers :: "syscall_handler_t list"
  trap_count :: u64

datatype 'r outcome = Returned 'r | Halted

section \<open>Registration\<close>

definition register_exception_handler :: "u64 \<Rightarrow> exception_handler_t \<Rightarrow> 'a trap_machine_scheme \<Rightarrow> 'a trap_machine_scheme" where
  "register_exception_handler cause handler w =
     (if cause < 16 then w\<lparr>exception_handlers := (exception_handlers w)[unat cause := handler]\<rparr> else w)"

definition register_interrupt_handler :: "u64 \<Rightarrow> exception_handler_t \<Rightarrow> 'a trap_machine_scheme \<Rightarrow> 'a trap_machine_scheme" where
  "register_interrupt_handler cause handler w =
     (if cause < 16 then w\<lparr>interrupt_handlers := (interrupt_handlers w)[unat cause := handler]\<rparr> else w)"

definition register_syscall_handler :: "u64 \<Rightarrow> syscall_handler_t \<Rightarrow> 'a trap_machine_scheme \<Rightarrow> 'a trap_machine_scheme" where
  "register_syscall_handler syscall_num handler w =
     (if syscall_num < 256 then w\<lparr>syscall_handlers := (syscall_handlers w)[unat syscall_num := handler]\<rparr> else w)"

text \<open>\<^verbatim>\<open>for (i = 0; i < n; i++) table[i] = h;\<close>\<close>

definition fill_table :: "nat \<Rightarrow> 'h \<Rightarrow> 'h list \<Rightarrow> 'h list" where
  "fill_table n h t = foldl (\<lambda>t i. t[i := h]) t [0..<n]"

text \<open>\<open>current_sp\<close> is the stack pointer at the call.\<close>

definition exception_init :: "u64 \<Rightarrow> 'a trap_machine_scheme \<Rightarrow> 'a trap_machine_scheme" where
  "exception_init current_sp w =
     (let w = w\<lparr>exception_handlers := fill_table 16 DefaultException (exception_handlers w),
                interrupt_handlers := fill_table 16 DefaultInterrupt (interrupt_handlers w)\<rparr>;
          w = w\<lparr>syscall_handlers := fill_table 256 DefaultSyscall (syscall_handlers w)\<rparr>;
          w = register_exception_handler CAUSE_BREAKPOINT EbreakHandler w
      in CSR_WRITE_sscratch current_sp w)"

section \<open>Handlers\<close>

definition default_exception_handler ::
    "trap_frame_t \<Rightarrow> 'a timer_machine_scheme \<Rightarrow> (trap_frame_t outcome \<times> 'a timer_machine_scheme) option" where
  "default_exception_handler frame w = do {
     w \<leftarrow> say (logger_error (''*** EXCEPTION ***'' @ nl) []) w;
     w \<leftarrow> say (logger_error (''Cause: 0x%llx'' @ nl) [scause frame]) w;
     w \<leftarrow> say (logger_error (''PC: 0x%llx'' @ nl) [sepc frame]) w;
     w \<leftarrow> say (logger_error (''Value: 0x%llx'' @ nl) [stval frame]) w;
     w \<leftarrow> say (logger_error (''Status: 0x%llx'' @ nl) [sstatus frame]) w;
     w \<leftarrow> say (logger_error (
        if scause frame = CAUSE_ILLEGAL_INSTRUCTION then ''Illegal instruction'' @ nl
        else if scause frame = CAUSE_BREAKPOINT then ''Breakpoint'' @ nl
        else if scause frame = CAUSE_MISALIGNED_LOAD then ''Misaligned load'' @ nl
        else if scause frame = CAUSE_MISALIGNED_STORE then ''Misaligned store'' @ nl
        else if scause frame = CAUSE_LOAD_ACCESS then ''Load access fault'' @ nl
        else if scause frame = CAUSE_STORE_ACCESS then ''Store access fault'' @ nl
        else ''Unknown exception'' @ nl) []) w;
     w \<leftarrow> say (logger_error (''System halted.'' @ nl) []) w;
     Some (Halted, w) }"

definition default_interrupt_handler ::
    "trap_frame_t \<Rightarrow> 'a timer_machine_scheme \<Rightarrow> (trap_frame_t outcome \<times> 'a timer_machine_scheme) option" where
  "default_interrupt_handler frame w =
     (let interrupt_cause = scause frame AND NOT INTERRUPT_BIT
      in if interrupt_cause = IRQ_S_TIMER then do { w \<leftarrow> timer_handler w; Some (Returned frame, w) }
         else do {
           w \<leftarrow> say (logger_warn (''*** INTERRUPT: 0x%llx ***'' @ nl) [interrupt_cause]) w;
           w \<leftarrow> say (logger_warn (
              if interrupt_cause = IRQ_S_EXT then ''Supervisor external interrupt'' @ nl
              else if interrupt_cause = IRQ_S_SOFT then ''Supervisor software interrupt'' @ nl
              else ''Unknown interrupt'' @ nl) []) w;
           Some (Returned frame, w) })"

definition ebreak_handler ::
    "trap_frame_t \<Rightarrow> 'a timer_machine_scheme \<Rightarrow> (trap_frame_t outcome \<times> 'a timer_machine_scheme) option" where
  "ebreak_handler frame w = do {
     w \<leftarrow> say (logger_info (''=== BREAKPOINT HIT ==='' @ nl) []) w;
     w \<leftarrow> say (logger_info (''Breakpoint reached at PC: 0x%llx'' @ nl) [sepc frame]) w;
     w \<leftarrow> say (logger_info (''Continuing execution...'' @ nl) []) w;
     Some (Returned (frame\<lparr>sepc := sepc frame + 4\<rparr>), w) }"

text \<open>Calling an entry of a table.\<close>

fun call_handler :: "exception_handler_t \<Rightarrow>
    trap_frame_t \<Rightarrow> 'a timer_machine_scheme \<Rightarrow> (trap_frame_t outcome \<times> 'a timer_machine_scheme) option" where
  "call_handler NullHandler frame w = None"
| "call_handler DefaultException frame w = default_exception_handler frame w"
| "call_handler DefaultInterrupt frame w = default_interrupt_handler frame w"
| "call_handler EbreakHandler frame w = ebreak_handler frame w"

definition handle_exception ::
    "trap_frame_t \<Rightarrow> 'a trap_machine_scheme \<Rightarrow> (trap_frame_t outcome \<times> 'a trap_machine_scheme) option" where
  "handle_exception frame w = do {
     let cause = scause frame;
     let w = w\<lparr>trap_count := trap_count w + 1\<rparr>;
     w \<leftarrow> say (logger_debug (''trap count: %d'' @ nl) [trap_count w]) w;
     if cause AND INTERRUPT_BIT \<noteq> 0 then
       (let interrupt_cause = cause AND NOT INTERRUPT_BIT
        in if interrupt_cause < 16 then call_handler (interrupt_handlers w ! unat interrupt_cause) frame w
           else default_interrupt_handler frame w)
     else if cause < 16 then call_handler (exception_handlers w ! unat cause) frame w
     else default_exception_handler frame w }"

section \<open>System calls\<close>

definition sys_putchar :: "u64 \<Rightarrow> 'a machine_scheme \<Rightarrow> (u64 \<times> 'a machine_scheme) option" where
  "sys_putchar c w = do { w \<leftarrow> uart_putchar (ucast c) w; Some (0, w) }"

definition sys_puts :: "u64 \<Rightarrow> 'a machine_scheme \<Rightarrow> (u64 \<times> 'a machine_scheme) option" where
  "sys_puts str_ptr w = do {
     let s = ram_ptr (ram w) str_ptr;
     w \<leftarrow> uart_puts s w;
     n \<leftarrow> strlen s;
     Some (n, w) }"

text \<open>The arguments of \<open>default_syscall_handler\<close> after the second are not used.\<close>

definition default_syscall_handler :: "u64 \<Rightarrow> u64 \<Rightarrow> 'a machine_scheme \<Rightarrow> (u64 \<times> 'a machine_scheme) option" where
  "default_syscall_handler arg0 arg1 w =
     (if arg0 = 0 then do { w \<leftarrow> say (logger ''%c'' [ucast (ucast arg1 :: u8)]) w; Some (0, w) }
      else if arg0 = 1 then do { w \<leftarrow> say (logger ''%s'' [arg1]) w; Some (0, w) }
      else do { w \<leftarrow> say (logger_warn (''Unknown syscall: 0x%llx'' @ nl) [arg0]) w; Some (- 1, w) })"

fun call_syscall :: "syscall_handler_t \<Rightarrow> u64 \<Rightarrow> u64 \<Rightarrow> 'a machine_scheme \<Rightarrow> (u64 \<times> 'a machine_scheme) option" where
  "call_syscall NullSyscall arg0 arg1 w = None"
| "call_syscall DefaultSyscall arg0 arg1 w = default_syscall_handler arg0 arg1 w"
| "call_syscall SysPutchar arg0 arg1 w = sys_putchar arg0 w"
| "call_syscall SysPuts arg0 arg1 w = sys_puts arg0 w"

definition handle_syscall ::
    "trap_frame_t \<Rightarrow> 'a trap_machine_scheme \<Rightarrow> (trap_frame_t \<times> 'a trap_machine_scheme) option" where
  "handle_syscall frame w = do {
     let syscall_num = xregs frame ! 17;
     let arg0 = xregs frame ! 10;
     let arg1 = xregs frame ! 11;
     (ret_val, w) \<leftarrow>
       (if syscall_num < 256 \<and> syscall_handlers w ! unat syscall_num \<noteq> NullSyscall
        then call_syscall (syscall_handlers w ! unat syscall_num) arg0 arg1 w
        else default_syscall_handler arg0 arg1 w);
     let frame = frame\<lparr>xregs := (xregs frame)[10 := ret_val]\<rparr>;
     let frame = frame\<lparr>sepc := sepc frame + 4\<rparr>;
     Some (frame, w) }"

text \<open>\<^verbatim>\<open>for (i = 0; i < count; i++) uart_putchar(buf[i]);\<close>\<close>

function write_loop :: "u64 \<Rightarrow> u64 \<Rightarrow> u64 \<Rightarrow> 'a machine_scheme \<Rightarrow> 'a machine_scheme option" where
  "write_loop buf count i w =
     (if i < count then
        (case uart_putchar (ram w (buf + i)) w of
           None \<Rightarrow> None
         | Some w \<Rightarrow> write_loop buf count (i + 1) w)
      else Some w)"
  by pat_completeness auto
termination
  by (relation "measure (\<lambda>(buf, count, i, w). unat count - unat i)")
    (auto simp: word_less_nat_alt unat_succ [unfolded word_less_nat_alt])

declare write_loop.simps [simp del]

text \<open>The system calls that a user program reaches by jumping to the gateway.\<close>

definition handle_syscall_direct_c ::
    "u64 \<Rightarrow> u64 \<Rightarrow> u64 \<Rightarrow> u64 \<Rightarrow> 'a machine_scheme \<Rightarrow> (u64 outcome \<times> 'a machine_scheme) option" where
  "handle_syscall_direct_c syscall_id arg1 arg2 arg3 w = do {
     w \<leftarrow> say (logger_info (''[GATEWAY] Syscall ID: %lld, args: 0x%llx, 0x%llx, 0x%llx'' @ nl) [syscall_id, arg1, arg2, arg3]) w;
     if syscall_id = 64 then do {
       let buf = arg1; 
       let count = arg2;
       w \<leftarrow> write_loop buf count 0 w;
       Some (Returned count, w) }
     else if syscall_id = 93 then do {
       w \<leftarrow> say (logger_info (''User program exited with code %lld'' @ nl) [arg1]) w;
       Some (Halted, w) }
     else do { (r, w) \<leftarrow> default_syscall_handler syscall_id arg1 w; Some (Returned r, w) } }"

definition print_hex :: "u64 \<Rightarrow> 'a machine_scheme \<Rightarrow> 'a machine_scheme option" where
  "print_hex val w = say (logger ''0x%llx'' [val]) w"

section \<open>Entry and exit\<close>

text \<open>
  The registers of the hart that the entry code saves.  The hardware has already put
  the interrupted address, the cause and its value into the CSRs.
\<close>

record cpu_t =
  gpr :: "u64 list"
  fpr :: "u64 list"
  csr_sepc :: u64
  csr_scause :: u64
  csr_stval :: u64
  csr_fcsr :: u64

text \<open>\<open>save_registers\<close>: \<open>x0\<close> is not saved, its slot keeps what the stack held there.\<close>

definition save_registers :: "u64 \<Rightarrow> cpu_t \<Rightarrow> 'a machine_scheme \<Rightarrow> trap_frame_t" where
  "save_registers slot0 cpu w = \<lparr>xregs = (gpr cpu)[0 := slot0], fregs = fpr cpu, sepc = csr_sepc cpu,
     scause = csr_scause cpu, stval = csr_stval cpu, sstatus = READ_SSTATUS w, fcsr = csr_fcsr cpu\<rparr>"

text \<open>
  The handler leaves the registers in some state \<open>left\<close>; \<open>x0\<close> is always zero, and \<^verbatim>\<open>scause\<close> and
  \<^verbatim>\<open>stval\<close> are not written back.
\<close>

definition restore_registers :: "trap_frame_t \<Rightarrow> cpu_t \<Rightarrow> cpu_t" where
  "restore_registers frame left = left\<lparr>gpr := (xregs frame)[0 := 0], fpr := fregs frame,
     csr_sepc := sepc frame, csr_fcsr := fcsr frame\<rparr>"

text \<open>\<open>trap_handler\<close> up to its \<^verbatim>\<open>sret\<close>.\<close>

definition trap_handler :: "u64 \<Rightarrow> cpu_t \<Rightarrow> cpu_t \<Rightarrow> 'a trap_machine_scheme \<Rightarrow> (cpu_t outcome \<times> 'a trap_machine_scheme) option" where
  "trap_handler slot0 left cpu w = do {
     let frame = save_registers slot0 cpu w;
     (r, w) \<leftarrow>
       (if csr_scause cpu = CAUSE_SUPERVISOR_ECALL
        then do { (frame, w) \<leftarrow> handle_syscall frame w; Some (Returned frame, w) }
        else handle_exception frame w);
     Some (case r of
         Returned frame \<Rightarrow> (Returned (restore_registers frame left), WRITE_SSTATUS (sstatus frame) w)
       | Halted \<Rightarrow> (Halted, w)) }"

text \<open>
  \<open>handle_syscall_direct\<close>, where every entry of the gateway ends: the C function
  gets \<open>a0\<close> to \<open>a5\<close> as they are, and its result is left in \<open>a0\<close>.
\<close>

definition handle_syscall_direct :: "cpu_t \<Rightarrow> 'a machine_scheme \<Rightarrow> (u64 outcome \<times> 'a machine_scheme) option" where
  "handle_syscall_direct cpu w =
     handle_syscall_direct_c (gpr cpu ! 10) (gpr cpu ! 11) (gpr cpu ! 12) (gpr cpu ! 13) w"

section \<open>Handler tables\<close>

text \<open>
  What the clients of a table rely on: an entry is what was registered last for its number,
  and a number out of range registers nothing.
\<close>

locale handler_table =
  fixes register :: "u64 \<Rightarrow> 'h \<Rightarrow> 's \<Rightarrow> 's"
    and look :: "'s \<Rightarrow> u64 \<Rightarrow> 'h"
    and bound :: u64
    and wf :: "'s \<Rightarrow> bool"
  assumes look_same: "wf s \<Longrightarrow> c < bound \<Longrightarrow> look (register c h s) c = h"
    and look_other: "c < bound \<Longrightarrow> d < bound \<Longrightarrow> c \<noteq> d \<Longrightarrow> look (register c h s) d = look s d"
    and register_out: "\<not> c < bound \<Longrightarrow> register c h s = s"
    and wf_register: "wf s \<Longrightarrow> wf (register c h s)"
begin

lemma look_register:
  "wf s \<Longrightarrow> d < bound \<Longrightarrow> look (register c h s) d = (if c = d then h else look s d)"
  using look_same look_other register_out by (cases "c < bound") auto

text \<open>After a series of registrations the last one for a number counts.\<close>

definition register_all :: "(u64 \<times> 'h) list \<Rightarrow> 's \<Rightarrow> 's" where
  "register_all rs s = foldl (\<lambda>s (c, h). register c h s) s rs"

lemma wf_register_all: "wf s \<Longrightarrow> wf (register_all rs s)"
  unfolding register_all_def by (induction rs arbitrary: s) (auto simp: wf_register)

lemma look_register_all:
  assumes "wf s" and "d < bound"
  shows "look (register_all rs s) d = (case map_of (rev rs) d of None \<Rightarrow> look s d | Some h \<Rightarrow> h)"
  using assms(1)
proof (induction rs arbitrary: s)
  case (Cons r rs)
  obtain c h where r: "r = (c, h)" by (cases r)
  have "look (register_all (r # rs) s) d = look (register_all rs (register c h s)) d" by (simp add: register_all_def r)
  also have "\<dots> = (case map_of (rev rs) d of None \<Rightarrow> look (register c h s) d | Some h \<Rightarrow> h)"
    using Cons.IH [OF wf_register [OF Cons.prems]] .
  finally show ?case
    using look_register [OF Cons.prems assms(2)] by (auto simp: r map_add_def split: option.splits)
qed (simp add: register_all_def)

end

definition exception_entry :: "'a trap_machine_scheme \<Rightarrow> u64 \<Rightarrow> exception_handler_t" where
  "exception_entry w c = exception_handlers w ! unat c"

definition interrupt_entry :: "'a trap_machine_scheme \<Rightarrow> u64 \<Rightarrow> exception_handler_t" where
  "interrupt_entry w c = interrupt_handlers w ! unat c"

definition syscall_entry :: "'a trap_machine_scheme \<Rightarrow> u64 \<Rightarrow> syscall_handler_t" where
  "syscall_entry w c = syscall_handlers w ! unat c"

definition tables_wf :: "'a trap_machine_scheme \<Rightarrow> bool" where
  "tables_wf w \<longleftrightarrow> length (exception_handlers w) = 16 \<and> length (interrupt_handlers w) = 16 \<and>
     length (syscall_handlers w) = 256"

lemma nth_update_word:
  "unat c < length t \<Longrightarrow> t[unat c := h] ! unat c = h"
  "c \<noteq> d \<Longrightarrow> t[unat c := h] ! unat (d :: u64) = t ! unat d"
  by (auto simp: word_unat_eq_iff)

lemma less_16_256: "(c :: u64) < 16 \<Longrightarrow> unat c < 16" "(c :: u64) < 256 \<Longrightarrow> unat c < 256"
  by (simp_all add: word_less_nat_alt)

interpretation ex: handler_table register_exception_handler exception_entry 16 tables_wf
  by unfold_locales
    (auto simp: register_exception_handler_def exception_entry_def tables_wf_def nth_update_word less_16_256)

interpretation irq: handler_table register_interrupt_handler interrupt_entry 16 tables_wf
  by unfold_locales
    (auto simp: register_interrupt_handler_def interrupt_entry_def tables_wf_def nth_update_word less_16_256)

interpretation sys: handler_table register_syscall_handler syscall_entry 256 tables_wf
  by unfold_locales
    (auto simp: register_syscall_handler_def syscall_entry_def tables_wf_def nth_update_word less_16_256)

lemma fill_table_eq: "length t = n \<Longrightarrow> fill_table n h t = replicate n h"
proof -
  have "k \<le> length t \<Longrightarrow> foldl (\<lambda>t i. t[i := h]) t [0..<k] = replicate k h @ drop k t" for k
  proof (induction k)
    case (Suc k)
    then have "drop k t = t ! k # drop (Suc k) t" by (simp add: Cons_nth_drop_Suc)
    then show ?case using Suc by (simp add: list_update_append replicate_append_same)
  qed simp
  from this [of n] show "length t = n \<Longrightarrow> fill_table n h t = replicate n h" by (simp add: fill_table_def)
qed

lemma exception_init_tables:
  assumes "tables_wf w"
  shows "tables_wf (exception_init sp w)"
    and "c < 16 \<Longrightarrow> exception_entry (exception_init sp w) c = (if c = 3 then EbreakHandler else DefaultException)"
    and "c < 16 \<Longrightarrow> interrupt_entry (exception_init sp w) c = DefaultInterrupt"
    and "n < 256 \<Longrightarrow> syscall_entry (exception_init sp w) n = DefaultSyscall"
proof -
  let ?v = "w\<lparr>exception_handlers := replicate 16 DefaultException, interrupt_handlers := replicate 16 DefaultInterrupt,
    syscall_handlers := replicate 256 DefaultSyscall\<rparr>"
  have init: "exception_init sp w = CSR_WRITE_sscratch sp (register_exception_handler 3 EbreakHandler ?v)"
    using assms by (simp add: exception_init_def tables_wf_def fill_table_eq CAUSE_BREAKPOINT_def)
  have v: "tables_wf ?v" by (simp add: tables_wf_def)
  have sc: "tables_wf (CSR_WRITE_sscratch sp u) = tables_wf u" "exception_entry (CSR_WRITE_sscratch sp u) = exception_entry u"
    "interrupt_entry (CSR_WRITE_sscratch sp u) = interrupt_entry u" "syscall_entry (CSR_WRITE_sscratch sp u) = syscall_entry u"
    for u :: "'a trap_machine_scheme"
    by (simp_all add: CSR_WRITE_sscratch_def tables_wf_def exception_entry_def interrupt_entry_def syscall_entry_def fun_eq_iff)
  show "tables_wf (exception_init sp w)" unfolding init sc using ex.wf_register [OF v] .
  show "c < 16 \<Longrightarrow> exception_entry (exception_init sp w) c = (if c = 3 then EbreakHandler else DefaultException)"
    unfolding init sc using ex.look_register [OF v] by (simp add: exception_entry_def less_16_256)
  show "c < 16 \<Longrightarrow> interrupt_entry (exception_init sp w) c = DefaultInterrupt"
    unfolding init sc by (simp add: register_exception_handler_def interrupt_entry_def less_16_256)
  show "n < 256 \<Longrightarrow> syscall_entry (exception_init sp w) n = DefaultSyscall"
    unfolding init sc by (simp add: register_exception_handler_def syscall_entry_def less_16_256)
qed

end
