(* ===== verification/TrapLaws.thy ===== *)
theory TrapLaws
  imports Trap
begin

text \<open>
  What the trap handlers do: their effect and their text, for every cause and every handler
  that can be registered; the kernel's invariant and the states that traps and registrations
  can reach.
\<close>

section \<open>Messages\<close>

lemma prints_number:
  assumes "37 \<notin> set (str a)" and "37 \<notin> set (str b)"
    and "\<And>m t. formats m (str b) [] t \<Longrightarrow> formats m (dir @ str b) [v] (num @ t)"
  shows "prints (say (logger_output level (str a @ dir @ str b) [v])) (\<lambda>ty. log_line level (str a @ num @ str b))"
  using formats_plain [OF assms(1) assms(3) [OF formats_lit [OF assms(2)]]] by (intro prints_say)

lemmas prints_llx = prints_number [OF _ _ formats_llx]
  and prints_d = prints_number [OF _ _ formats_d]

definition count_text :: "u64 \<Rightarrow> u8 list" where
  "count_text c = log_line LOG_LEVEL_DEBUG (str ''trap count: '' @ show_int (sint (ucast c :: u32)) @ str nl)"

definition hex_line :: "log_level_t \<Rightarrow> string \<Rightarrow> u64 \<Rightarrow> string \<Rightarrow> u8 list" where
  "hex_line level a v b = log_line level (str a @ show_nat 16 (unat v) @ str b)"

definition fault_name :: "u64 \<Rightarrow> string" where
  "fault_name c = (if c = 2 then ''Illegal instruction'' else if c = 3 then ''Breakpoint'' else if c = 4 then ''Misaligned load''
     else if c = 6 then ''Misaligned store'' else if c = 5 then ''Load access fault'' else if c = 7 then ''Store access fault''
     else ''Unknown exception'')"

definition fault_text :: "trap_frame_t \<Rightarrow> u8 list" where
  "fault_text f = log_line LOG_LEVEL_ERROR (str (''*** EXCEPTION ***'' @ nl)) @
     hex_line LOG_LEVEL_ERROR ''Cause: 0x'' (scause f) nl @ hex_line LOG_LEVEL_ERROR ''PC: 0x'' (sepc f) nl @
     hex_line LOG_LEVEL_ERROR ''Value: 0x'' (stval f) nl @ hex_line LOG_LEVEL_ERROR ''Status: 0x'' (sstatus f) nl @
     log_line LOG_LEVEL_ERROR (str (fault_name (scause f) @ nl)) @ log_line LOG_LEVEL_ERROR (str (''System halted.'' @ nl))"

definition irq_text :: "u64 \<Rightarrow> u8 list" where
  "irq_text c = hex_line LOG_LEVEL_WARN ''*** INTERRUPT: 0x'' c ('' ***'' @ nl) @
     log_line LOG_LEVEL_WARN (str ((if c = 9 then ''Supervisor external interrupt'' else if c = 1 then ''Supervisor software interrupt''
       else ''Unknown interrupt'') @ nl))"

definition ebreak_text :: "trap_frame_t \<Rightarrow> u8 list" where
  "ebreak_text f = log_line LOG_LEVEL_INFO (str (''=== BREAKPOINT HIT ==='' @ nl)) @
     hex_line LOG_LEVEL_INFO ''Breakpoint reached at PC: 0x'' (sepc f) nl @
     log_line LOG_LEVEL_INFO (str (''Continuing execution...'' @ nl))"

lemma prints_hex_line:
  assumes "37 \<notin> set (str a)" and "37 \<notin> set (str b)" and "s = a @ ''%llx'' @ b"
  shows "prints (say (logger_output level (str s) [v])) (\<lambda>ty. hex_line level a v b)"
  using prints_llx [OF assms(1,2), of level v] by (simp add: assms(3) hex_line_def)

lemma prints_line:
  "37 \<notin> set (str s) \<Longrightarrow> t = s \<Longrightarrow> prints (say (logger_output level (str t) va)) (\<lambda>ty. log_line level (str s))"
  using prints_note by simp

lemma prints_count: "prints (say (logger_debug (''trap count: %d'' @ nl) [c])) (\<lambda>ty. count_text c)"
  using prints_d [of "''trap count: ''" nl LOG_LEVEL_DEBUG c] by (simp add: log_defs count_text_def nl_def)

lemma fault_name_plain: "37 \<notin> set (str (fault_name c))"
  by (simp add: fault_name_def)

lemma fault_name_eq:
  "(if c = 2 then ''Illegal instruction'' @ nl else if c = 3 then ''Breakpoint'' @ nl else if c = 4 then ''Misaligned load'' @ nl
    else if c = 6 then ''Misaligned store'' @ nl else if c = 5 then ''Load access fault'' @ nl
    else if c = 7 then ''Store access fault'' @ nl else ''Unknown exception'' @ nl) = fault_name c @ nl"
  by (simp only: fault_name_def if_distrib [of "\<lambda>s. s @ nl"])

section \<open>Effects of the handlers\<close>

lemma yields_return:
  assumes "prints f bs"
  shows "yields (\<lambda>w. True) (\<lambda>w. f w \<bind> (\<lambda>w. Some (r, w))) (\<lambda>w. r) (\<lambda>w. w) (\<lambda>w. bs (uart_ty w))"
  using assms by (auto simp: yields_def neutral_id steady_def elim: printsE)

lemma bind_assoc_option: "(x :: 'a option) \<bind> (\<lambda>y. f y \<bind> g) = (x \<bind> f) \<bind> g"
  by (cases x) simp_all

lemma default_exception_yields:
  "yields (\<lambda>w. True) (default_exception_handler f) (\<lambda>w. Halted) (\<lambda>w. w) (\<lambda>w. fault_text f)"
proof -
  have "prints (\<lambda>w. say (logger_error (''*** EXCEPTION ***'' @ nl) []) w \<bind>
      (\<lambda>w. say (logger_error (''Cause: 0x%llx'' @ nl) [scause f]) w \<bind>
      (\<lambda>w. say (logger_error (''PC: 0x%llx'' @ nl) [sepc f]) w \<bind>
      (\<lambda>w. say (logger_error (''Value: 0x%llx'' @ nl) [stval f]) w \<bind>
      (\<lambda>w. say (logger_error (''Status: 0x%llx'' @ nl) [sstatus f]) w \<bind>
      (\<lambda>w. say (logger_error (fault_name (scause f) @ nl) []) w \<bind>
      say (logger_error (''System halted.'' @ nl) []))))))) (\<lambda>t. fault_text f)"
    unfolding fault_text_def log_defs
    by (intro prints_bind prints_line prints_hex_line) (simp_all add: nl_def fault_name_plain)
  from yields_return [OF this, of Halted] show ?thesis
    unfolding default_exception_handler_def [abs_def] cause_defs
    by (simp only: fault_name_eq bind_assoc_option [symmetric])
qed

lemma ebreak_yields:
  "yields (\<lambda>w. True) (ebreak_handler f) (\<lambda>w. Returned (f\<lparr>sepc := sepc f + 4\<rparr>)) (\<lambda>w. w) (\<lambda>w. ebreak_text f)"
proof -
  have "prints (\<lambda>w. say (logger_info (''=== BREAKPOINT HIT ==='' @ nl) []) w \<bind>
      (\<lambda>w. say (logger_info (''Breakpoint reached at PC: 0x%llx'' @ nl) [sepc f]) w \<bind>
      say (logger_info (''Continuing execution...'' @ nl) []))) (\<lambda>t. ebreak_text f)"
    unfolding ebreak_text_def log_defs
    by (intro prints_bind prints_line prints_hex_line) (simp_all add: nl_def)
  from yields_return [OF this] show ?thesis
    unfolding ebreak_handler_def [abs_def] by (simp only: bind_assoc_option [symmetric])
qed

definition irq_name :: "u64 \<Rightarrow> string" where
  "irq_name c = (if c = 9 then ''Supervisor external interrupt'' else if c = 1 then ''Supervisor software interrupt''
     else ''Unknown interrupt'')"

lemma irq_name_plain: "37 \<notin> set (str (irq_name c))"
  by (simp add: irq_name_def)

lemma irq_name_eq:
  "(if c = 9 then ''Supervisor external interrupt'' @ nl else if c = 1 then ''Supervisor software interrupt'' @ nl
    else ''Unknown interrupt'' @ nl) = irq_name c @ nl"
  by (simp only: irq_name_def if_distrib [of "\<lambda>s. s @ nl"])

text \<open>The number of an interrupt cause.\<close>

definition irq_number :: "trap_frame_t \<Rightarrow> u64" where
  "irq_number f = scause f AND NOT INTERRUPT_BIT"

lemma other_interrupt_eq:
  assumes "irq_number f \<noteq> 5"
  shows "default_interrupt_handler f = (\<lambda>w. say (logger_warn (''*** INTERRUPT: 0x%llx ***'' @ nl) [irq_number f]) w \<bind>
      (\<lambda>w. say (logger_warn (irq_name (irq_number f) @ nl) []) w \<bind> (\<lambda>w. Some (Returned f, w))))"
  using assms unfolding default_interrupt_handler_def [abs_def] cause_defs irq_number_def [symmetric] irq_name_eq
  by (simp only: Let_def if_False)

lemma other_interrupt_yields:
  assumes "irq_number f \<noteq> 5"
  shows "yields (\<lambda>w. True) (default_interrupt_handler f) (\<lambda>w. Returned f) (\<lambda>w. w) (\<lambda>w. irq_text (irq_number f))"
proof -
  have "prints (\<lambda>w. say (logger_warn (''*** INTERRUPT: 0x%llx ***'' @ nl) [irq_number f]) w \<bind>
      say (logger_warn (irq_name (irq_number f) @ nl) [])) (\<lambda>t. irq_text (irq_number f))"
    unfolding irq_text_def log_defs irq_name_def [symmetric]
    by (intro prints_bind prints_line prints_hex_line) (simp_all add: nl_def irq_name_plain)
  from yields_return [OF this, of "Returned f"] show ?thesis
    unfolding other_interrupt_eq [OF assms] by (simp only: bind_assoc_option [symmetric])
qed

lemma timer_interrupt_eq:
  "irq_number f = 5 \<Longrightarrow> default_interrupt_handler f = (\<lambda>w. timer_handler w \<bind> (\<lambda>w. Some (Returned f, w)))"
  by (simp add: default_interrupt_handler_def [abs_def] cause_defs irq_number_def)

lemma yields_result: "yields (\<lambda>w. True) (\<lambda>w. Some (r, w)) (\<lambda>w. r) (\<lambda>w. w) (\<lambda>w. [])"
  using yields_return [OF prints_Some] by simp

lemma timer_interrupt_yields:
  assumes "irq_number f = 5"
  shows "yields (clock_at n) (default_interrupt_handler f) (\<lambda>w. Returned f) (tick_state (Suc n)) (\<lambda>w. tick_text (Suc n))"
  unfolding timer_interrupt_eq [OF assms]
  using performs_yields [OF timer_handler_performs yields_result, of n "Returned f"] by simp

text \<open>A handler: its result, its state change with the clock at tick \<open>n\<close>, and its text.\<close>

fun handler_result :: "exception_handler_t \<Rightarrow> trap_frame_t \<Rightarrow> trap_frame_t outcome" where
  "handler_result DefaultException f = Halted"
| "handler_result EbreakHandler f = Returned (f\<lparr>sepc := sepc f + 4\<rparr>)"
| "handler_result h f = Returned f"

definition ticks_clock :: "exception_handler_t \<Rightarrow> trap_frame_t \<Rightarrow> bool" where
  "ticks_clock h f \<longleftrightarrow> h = DefaultInterrupt \<and> irq_number f = 5"

definition handler_state :: "nat \<Rightarrow> exception_handler_t \<Rightarrow> trap_frame_t \<Rightarrow> 'a timer_machine_scheme \<Rightarrow> 'a timer_machine_scheme" where
  "handler_state n h f w = (if ticks_clock h f then tick_state (Suc n) w else w)"

definition handler_text :: "nat \<Rightarrow> exception_handler_t \<Rightarrow> trap_frame_t \<Rightarrow> u8 list" where
  "handler_text n h f = (if h = DefaultException then fault_text f else if h = EbreakHandler then ebreak_text f
     else if ticks_clock h f then tick_text (Suc n) else irq_text (irq_number f))"

lemma call_handler_eqs:
  "call_handler DefaultException f = default_exception_handler f"
  "call_handler DefaultInterrupt f = default_interrupt_handler f"
  "call_handler EbreakHandler f = ebreak_handler f"
  by (rule ext, simp)+

lemma steady_clock: "steady (clock_at n)"
  by (simp add: steady_def clock_at_def)

lemmas yields_any = yields_weaken [OF _ _ steady_clock, of "\<lambda>w. True", simplified]

lemma call_handler_yields:
  assumes "h \<noteq> NullHandler"
  shows "yields (clock_at n) (call_handler h f) (\<lambda>w. handler_result h f) (handler_state n h f) (\<lambda>w. handler_text n h f)"
proof (cases h)
  case DefaultException
  show ?thesis unfolding DefaultException call_handler_eqs
    by (simp add: handler_state_def [abs_def] handler_text_def ticks_clock_def yields_any [OF default_exception_yields])
next
  case DefaultInterrupt
  show ?thesis unfolding DefaultInterrupt call_handler_eqs
    by (cases "irq_number f = 5") (simp_all add: handler_state_def [abs_def] handler_text_def ticks_clock_def
        yields_any [OF other_interrupt_yields] timer_interrupt_yields)
next
  case EbreakHandler
  show ?thesis unfolding EbreakHandler call_handler_eqs
    by (simp add: handler_state_def [abs_def] handler_text_def ticks_clock_def yields_any [OF ebreak_yields])
qed (simp add: assms)

section \<open>Dispatch\<close>

definition handler_of :: "'a trap_machine_scheme \<Rightarrow> u64 \<Rightarrow> exception_handler_t" where
  "handler_of w cause =
     (if cause AND INTERRUPT_BIT \<noteq> 0 then
        (let irq = cause AND NOT INTERRUPT_BIT in if irq < 16 then interrupt_entry w irq else DefaultInterrupt)
      else if cause < 16 then exception_entry w cause else DefaultException)"

lemma handle_exception_dispatch:
  "handle_exception f w = do {
     let w = w\<lparr>trap_count := trap_count w + 1\<rparr>;
     w \<leftarrow> say (logger_debug (''trap count: %d'' @ nl) [trap_count w]) w;
     call_handler (handler_of w (scause f)) f w }"
  by (cases "scause f AND INTERRUPT_BIT = 0"; cases "scause f < 16"; cases "scause f AND NOT INTERRUPT_BIT < 16")
    (simp_all add: handle_exception_def handler_of_def interrupt_entry_def exception_entry_def Let_def call_handler_eqs)

lemma trap_count_same:
  "clock_at n (w\<lparr>trap_count := c\<rparr>) = clock_at n w" "handler_of (w\<lparr>trap_count := c\<rparr>) = handler_of w"
  by (simp_all add: clock_at_def handler_of_def interrupt_entry_def exception_entry_def fun_eq_iff Let_def)

lemma handle_exception_yields:
  assumes "h \<noteq> NullHandler"
  shows "yields (\<lambda>w. clock_at n w \<and> handler_of w (scause f) = h) (handle_exception f) (\<lambda>w. handler_result h f)
    (\<lambda>w. handler_state n h f (w\<lparr>trap_count := trap_count w + 1\<rparr>))
    (\<lambda>w. count_text (trap_count w + 1) @ handler_text n h f)"
proof -
  let ?inc = "\<lambda>w :: 'a trap_machine_scheme. w\<lparr>trap_count := trap_count w + 1\<rparr>"
  let ?P = "\<lambda>w :: 'a trap_machine_scheme. clock_at n w \<and> handler_of w (scause f) = h"
  have inc: "neutral ?inc" by (rule neutralI) simp_all
  have P: "steady ?P" by (simp add: steady_def clock_at_def handler_of_def interrupt_entry_def exception_entry_def Let_def)
  have count: "performs ?P (say (logger_debug (''trap count: %d'' @ nl) [c])) (\<lambda>w. w) (\<lambda>w. count_text c)" for c
    using performs_weaken [OF performs_print [OF prints_count] _ P] by simp
  have "performs ?P (\<lambda>w. say (logger_debug (''trap count: %d'' @ nl) [trap_count w]) w) (\<lambda>w. w) (\<lambda>w. count_text (trap_count w))"
    using performs_read [OF count, of trap_count] by (simp add: steady_def)
  then have first: "performs ?P (\<lambda>w. say (logger_debug (''trap count: %d'' @ nl) [trap_count (?inc w)]) (?inc w)) ?inc
      (\<lambda>w. count_text (trap_count (?inc w)))"
    by (rule performs_after_update [OF inc _ _ P]) (simp add: trap_count_same)
  have call: "yields ?P (\<lambda>w. call_handler (handler_of w (scause f)) f w) (\<lambda>w. handler_result h f)
      (handler_state n h f) (\<lambda>w. handler_text n h f)"
    using call_handler_yields [OF assms, of n f] P unfolding yields_def by auto
  from performs_yields [OF first call] show ?thesis
    unfolding handle_exception_dispatch [abs_def] Let_def by (simp add: trap_count_same)
qed

section \<open>Strings without an end\<close>

text \<open>A pointer is to a NUL-terminated string, or no byte from it on is NUL.\<close>

lemma cstr_or_endless: "(\<exists>s. is_cstr v s) \<or> (\<forall>i. v i \<noteq> 0)"
proof (rule disjCI)
  assume "\<not> (\<forall>i. v i \<noteq> 0)"
  then obtain i where "v i = 0" by blast
  then have i: "v (of_nat (unat i)) = 0" by simp
  define k where "k = (LEAST k. v (of_nat k) = 0)"
  have "v (of_nat k) = 0" unfolding k_def using i by (rule LeastI)
  moreover have "k \<le> unat i" unfolding k_def using i by (rule Least_le)
  then have "k < 2 ^ 64" using unat_less_64 [of i] by simp
  moreover have "v (of_nat j) \<noteq> 0" if "j < k" for j using that not_less_Least unfolding k_def by blast
  ultimately have "is_cstr v (map (\<lambda>j. v (of_nat j)) [0..<k])" by (auto simp: is_cstr_def)
  then show "\<exists>s. is_cstr v s" by blast
qed

lemma for_chars_ends:
  assumes "for_chars body v i w = Some w'"
  shows "\<exists>k. v k = 0"
  by (rule for_chars.raw_induct [where P = "\<lambda>body v i w w'. \<exists>k. v k = 0", OF _ assms])
    (auto simp: bind_eq_Some_conv split: if_splits)

lemma for_chars_endless: "(\<And>i. v i \<noteq> 0) \<Longrightarrow> for_chars body v i w = None"
  using for_chars_ends [of body v i w] by (cases "for_chars body v i w") auto

section \<open>System calls\<close>

text \<open>
  The meaning of a system call: handler, arguments, result and text, where the pointers are to
  strings.
\<close>

inductive syscall_spec :: "uart_type \<Rightarrow> ram \<Rightarrow> syscall_handler_t \<Rightarrow> u64 \<Rightarrow> u64 \<Rightarrow> u64 \<Rightarrow> u8 list \<Rightarrow> bool"
  for ty m where
  put_char: "syscall_spec ty m SysPutchar c a1 0 (case ty of UART_TYPE_DW \<Rightarrow> crlf (ucast c) | UART_TYPE_PL011 \<Rightarrow> [ucast c])"
| put_string: "is_cstr (ram_ptr m p) s \<Longrightarrow> syscall_spec ty m SysPuts p a1 (of_nat (length s)) (concat (map crlf s))"
| log_char: "syscall_spec ty m DefaultSyscall 0 c 0 (log_line LOG_LEVEL_NORMAL [ucast c])"
| log_string: "is_cstr (ram_ptr m p) s \<Longrightarrow> syscall_spec ty m DefaultSyscall 1 p 0 (log_line LOG_LEVEL_NORMAL s)"
| unknown: "n \<noteq> 0 \<Longrightarrow> n \<noteq> 1 \<Longrightarrow> syscall_spec ty m DefaultSyscall n a1 (- 1) (hex_line LOG_LEVEL_WARN ''Unknown syscall: 0x'' n nl)"

inductive_cases spec_default: "syscall_spec ty m DefaultSyscall n a r bs"
inductive_cases spec_puts: "syscall_spec ty m SysPuts n a r bs"

inductive_simps spec_null: "syscall_spec ty m NullSyscall n a r bs"
inductive_simps spec_putchar: "syscall_spec ty m SysPutchar n a r bs"

lemma say_outputs:
  assumes "uart_live w" and "formats (ram w) fmt va t"
  obtains w' where "say (logger_output level fmt va) w = Some w'" "uart_io 0 (log_line level t) w w'"
  using outputs_say [OF assms] by (rule outputsE)

lemma ucast_char_slot: "(ucast (ucast (ucast (ucast (c :: u64) :: u8) :: u64) :: u32) :: u8) = ucast c"
  by (rule bit_word_eqI) (simp add: bit_simps)

lemma call_syscall_spec:
  assumes "syscall_spec (uart_ty w) (ram w) h a0 a1 r bs" and live: "uart_live w"
  shows "\<exists>w'. call_syscall h a0 a1 w = Some (r, w') \<and> uart_io 0 bs w w'"
  using assms(1)
proof cases
  case put_char
  obtain w' where "uart_putchar (ucast a0) w = Some w'" "uart_io 0 (uart_enc w (ucast a0)) w w'"
    using uart.putc_io [OF live] by blast
  then show ?thesis using put_char by (simp add: sys_putchar_def uart_enc_def)
next
  case (put_string s)
  obtain w' where "uart_puts (ram_ptr (ram w) a0) w = Some w'" "uart_io 0 (concat (map crlf s)) w w'"
    using uart_puts_outputs [OF live put_string(4)] by (rule outputsE)
  then show ?thesis using put_string strlen_cstr [OF put_string(4)] by (simp add: sys_puts_def)
next
  case log_char
  have "formats (ram w) (str ''%c'') [ucast (ucast a1 :: u8)] [ucast a1]"
    using formats_c [of "ram w" "ucast (ucast a1 :: u8)"] by (simp add: ucast_char_slot)
  then obtain w' where "say (logger ''%c'' [ucast (ucast a1 :: u8)]) w = Some w'"
      "uart_io 0 (log_line LOG_LEVEL_NORMAL [ucast a1]) w w'"
    unfolding log_defs by (rule say_outputs [OF live])
  then show ?thesis using log_char by (simp add: default_syscall_handler_def)
next
  case (log_string s)
  obtain w' where "say (logger ''%s'' [a1]) w = Some w'" "uart_io 0 (log_line LOG_LEVEL_NORMAL s) w w'"
    unfolding log_defs using formats_s [OF log_string(5)] by (rule say_outputs [OF live])
  then show ?thesis using log_string by (simp add: default_syscall_handler_def)
next
  case unknown
  have "prints (say (logger_warn (''Unknown syscall: 0x%llx'' @ nl) [a0])) (\<lambda>ty. bs)"
    unfolding unknown log_defs by (rule prints_hex_line) (simp_all add: nl_def)
  then obtain w' where "say (logger_warn (''Unknown syscall: 0x%llx'' @ nl) [a0]) w = Some w'" "uart_io 0 bs w w'"
    using live by (rule printsE)
  then show ?thesis using unknown by (simp add: default_syscall_handler_def)
qed

text \<open>A call that returns had such a meaning: with a pointer to no string it prints forever.\<close>

lemma vsnprintf_endless:
  assumes "\<And>i. ram_ptr m a i \<noteq> 0"
  shows "my_vsnprintf cap n (str ''%s'') [a] m = None"
  by (simp add: my_vsnprintf_def morefmt.simps va_arg_def print_str_def for_chars_endless [OF assms])

lemma puts_endless:
  assumes "\<And>i. v i \<noteq> 0"
  shows "uart_puts v w = None"
  by (cases "uart_ty w") (simp_all add: uart_puts_def dw_uart_puts_def pl011_puts_def for_chars_endless [OF assms])

lemma call_syscall_returns:
  assumes "call_syscall h a0 a1 w = Some (r, w')"
  shows "\<exists>r' bs. syscall_spec (uart_ty w) (ram w) h a0 a1 r' bs"
proof (cases h)
  case SysPuts
  have "call_syscall h a0 a1 w = None" if "\<forall>i. ram_ptr (ram w) a0 i \<noteq> 0"
    using puts_endless [of "ram_ptr (ram w) a0" w] that SysPuts by (simp add: sys_puts_def Let_def)
  then have "\<not> (\<forall>i. ram_ptr (ram w) a0 i \<noteq> 0)" using assms by fastforce
  then show ?thesis using cstr_or_endless [of "ram_ptr (ram w) a0"] SysPuts by (auto intro: syscall_spec.intros)
next
  case DefaultSyscall
  show ?thesis
  proof (cases "a0 = 1")
    case True
    have "call_syscall h a0 a1 w = None" if "\<forall>i. ram_ptr (ram w) a1 i \<noteq> 0"
    proof -
      have "my_vsnprintf BUFSZ (int BUFSZ) (str ''%s'') [a1] (ram w) = None" using vsnprintf_endless that by blast
      then show ?thesis using DefaultSyscall True by (simp add: default_syscall_handler_def say_def log_defs logger_output_def)
    qed
    then have "\<not> (\<forall>i. ram_ptr (ram w) a1 i \<noteq> 0)" using assms by fastforce
    then show ?thesis
      using cstr_or_endless [of "ram_ptr (ram w) a1"] DefaultSyscall True by (auto intro: syscall_spec.intros)
  next
    case False
    then show ?thesis using DefaultSyscall by (cases "a0 = 0") (auto intro: syscall_spec.intros)
  qed
next
  case SysPutchar
  then show ?thesis by (auto intro: syscall_spec.intros)
qed (use assms in simp)

lemma call_syscall_io:
  assumes "call_syscall h a0 a1 w = Some (r, w')" and "uart_live w"
  shows "\<exists>bs. uart_io 0 bs w w'"
  using call_syscall_returns [OF assms(1)] call_syscall_spec [OF _ assms(2)] assms(1) by fastforce

text \<open>Printing a string is stuck exactly where the memory has no zero byte at all, as pointers wrap around.\<close>

lemma ram_ptr_nonzero: "(\<forall>i. ram_ptr m p i \<noteq> 0) \<longleftrightarrow> (\<forall>a. m a \<noteq> 0)"
proof
  assume all: "\<forall>i. ram_ptr m p i \<noteq> 0"
  have "m a \<noteq> 0" for a using all [rule_format, of "a - p"] by (simp add: ram_ptr_def)
  then show "\<forall>a. m a \<noteq> 0" by blast
qed (simp add: ram_ptr_def)

lemma cstr_iff_zero: "(\<exists>s. is_cstr (ram_ptr m p) s) \<longleftrightarrow> (\<exists>a. m a = 0)"
proof
  show "\<exists>s. is_cstr (ram_ptr m p) s \<Longrightarrow> \<exists>a. m a = 0" by (auto simp: is_cstr_def ram_ptr_def)
  show "\<exists>a. m a = 0 \<Longrightarrow> \<exists>s. is_cstr (ram_ptr m p) s"
    using cstr_or_endless [of "ram_ptr m p"] ram_ptr_nonzero [of m p] by blast
qed

lemma call_syscall_stuck:
  assumes live: "uart_live w" and h: "h \<noteq> NullSyscall"
  shows "call_syscall h a0 a1 w = None \<longleftrightarrow> (h = SysPuts \<or> h = DefaultSyscall \<and> a0 = 1) \<and> (\<forall>a. ram w a \<noteq> 0)"
proof -
  have "call_syscall h a0 a1 w = None \<longleftrightarrow> \<not> (\<exists>r bs. syscall_spec (uart_ty w) (ram w) h a0 a1 r bs)"
  proof
    assume "call_syscall h a0 a1 w = None"
    then show "\<not> (\<exists>r bs. syscall_spec (uart_ty w) (ram w) h a0 a1 r bs)" using call_syscall_spec [OF _ live] by fastforce
  next
    assume "\<not> (\<exists>r bs. syscall_spec (uart_ty w) (ram w) h a0 a1 r bs)"
    then show "call_syscall h a0 a1 w = None" using call_syscall_returns [of h a0 a1 w] by (cases "call_syscall h a0 a1 w") fastforce+
  qed
  moreover have "(\<exists>r bs. syscall_spec (uart_ty w) (ram w) h a0 a1 r bs) \<longleftrightarrow>
      \<not> ((h = SysPuts \<or> h = DefaultSyscall \<and> a0 = 1) \<and> (\<forall>a. ram w a \<noteq> 0))"
  proof (cases h)
    case SysPuts
    have "(\<exists>r bs. syscall_spec (uart_ty w) (ram w) SysPuts a0 a1 r bs) \<longleftrightarrow> (\<exists>s. is_cstr (ram_ptr (ram w) a0) s)"
      by (auto intro: syscall_spec.intros elim!: spec_puts)
    then show ?thesis using SysPuts by (simp add: cstr_iff_zero)
  next
    case DefaultSyscall
    have "(\<exists>r bs. syscall_spec (uart_ty w) (ram w) DefaultSyscall 1 a1 r bs) \<longleftrightarrow> (\<exists>s. is_cstr (ram_ptr (ram w) a1) s)"
      by (auto intro: syscall_spec.intros elim!: spec_default)
    moreover have "\<exists>r bs. syscall_spec (uart_ty w) (ram w) DefaultSyscall a0 a1 r bs" if "a0 \<noteq> 1"
      using that by (cases "a0 = 0") (auto intro: syscall_spec.intros)
    ultimately show ?thesis using DefaultSyscall by (cases "a0 = 1") (simp_all add: cstr_iff_zero)
  next
    case SysPutchar
    then show ?thesis by (auto intro: syscall_spec.intros)
  qed (use h in simp)
  ultimately show ?thesis by (simp only: not_not)
qed

text \<open>The handler a number selects.\<close>

definition syscall_of :: "'a trap_machine_scheme \<Rightarrow> u64 \<Rightarrow> syscall_handler_t" where
  "syscall_of w n = (if n < 256 \<and> syscall_entry w n \<noteq> NullSyscall then syscall_entry w n else DefaultSyscall)"

lemma handle_syscall_dispatch:
  "handle_syscall f w = do {
     (r, w) \<leftarrow> call_syscall (syscall_of w (xregs f ! 17)) (xregs f ! 10) (xregs f ! 11) w;
     Some (f\<lparr>xregs := (xregs f)[10 := r], sepc := sepc f + 4\<rparr>, w) }"
  by (simp add: handle_syscall_def syscall_of_def syscall_entry_def Let_def)

section \<open>The kernel's invariant\<close>

definition kernel_ok :: "'a trap_machine_scheme \<Rightarrow> bool" where
  "kernel_ok w \<longleftrightarrow> uart_live w \<and> (\<exists>n. clock_at n w) \<and> tables_wf w \<and>
     NullHandler \<notin> set (exception_handlers w) \<and> NullHandler \<notin> set (interrupt_handlers w)"

lemma nth_not_in: "x \<notin> set t \<Longrightarrow> i < length t \<Longrightarrow> t ! i \<noteq> x"
  by (metis nth_mem)

lemma handler_of_ok: "kernel_ok w \<Longrightarrow> handler_of w c \<noteq> NullHandler"
  using nth_not_in [of NullHandler "exception_handlers w"] nth_not_in [of NullHandler "interrupt_handlers w"]
  by (auto simp: kernel_ok_def tables_wf_def handler_of_def exception_entry_def interrupt_entry_def Let_def less_16_256)

lemma trap_tables_io:
  fixes w w' :: "'a trap_machine_scheme"
  assumes "uart_io k bs w w'"
  shows "exception_handlers w' = exception_handlers w" "interrupt_handlers w' = interrupt_handlers w"
    "syscall_handlers w' = syscall_handlers w" "trap_count w' = trap_count w"
  using assms by (auto simp: uart_io_def)

lemma clock_io: "uart_io k bs w w' \<Longrightarrow> clock_at n w' = clock_at n w"
  by (auto simp: clock_at_def timer_more_io)

lemma kernel_ok_io: "kernel_ok w \<Longrightarrow> uart_io k bs w w' \<Longrightarrow> kernel_ok w'"
  using trap_tables_io [of k bs w w'] uart_live_io [of w k bs w'] clock_io [of k bs w w']
  by (auto simp: kernel_ok_def tables_wf_def)

lemma handler_state_tables:
  "exception_handlers (handler_state n h f w) = exception_handlers w"
  "interrupt_handlers (handler_state n h f w) = interrupt_handlers w"
  "syscall_handlers (handler_state n h f w) = syscall_handlers w"
  "trap_count (handler_state n h f w) = trap_count w" "csr_sstatus (handler_state n h f w) = csr_sstatus w"
  by (simp_all add: handler_state_def tick_state_def)

lemma handler_state_live: "uart_live (handler_state n h f w) = uart_live w"
proof -
  have "uart_live (tick_state (Suc n) w) = uart_live w" by (rule uart_live_cong) (rule tick_state_same)+
  then show ?thesis by (simp add: handler_state_def)
qed

lemma handler_state_clock: "clock_at n w \<Longrightarrow> \<exists>k. clock_at k (handler_state n h f w)"
  using clock_tick_state by (auto simp: handler_state_def)

text \<open>An exception or interrupt is always handled, with the outcome its handler determines.\<close>

lemma handle_exception_total:
  assumes "kernel_ok w" and "clock_at n w"
  shows "\<exists>w'. handle_exception f w = Some (handler_result (handler_of w (scause f)) f, w') \<and>
    uart_io 0 (count_text (trap_count w + 1) @ handler_text n (handler_of w (scause f)) f)
      (handler_state n (handler_of w (scause f)) f (w\<lparr>trap_count := trap_count w + 1\<rparr>)) w' \<and> kernel_ok w'"
proof -
  let ?h = "handler_of w (scause f)"
  let ?v = "handler_state n ?h f (w\<lparr>trap_count := trap_count w + 1\<rparr>)"
  have "uart_live w" using assms(1) by (simp add: kernel_ok_def)
  then obtain w' where w': "handle_exception f w = Some (handler_result ?h f, w')"
      "uart_io 0 (count_text (trap_count w + 1) @ handler_text n ?h f) ?v w'"
    using assms(2) handler_of_ok [OF assms(1)] by (auto elim!: yieldsE [OF handle_exception_yields])
  have "uart_live (w\<lparr>trap_count := trap_count w + 1\<rparr>) = uart_live w" by (rule uart_live_cong) simp_all
  then have "kernel_ok ?v"
    using assms handler_state_clock [of n "w\<lparr>trap_count := trap_count w + 1\<rparr>"]
    by (simp add: kernel_ok_def tables_wf_def handler_state_tables handler_state_live trap_count_same)
  then show ?thesis using w' kernel_ok_io by blast
qed

text \<open>The whole trap: the handler between saving and restoring the registers.\<close>

text \<open>The registers of \<open>cpu\<close>, with \<^verbatim>\<open>scause\<close> and \<^verbatim>\<open>stval\<close> as the handler left them.\<close>

definition resumed :: "cpu_t \<Rightarrow> cpu_t \<Rightarrow> cpu_t" where
  "resumed left cpu = cpu\<lparr>csr_scause := csr_scause left, csr_stval := csr_stval left\<rparr>"

lemma restore_saved:
  assumes "length (gpr cpu) = 32" and "gpr cpu ! 0 = 0"
  shows "restore_registers (save_registers slot0 cpu w) left = resumed left cpu"
proof -
  have "(gpr cpu)[0 := 0] = gpr cpu" using assms by (metis list_update_id)
  then show ?thesis by (cases cpu; cases left) (simp add: restore_registers_def save_registers_def resumed_def)
qed

lemma save_registers_fields:
  "scause (save_registers slot0 cpu w) = csr_scause cpu" "sepc (save_registers slot0 cpu w) = csr_sepc cpu"
  "sstatus (save_registers slot0 cpu w) = csr_sstatus w"
  "0 < i \<Longrightarrow> xregs (save_registers slot0 cpu w) ! i = gpr cpu ! i"
  by (simp_all add: save_registers_def READ_SSTATUS_def)

lemma sstatus_restored: "csr_sstatus w' = c \<Longrightarrow> WRITE_SSTATUS c w' = w'"
  by (simp add: WRITE_SSTATUS_def)

lemma handler_result_sstatus: "handler_result h f = Returned g \<Longrightarrow> sstatus g = sstatus f"
  by (cases h) auto

lemma trap_handler_exception:
  fixes w :: "'a trap_machine_scheme" and cpu left :: cpu_t and slot0 :: u64
  assumes "kernel_ok w" and "clock_at n w" and "csr_scause cpu \<noteq> 9"
  defines "h \<equiv> handler_of w (csr_scause cpu)" and "f \<equiv> save_registers slot0 cpu w"
  shows "\<exists>w'. trap_handler slot0 left cpu w = Some (case handler_result h f of
      Returned g \<Rightarrow> Returned (restore_registers g left) | Halted \<Rightarrow> Halted, w') \<and>
    uart_io 0 (count_text (trap_count w + 1) @ handler_text n h f)
      (handler_state n h f (w\<lparr>trap_count := trap_count w + 1\<rparr>)) w' \<and> kernel_ok w'"
proof -
  have f: "scause f = csr_scause cpu" "sstatus f = csr_sstatus w" by (simp_all add: f_def save_registers_fields)
  obtain w' where w': "handle_exception f w = Some (handler_result h f, w')"
    "uart_io 0 (count_text (trap_count w + 1) @ handler_text n h f) (handler_state n h f (w\<lparr>trap_count := trap_count w + 1\<rparr>)) w'"
    "kernel_ok w'"
    using handle_exception_total [OF assms(1,2), of f] unfolding f h_def by blast
  have "csr_sstatus w' = csr_sstatus w"
    using uart_io_frame [OF w'(2)] by (simp add: handler_state_tables)
  then have "handler_result h f = Returned g \<Longrightarrow> WRITE_SSTATUS (sstatus g) w' = w'" for g
    using handler_result_sstatus [of h f g] f(2) by (simp add: sstatus_restored)
  then have "trap_handler slot0 left cpu w = Some (case handler_result h f of
      Returned g \<Rightarrow> Returned (restore_registers g left) | Halted \<Rightarrow> Halted, w')"
    using w'(1) assms(3) by (cases "handler_result h f") (simp_all add: trap_handler_def cause_defs f_def [symmetric])
  then show ?thesis using w'(2,3) by blast
qed

lemma trap_handler_syscall:
  assumes "uart_live w" and "csr_scause cpu = 9"
    and spec: "syscall_spec (uart_ty w) (ram w) (syscall_of w (gpr cpu ! 17)) (gpr cpu ! 10) (gpr cpu ! 11) r bs"
    and regs: "length (gpr cpu) = 32" "gpr cpu ! 0 = 0"
  shows "\<exists>w'. trap_handler slot0 left cpu w =
      Some (Returned (resumed left (cpu\<lparr>gpr := (gpr cpu)[10 := r], csr_sepc := csr_sepc cpu + 4\<rparr>)), w') \<and> uart_io 0 bs w w'"
proof -
  let ?f = "save_registers slot0 cpu w"
  obtain w' where w': "call_syscall (syscall_of w (gpr cpu ! 17)) (gpr cpu ! 10) (gpr cpu ! 11) w = Some (r, w')"
      "uart_io 0 bs w w'"
    using call_syscall_spec [OF spec assms(1)] by blast
  then have "handle_syscall ?f w = Some (?f\<lparr>xregs := (xregs ?f)[10 := r], sepc := sepc ?f + 4\<rparr>, w')"
    by (simp add: handle_syscall_dispatch save_registers_fields)
  moreover have "restore_registers (?f\<lparr>xregs := (xregs ?f)[10 := r], sepc := sepc ?f + 4\<rparr>) left =
      (restore_registers ?f left)\<lparr>gpr := (gpr (restore_registers ?f left))[10 := r], csr_sepc := csr_sepc cpu + 4\<rparr>"
    by (simp add: restore_registers_def save_registers_fields list_update_swap [of 0 10])
  then have "restore_registers (?f\<lparr>xregs := (xregs ?f)[10 := r], sepc := sepc ?f + 4\<rparr>) left =
      resumed left (cpu\<lparr>gpr := (gpr cpu)[10 := r], csr_sepc := csr_sepc cpu + 4\<rparr>)"
    unfolding restore_saved [OF regs] by (simp add: resumed_def)
  moreover have "csr_sstatus w' = csr_sstatus w" using uart_io_frame [OF w'(2)] by simp
  ultimately show ?thesis
    using w'(2) assms(2) by (simp add: trap_handler_def cause_defs save_registers_fields sstatus_restored)
qed

lemma trap_handler_ecall_io:
  assumes "trap_handler slot0 left cpu w = Some (r, w')" and "csr_scause cpu = 9" and "uart_live w"
  shows "\<exists>bs. uart_io 0 bs w w'"
proof -
  let ?f = "save_registers slot0 cpu w"
  obtain v w1 where v: "call_syscall (syscall_of w (xregs ?f ! 17)) (xregs ?f ! 10) (xregs ?f ! 11) w = Some (v, w1)"
      "w' = WRITE_SSTATUS (sstatus ?f) w1"
    using assms(1,2) by (auto simp: trap_handler_def cause_defs handle_syscall_dispatch Let_def bind_eq_Some_conv)
  obtain bs where io: "uart_io 0 bs w w1" using call_syscall_io [OF v(1) assms(3)] by blast
  then have "csr_sstatus w1 = csr_sstatus w" by (rule uart_io_frame)
  then have "w' = w1" using v(2) by (simp add: save_registers_fields sstatus_restored)
  then show ?thesis using io by blast
qed

definition prints_string :: "'a trap_machine_scheme \<Rightarrow> cpu_t \<Rightarrow> bool" where
  "prints_string w cpu \<longleftrightarrow> csr_scause cpu = 9 \<and>
     (syscall_of w (gpr cpu ! 17) = SysPuts \<or> syscall_of w (gpr cpu ! 17) = DefaultSyscall \<and> gpr cpu ! 10 = 1)"

lemma trap_handler_stuck:
  assumes ok: "kernel_ok w"
  shows "trap_handler slot0 left cpu w = None \<longleftrightarrow> prints_string w cpu \<and> (\<forall>a. ram w a \<noteq> 0)"
proof (cases "csr_scause cpu = 9")
  case True
  let ?h = "syscall_of w (gpr cpu ! 17)"
  have "?h \<noteq> NullSyscall" by (simp add: syscall_of_def)
  moreover have "uart_live w" using ok by (simp add: kernel_ok_def)
  moreover have "trap_handler slot0 left cpu w = None \<longleftrightarrow> call_syscall ?h (gpr cpu ! 10) (gpr cpu ! 11) w = None"
    using True by (cases "call_syscall ?h (gpr cpu ! 10) (gpr cpu ! 11) w")
      (auto simp: trap_handler_def cause_defs handle_syscall_dispatch save_registers_fields Let_def)
  ultimately show ?thesis using True by (simp add: call_syscall_stuck prints_string_def)
next
  case False
  obtain n where "clock_at n w" using ok by (auto simp: kernel_ok_def)
  then show ?thesis using trap_handler_exception [OF ok _ False, of n slot0 left] False by (auto simp: prints_string_def)
qed

section \<open>Reachable states\<close>

text \<open>
  What happens to the kernel state: traps that return, with any registers, and registrations of
  handlers.
\<close>

inductive kernel_step :: "'a trap_machine_scheme \<Rightarrow> 'a trap_machine_scheme \<Rightarrow> bool" where
  trap: "trap_handler slot0 left cpu w = Some (r, w') \<Longrightarrow> kernel_step w w'"
| register_exception: "h \<noteq> NullHandler \<Longrightarrow> kernel_step w (register_exception_handler c h w)"
| register_interrupt: "h \<noteq> NullHandler \<Longrightarrow> kernel_step w (register_interrupt_handler c h w)"
| register_syscall: "kernel_step w (register_syscall_handler c g w)"

inductive kernel_steps :: "'a trap_machine_scheme \<Rightarrow> 'a trap_machine_scheme \<Rightarrow> bool" where
  here: "kernel_steps w w"
| more: "kernel_steps w v \<Longrightarrow> kernel_step v w' \<Longrightarrow> kernel_steps w w'"

inductive_cases kernel_stepE: "kernel_step w w'"

lemma set_update_word: "x \<notin> set t \<Longrightarrow> h \<noteq> x \<Longrightarrow> x \<notin> set (t[i := h])"
  using set_update_subset_insert [of t i h] by auto

lemma trap_step_ok:
  assumes "kernel_ok w" and "trap_handler slot0 left cpu w = Some (r, w')"
  shows "kernel_ok w'"
proof (cases "csr_scause cpu = 9")
  case True
  have "uart_live w" using assms(1) by (simp add: kernel_ok_def)
  then show ?thesis using trap_handler_ecall_io [OF assms(2) True] kernel_ok_io [OF assms(1)] by blast
next
  case False
  obtain n where "clock_at n w" using assms(1) by (auto simp: kernel_ok_def)
  then show ?thesis using trap_handler_exception [OF assms(1) _ False, of n slot0 left] assms(2) by auto
qed

lemma register_ok:
  assumes "kernel_ok w"
  shows "h \<noteq> NullHandler \<Longrightarrow> kernel_ok (register_exception_handler c h w)"
    and "h \<noteq> NullHandler \<Longrightarrow> kernel_ok (register_interrupt_handler c h w)"
    and "kernel_ok (register_syscall_handler c g w)"
proof -
  have live: "uart_live (register_exception_handler c h w) = uart_live w" "uart_live (register_interrupt_handler c h w) = uart_live w"
    "uart_live (register_syscall_handler c g w) = uart_live w"
    by (rule uart_live_cong; simp add: register_exception_handler_def register_interrupt_handler_def register_syscall_handler_def)+
  have clock: "clock_at n (register_exception_handler c h w) = clock_at n w" "clock_at n (register_interrupt_handler c h w) = clock_at n w"
    "clock_at n (register_syscall_handler c g w) = clock_at n w" for n
    by (simp_all add: clock_at_def register_exception_handler_def register_interrupt_handler_def register_syscall_handler_def)
  have wf: "tables_wf w" using assms by (simp add: kernel_ok_def)
  note wfs = ex.wf_register [OF wf] irq.wf_register [OF wf] sys.wf_register [OF wf]
  show "h \<noteq> NullHandler \<Longrightarrow> kernel_ok (register_exception_handler c h w)"
    using assms wfs by (simp add: kernel_ok_def live clock) (simp add: register_exception_handler_def set_update_word)
  show "h \<noteq> NullHandler \<Longrightarrow> kernel_ok (register_interrupt_handler c h w)"
    using assms wfs by (simp add: kernel_ok_def live clock) (simp add: register_interrupt_handler_def set_update_word)
  show "kernel_ok (register_syscall_handler c g w)"
    using assms wfs by (simp add: kernel_ok_def live clock) (simp add: register_syscall_handler_def)
qed

lemma kernel_step_ok: "kernel_ok w \<Longrightarrow> kernel_step w w' \<Longrightarrow> kernel_ok w'"
  by (erule kernel_stepE) (auto intro: trap_step_ok register_ok)

lemma kernel_steps_ok: "kernel_steps w w' \<Longrightarrow> kernel_ok w \<Longrightarrow> kernel_ok w'"
  by (induction rule: kernel_steps.induct) (auto intro: kernel_step_ok)

section \<open>The gateway\<close>

lemma write_loop_io:
  assumes "uart_live w" and "i \<le> count"
  shows "\<exists>w'. write_loop buf count i w = Some w' \<and>
    uart_io 0 (concat (map (\<lambda>k. uart_enc w (ram w (buf + of_nat k))) [unat i..<unat count])) w w'"
  using assms
proof (induction "unat count - unat i" arbitrary: i w)
  case 0
  then have "i = count" by (simp add: word_le_nat_alt word_unat_eq_iff)
  then show ?case by (subst write_loop.simps) (simp add: uart_io_refl)
next
  case (Suc d)
  then have less: "i < count" by (simp add: word_less_nat_alt)
  then have i1: "unat (i + 1) = Suc (unat i)" "i + 1 \<le> count"
    using unat_succ [of i count] by (simp_all add: word_less_nat_alt word_le_nat_alt)
  obtain w1 where w1: "uart_putchar (ram w (buf + i)) w = Some w1" "uart_io 0 (uart_enc w (ram w (buf + i))) w w1"
    using uart.putc_io [OF Suc.prems(1)] by blast
  have same: "uart_enc w1 = uart_enc w" "ram w1 = ram w" using uart_enc_io [OF w1(2)] uart_io_frame(3) [OF w1(2)] by auto
  have d: "d = unat count - unat (i + 1)" using Suc.hyps(2) i1(1) by simp
  obtain w2 where w2: "write_loop buf count (i + 1) w1 = Some w2"
    "uart_io 0 (concat (map (\<lambda>k. uart_enc w (ram w (buf + of_nat k))) [Suc (unat i)..<unat count])) w1 w2"
    using Suc.hyps(1) [OF d uart_live_io [OF Suc.prems(1) w1(2)] i1(2)] i1(1) same by auto
  have "[unat i..<unat count] = unat i # [Suc (unat i)..<unat count]"
    using less by (simp add: word_less_nat_alt upt_conv_Cons)
  then show ?case
    using uart_io_trans [OF w1(2) w2(2)] w1(1) w2(1) less by (subst write_loop.simps) simp
qed

definition gateway_text :: "u64 \<Rightarrow> u64 \<Rightarrow> u64 \<Rightarrow> u64 \<Rightarrow> u8 list" where
  "gateway_text n a b c = log_line LOG_LEVEL_INFO (str ''[GATEWAY] Syscall ID: '' @ show_int (sint n) @ str '', args: 0x'' @
     show_nat 16 (unat a) @ str '', 0x'' @ show_nat 16 (unat b) @ str '', 0x'' @ show_nat 16 (unat c) @ str nl)"

lemma prints_gateway:
  assumes "sint n \<noteq> - (2 ^ 63)"
  shows "prints (say (logger_info (''[GATEWAY] Syscall ID: %lld, args: 0x%llx, 0x%llx, 0x%llx'' @ nl) [n, a, b, c]))
    (\<lambda>ty. gateway_text n a b c)"
proof -
  have fmt: "str (''[GATEWAY] Syscall ID: %lld, args: 0x%llx, 0x%llx, 0x%llx'' @ nl) =
      str ''[GATEWAY] Syscall ID: '' @ str ''%lld'' @ str '', args: 0x'' @ str ''%llx'' @ str '', 0x'' @ str ''%llx'' @
      str '', 0x'' @ str ''%llx'' @ str nl" by simp
  have "formats m (str (''[GATEWAY] Syscall ID: %lld, args: 0x%llx, 0x%llx, 0x%llx'' @ nl)) [n, a, b, c]
      (str ''[GATEWAY] Syscall ID: '' @ show_int (sint n) @ str '', args: 0x'' @ show_nat 16 (unat a) @ str '', 0x'' @
        show_nat 16 (unat b) @ str '', 0x'' @ show_nat 16 (unat c) @ str nl)" for m
    unfolding fmt
    by (rule formats_plain, simp, rule formats_lld [OF _ assms], rule formats_plain, simp, rule formats_llx,
        rule formats_plain, simp, rule formats_llx, rule formats_plain, simp, rule formats_llx, rule formats_lit)
      (simp add: nl_def)
  then show ?thesis unfolding log_defs gateway_text_def by (rule prints_say)
qed

lemma exec_directives_prefix:
  assumes "\<And>s. exec_directives cap m ds va s = None"
  shows "exec_directives cap m (map Byte bs @ ds) va s = None"
  using assms
proof (induction bs arbitrary: s)
  case (Cons b bs)
  then show ?case by (cases "addchar cap b s") simp_all
qed simp

section \<open>Properties\<close>

text \<open>The tables as they are loaded: null pointers.\<close>

definition trap_boot :: "timer_machine \<Rightarrow> trap_machine" where
  "trap_boot w = timer_machine.extend w
     (trap_machine.fields (replicate 16 NullHandler) (replicate 16 NullHandler) (replicate 256 NullSyscall) 0)"

lemma trap_boot_fields:
  "plat (trap_boot w) = plat w" "uart_ty (trap_boot w) = uart_ty w" "mmio_rd (trap_boot w) = mmio_rd w"
  "clock_at n (trap_boot w) = clock_at n w" "ram (trap_boot w) = ram w" "tables_wf (trap_boot w)"
  "csr_sstatus (trap_boot w) = csr_sstatus w" "heap (trap_boot w) = heap w" "trap_count (trap_boot w) = 0"
  by (simp_all add: trap_boot_def clock_at_def tables_wf_def timer_machine.defs trap_machine.defs)

lemma exception_init_eq:
  assumes "tables_wf w"
  shows "exception_init sp w = w\<lparr>exception_handlers := (replicate 16 DefaultException)[3 := EbreakHandler],
    interrupt_handlers := replicate 16 DefaultInterrupt, syscall_handlers := replicate 256 DefaultSyscall, csr_sscratch := sp\<rparr>"
  using assms by (simp add: exception_init_def tables_wf_def fill_table_eq cause_defs register_exception_handler_def
      CSR_WRITE_sscratch_def)

lemma exception_init_ok:
  assumes "uart_live w" and "clock_at n w" and "tables_wf w"
  shows "kernel_ok (exception_init sp w)"
proof -
  have "uart_live (exception_init sp w) = uart_live w"
    unfolding exception_init_eq [OF assms(3)] by (rule uart_live_cong) simp_all
  moreover have "clock_at n (exception_init sp w)"
    unfolding exception_init_eq [OF assms(3)] using assms(2) by (simp add: clock_at_def)
  moreover have "NullHandler \<notin> set (exception_handlers (exception_init sp w))"
    "NullHandler \<notin> set (interrupt_handlers (exception_init sp w))"
    unfolding exception_init_eq [OF assms(3)] by (simp_all add: set_update_word)
  ultimately show ?thesis using assms(1) exception_init_tables(1) [OF assms(3)] by (auto simp: kernel_ok_def)
qed

definition demo_trap_machine :: trap_machine where
  "demo_trap_machine = exception_init 0x80210000 (trap_boot demo_timer_machine)"

definition demo_cpu :: "u64 \<Rightarrow> cpu_t" where
  "demo_cpu cause = \<lparr>gpr = 0 # replicate 31 7, fpr = replicate 32 9, csr_sepc = 0x80200100, csr_scause = cause,
     csr_stval = 0, csr_fcsr = 0\<rparr>"

lemma demo_trap_live: "uart_live (trap_boot demo_timer_machine)"
proof -
  have "uart_live (trap_boot demo_timer_machine) = uart_live demo_timer_machine" by (rule uart_live_cong) (rule trap_boot_fields)+
  then show ?thesis using demo_timer_facts by simp
qed

lemma demo_trap_eq:
  "demo_trap_machine = (trap_boot demo_timer_machine)\<lparr>exception_handlers := (replicate 16 DefaultException)[3 := EbreakHandler],
    interrupt_handlers := replicate 16 DefaultInterrupt, syscall_handlers := replicate 256 DefaultSyscall, csr_sscratch := 0x80210000\<rparr>"
  unfolding demo_trap_machine_def by (rule exception_init_eq [OF trap_boot_fields(6)])

lemma demo_trap_ok: "kernel_ok demo_trap_machine" "clock_at 0 demo_trap_machine" "uart_live demo_trap_machine"
proof -
  show ok: "kernel_ok demo_trap_machine"
    unfolding demo_trap_machine_def using demo_timer_facts
    by (intro exception_init_ok [OF demo_trap_live, of 0]) (simp_all add: trap_boot_fields)
  then show "uart_live demo_trap_machine" by (simp add: kernel_ok_def)
  have "clock_at 0 demo_trap_machine = clock_at 0 (trap_boot demo_timer_machine)"
    unfolding demo_trap_eq by (simp add: clock_at_def)
  then show "clock_at 0 demo_trap_machine" using demo_timer_facts by (simp add: trap_boot_fields)
qed

lemma demo_trap_entries:
  "handler_of demo_trap_machine 0x8000000000000005 = DefaultInterrupt" "handler_of demo_trap_machine 3 = EbreakHandler"
  "handler_of demo_trap_machine 2 = DefaultException" "syscall_of demo_trap_machine n = DefaultSyscall"
  by (simp_all add: demo_trap_eq handler_of_def interrupt_entry_def exception_entry_def syscall_of_def syscall_entry_def
      INTERRUPT_BIT_def less_16_256 Let_def)

text \<open>A timer interrupt with the default handler in place.\<close>

lemma timer_trap:
  assumes "kernel_ok w" and "clock_at n w" and "csr_scause cpu = 0x8000000000000005"
    and "handler_of w 0x8000000000000005 = DefaultInterrupt" and "length (gpr cpu) = 32" and "gpr cpu ! 0 = 0"
  shows "\<exists>w'. trap_handler slot0 left cpu w =
      Some (Returned (cpu\<lparr>csr_scause := csr_scause left, csr_stval := csr_stval left\<rparr>), w') \<and>
    uart_io 0 (count_text (trap_count w + 1) @ tick_text (Suc n)) (tick_state (Suc n) (w\<lparr>trap_count := trap_count w + 1\<rparr>)) w'"
proof -
  have irq: "irq_number (save_registers slot0 cpu w) = 5"
    using assms(3) by (simp add: irq_number_def save_registers_fields INTERRUPT_BIT_def)
  have cpu: "restore_registers (save_registers slot0 cpu w) left = cpu\<lparr>csr_scause := csr_scause left, csr_stval := csr_stval left\<rparr>"
    using restore_saved [OF assms(5,6)] by (simp add: resumed_def)
  show ?thesis
    using trap_handler_exception [OF assms(1,2), of cpu slot0 left] assms(3,4) irq cpu
    by (simp add: handler_state_def handler_text_def ticks_clock_def) blast
qed

text \<open>
  C7.  A timer interrupt is transparent to the interrupted code: if the default handler is in place,
  the trap returns with every integer and floating-point register, the program counter, the
  status and the FP control register as they were, and the kernel's state is that of one clock tick.
\<close>

theorem timer_interrupt_transparent:
  assumes "kernel_ok w" and "clock_at n w" and "csr_scause cpu = 0x8000000000000005"
    and "handler_of w 0x8000000000000005 = DefaultInterrupt" and "length (gpr cpu) = 32" and "gpr cpu ! 0 = 0"
  shows "\<exists>w'. trap_handler slot0 left cpu w =
      Some (Returned (cpu\<lparr>csr_scause := csr_scause left, csr_stval := csr_stval left\<rparr>), w') \<and>
    uart_io 0 (count_text (trap_count w + 1) @ tick_text (Suc n)) (tick_state (Suc n) (w\<lparr>trap_count := trap_count w + 1\<rparr>)) w'"
  using assms by (rule timer_trap)

theorem timer_interrupt_transparent_witness:
  "\<exists>w'. trap_handler 0 (demo_cpu 0) (demo_cpu 0x8000000000000005) demo_trap_machine =
       Some (Returned (demo_cpu 0), w') \<and> g_system_ticks w' = 1"
proof -
  obtain w' where "trap_handler 0 (demo_cpu 0) (demo_cpu 0x8000000000000005) demo_trap_machine = Some (Returned (demo_cpu 0), w')"
    and io: "uart_io 0 (count_text (trap_count demo_trap_machine + 1) @ tick_text (Suc 0))
      (tick_state (Suc 0) (demo_trap_machine\<lparr>trap_count := trap_count demo_trap_machine + 1\<rparr>)) w'"
    using timer_interrupt_transparent [OF demo_trap_ok(1,2), of "demo_cpu 0x8000000000000005" 0 "demo_cpu 0"] demo_trap_entries
    by (auto simp: demo_cpu_def)
  then show ?thesis using timer_more_io(1) [OF io] by (simp add: tick_state_def)
qed

text \<open>
  C10.  Every other trap but a system call is handled, with the outcome its handler determines: the
  default exception handler halts, \<open>ebreak_handler\<close> continues behind the instruction, the
  default interrupt handler continues where the code was interrupted; the kernel's invariant is kept
  and the trap is counted.
\<close>

theorem traps_handled:
  assumes "kernel_ok w" and "csr_scause cpu \<noteq> 9" and "length (gpr cpu) = 32" and "gpr cpu ! 0 = 0"
  shows "\<exists>w'. trap_handler slot0 left cpu w = Some (case handler_of w (csr_scause cpu) of
      DefaultException \<Rightarrow> Halted
    | EbreakHandler \<Rightarrow> Returned (resumed left (cpu\<lparr>csr_sepc := csr_sepc cpu + 4\<rparr>))
    | _ \<Rightarrow> Returned (resumed left cpu), w') \<and> kernel_ok w' \<and> trap_count w' = trap_count w + 1"
proof -
  let ?h = "handler_of w (csr_scause cpu)" and ?f = "save_registers slot0 cpu w"
  obtain n where n: "clock_at n w" using assms(1) by (auto simp: kernel_ok_def)
  obtain w' where w': "trap_handler slot0 left cpu w = Some (case handler_result ?h ?f of
      Returned g \<Rightarrow> Returned (restore_registers g left) | Halted \<Rightarrow> Halted, w')"
    "uart_io 0 (count_text (trap_count w + 1) @ handler_text n ?h ?f)
      (handler_state n ?h ?f (w\<lparr>trap_count := trap_count w + 1\<rparr>)) w'" "kernel_ok w'"
    using trap_handler_exception [OF assms(1) n assms(2)] by blast
  have "restore_registers ?f left = resumed left cpu" by (rule restore_saved [OF assms(3,4)])
  moreover have "restore_registers (?f\<lparr>sepc := sepc ?f + 4\<rparr>) left = (restore_registers ?f left)\<lparr>csr_sepc := sepc ?f + 4\<rparr>"
    by (simp add: restore_registers_def)
  ultimately have "(case handler_result ?h ?f of Returned g \<Rightarrow> Returned (restore_registers g left) | Halted \<Rightarrow> Halted) =
      (case ?h of DefaultException \<Rightarrow> Halted | EbreakHandler \<Rightarrow> Returned (resumed left (cpu\<lparr>csr_sepc := csr_sepc cpu + 4\<rparr>))
        | _ \<Rightarrow> Returned (resumed left cpu))"
    by (cases ?h) (simp_all add: save_registers_fields resumed_def)
  moreover have "trap_count w' = trap_count w + 1"
    using trap_tables_io(4) [OF w'(2)] by (simp add: handler_state_tables)
  ultimately show ?thesis using w'(1,3) by auto
qed

theorem traps_handled_witness:
  "\<exists>w'. trap_handler 0 (demo_cpu 0) (demo_cpu 3) demo_trap_machine = Some (Returned ((demo_cpu 0)\<lparr>csr_sepc := 0x80200104\<rparr>), w') \<and> kernel_ok w'"
  using traps_handled [OF demo_trap_ok(1), of "demo_cpu 3" 0 "demo_cpu 0"] demo_trap_entries
  by (auto simp: demo_cpu_def resumed_def)

text \<open>
  C9.  A system call trap carries out the handler its number in \<open>a7\<close> selects (the default one for
  numbers out of range and for null entries) on \<open>a0\<close> and \<open>a1\<close>: it returns behind the \<^verbatim>\<open>ecall\<close> with
  the result in \<open>a0\<close>, every other register as it was, and has transmitted the text of the call.
\<close>

theorem syscall_trap_meaning:
  assumes "uart_live w" and "csr_scause cpu = 9" and "length (gpr cpu) = 32" and "gpr cpu ! 0 = 0"
    and "syscall_spec (uart_ty w) (ram w) (syscall_of w (gpr cpu ! 17)) (gpr cpu ! 10) (gpr cpu ! 11) r bs"
  shows "\<exists>w'. trap_handler slot0 left cpu w =
      Some (Returned (resumed left (cpu\<lparr>gpr := (gpr cpu)[10 := r], csr_sepc := csr_sepc cpu + 4\<rparr>)), w') \<and> uart_io 0 bs w w'"
  using trap_handler_syscall [OF assms(1,2,5,3,4)] .

theorem syscall_trap_meaning_witness:
  "\<exists>w'. trap_handler 0 (demo_cpu 0) (demo_cpu 9) demo_trap_machine =
      Some (Returned ((demo_cpu 0)\<lparr>gpr := (0 # replicate 31 7)[10 := - 1], csr_sepc := 0x80200104\<rparr>), w') \<and>
    uart_io 0 (hex_line LOG_LEVEL_WARN ''Unknown syscall: 0x'' 7 nl) demo_trap_machine w'"
proof -
  have "syscall_spec (uart_ty demo_trap_machine) (ram demo_trap_machine) (syscall_of demo_trap_machine (gpr (demo_cpu 9) ! 17))
      (gpr (demo_cpu 9) ! 10) (gpr (demo_cpu 9) ! 11) (- 1) (hex_line LOG_LEVEL_WARN ''Unknown syscall: 0x'' 7 nl)"
    using syscall_spec.unknown [of 7] by (simp add: demo_trap_entries demo_cpu_def)
  from syscall_trap_meaning [OF demo_trap_ok(3) _ _ _ this, of 0 "demo_cpu 0"] show ?thesis
    by (simp add: demo_cpu_def resumed_def)
qed

text \<open>
  C8.  From initialisation on, whatever traps return and handlers are registered, the kernel's
  invariant holds and every trap has a result, with one exception: a system call that prints a string where
  there is no zero byte anywhere in memory to end it.
\<close>

theorem reachable_kernel_ok:
  assumes "uart_live w" and "clock_at n w" and "tables_wf w" and "kernel_steps (exception_init sp w) w'"
  shows "kernel_ok w' \<and>
    (\<forall>slot0 left cpu. trap_handler slot0 left cpu w' = None \<longleftrightarrow> prints_string w' cpu \<and> (\<forall>a. ram w' a \<noteq> 0))"
  using kernel_steps_ok [OF assms(4) exception_init_ok [OF assms(1-3)]] trap_handler_stuck by blast

theorem reachable_kernel_ok_witness:
  "kernel_ok (register_syscall_handler 0 SysPutchar (exception_init 0 (trap_boot demo_timer_machine))) \<and>
   trap_handler 0 (demo_cpu 0) (demo_cpu 9) (register_syscall_handler 0 SysPutchar (exception_init 0 (trap_boot demo_timer_machine))) \<noteq> None"
proof -
  have zero: "ram (register_syscall_handler 0 SysPutchar (exception_init 0 (trap_boot demo_timer_machine))) 0 = 0"
    by (simp add: register_syscall_handler_def exception_init_eq [OF trap_boot_fields(6)] trap_boot_fields(5) demo_timer_machine_def
        timer_boot_def demo_heap_machine_def ready_machine_def timer_machine.defs heap_machine.defs)
  have "kernel_steps (exception_init 0 (trap_boot demo_timer_machine))
      (register_syscall_handler 0 SysPutchar (exception_init 0 (trap_boot demo_timer_machine)))"
    by (intro kernel_steps.more [OF kernel_steps.here] kernel_step.register_syscall)
  from reachable_kernel_ok [OF demo_trap_live _ trap_boot_fields(6) this, of 0] show ?thesis
    using demo_timer_facts zero by (auto simp: trap_boot_fields)
qed

text \<open>
  C30.  After initialisation and any series of registrations, the entry of a system call is the
  handler registered last for its number, and the default handler if there was none; numbers
  from 256 on register nothing.
\<close>

theorem last_registration_counts:
  assumes "tables_wf w" and "n < 256"
  shows "syscall_entry (foldl (\<lambda>w (c, h). register_syscall_handler c h w) (exception_init sp w) rs) n =
    (case map_of (rev rs) n of None \<Rightarrow> DefaultSyscall | Some h \<Rightarrow> h)"
  using sys.look_register_all [OF exception_init_tables(1) [OF assms(1)] assms(2), of rs]
    exception_init_tables(4) [OF assms]
  by (simp add: sys.register_all_def split: option.splits)

theorem last_registration_counts_witness:
  "syscall_entry (foldl (\<lambda>w (c, h). register_syscall_handler c h w) (exception_init 0 (trap_boot demo_timer_machine))
     [(0, SysPutchar), (1, SysPuts), (300, SysPuts), (0, SysPuts)]) 0 = SysPuts"
  using last_registration_counts [OF trap_boot_fields(6) [of demo_timer_machine], of 0 0 "[(0, SysPutchar), (1, SysPuts), (300, SysPuts), (0, SysPuts)]"]
  by simp

text \<open>What the two calls of the C library do: \<^verbatim>\<open>write\<close> and \<^verbatim>\<open>exit\<close>.\<close>

lemma gateway_write:
  assumes "uart_live w"
  shows "\<exists>w'. handle_syscall_direct_c 64 buf count arg3 w = Some (Returned count, w') \<and>
    uart_io 0 (gateway_text 64 buf count arg3 @
      concat (map (\<lambda>k. uart_enc w (ram w (buf + of_nat k))) [0..<unat count])) w w'"
proof -
  have "sint (64 :: u64) \<noteq> - (2 ^ 63)" by simp
  from prints_gateway [OF this, of buf count arg3]
  obtain w1 where w1: "say (logger_info (''[GATEWAY] Syscall ID: %lld, args: 0x%llx, 0x%llx, 0x%llx'' @ nl) [64, buf, count, arg3]) w = Some w1"
      "uart_io 0 (gateway_text 64 buf count arg3) w w1"
    using assms by (rule printsE)
  have same: "uart_enc w1 = uart_enc w" "ram w1 = ram w" using uart_enc_io [OF w1(2)] uart_io_frame(3) [OF w1(2)] by auto
  obtain w2 where w2: "write_loop buf count 0 w1 = Some w2"
      "uart_io 0 (concat (map (\<lambda>k. uart_enc w (ram w (buf + of_nat k))) [0..<unat count])) w1 w2"
    using write_loop_io [OF uart_live_io [OF assms w1(2)], of 0 count buf] same by auto
  show ?thesis
    using uart_io_trans [OF w1(2) w2(2)] w1(1) w2(1) by (simp add: handle_syscall_direct_c_def)
qed

definition exit_text :: "u64 \<Rightarrow> u8 list" where
  "exit_text c = log_line LOG_LEVEL_INFO (str ''User program exited with code '' @ show_int (sint c) @ str nl)"

lemma gateway_exit:
  assumes "uart_live w" and "sint code \<noteq> - (2 ^ 63)"
  shows "\<exists>w'. handle_syscall_direct_c 93 code arg2 arg3 w = Some (Halted, w') \<and>
    uart_io 0 (gateway_text 93 code arg2 arg3 @ exit_text code) w w'"
proof -
  have "sint (93 :: u64) \<noteq> - (2 ^ 63)" by simp
  from prints_gateway [OF this, of code arg2 arg3]
  obtain w1 where w1: "say (logger_info (''[GATEWAY] Syscall ID: %lld, args: 0x%llx, 0x%llx, 0x%llx'' @ nl) [93, code, arg2, arg3]) w = Some w1"
      "uart_io 0 (gateway_text 93 code arg2 arg3) w w1"
    using assms(1) by (rule printsE)
  have fmt: "str (''User program exited with code %lld'' @ nl) = str ''User program exited with code '' @ str ''%lld'' @ str nl" by simp
  have "formats m (str (''User program exited with code %lld'' @ nl)) [code]
      (str ''User program exited with code '' @ show_int (sint code) @ str nl)" for m
    unfolding fmt by (rule formats_plain, simp, rule formats_lld [OF _ assms(2)], rule formats_lit) (simp add: nl_def)
  then have "prints (say (logger_info (''User program exited with code %lld'' @ nl) [code])) (\<lambda>ty. exit_text code)"
    unfolding log_defs exit_text_def by (rule prints_say)
  then obtain w2 where "say (logger_info (''User program exited with code %lld'' @ nl) [code]) w1 = Some w2" "uart_io 0 (exit_text code) w1 w2"
    using uart_live_io [OF assms(1) w1(2)] by (rule printsE)
  then show ?thesis
    using uart_io_trans [OF w1(2)] w1(1) by (fastforce simp: handle_syscall_direct_c_def)
qed

text \<open>
  The write call of the gateway transmits exactly \<open>count\<close> bytes from \<open>buf\<close>, NUL bytes included,
  after a log line, and returns \<open>count\<close>.
\<close>

theorem gateway_write_exact:
  assumes "uart_live w"
  shows "\<exists>w'. handle_syscall_direct_c 64 buf count arg3 w = Some (Returned count, w') \<and>
    uart_io 0 (gateway_text 64 buf count arg3 @
      concat (map (\<lambda>k. uart_enc w (ram w (buf + of_nat k))) [0..<unat count])) w w'"
  using assms by (rule gateway_write)

theorem gateway_write_exact_witness:
  "\<exists>w'. handle_syscall_direct_c 64 0x1000 2 0 (demo_trap_machine\<lparr>ram := word_ram\<rparr>) = Some (Returned 2, w')"
proof -
  have "uart_live (demo_trap_machine\<lparr>ram := word_ram\<rparr>) = uart_live demo_trap_machine" by (rule uart_live_cong) simp_all
  then show ?thesis using gateway_write_exact [of "demo_trap_machine\<lparr>ram := word_ram\<rparr>" "0x1000" 2 0] demo_trap_ok(3) by blast
qed

text \<open>
  The gateway dispatches on \<open>a0\<close>: the number in \<open>a7\<close>, where the entry code's comment and the
  Linux convention have it, makes no difference.
\<close>

theorem gateway_ignores_a7:
  "handle_syscall_direct (cpu\<lparr>gpr := (gpr cpu)[17 := n]\<rparr>) w = handle_syscall_direct cpu w"
  by (simp add: handle_syscall_direct_def)

text \<open>
  A gateway call with the identifier \<open>2 ^ 63\<close> has no defined result, whatever its arguments:
  printing it as a signed number overflows.
\<close>

theorem gateway_min_id_undefined: "handle_syscall_direct_c 0x8000000000000000 arg1 arg2 arg3 w = None"
proof -
  let ?rest = "str '', args: 0x%llx, 0x%llx, 0x%llx'' @ str nl"
  have fmt: "str (''[GATEWAY] Syscall ID: %lld, args: 0x%llx, 0x%llx, 0x%llx'' @ nl) =
      str ''[GATEWAY] Syscall ID: '' @ str ''%lld'' @ ?rest" by simp
  have plain: "37 \<notin> set (str ''[GATEWAY] Syscall ID: '')" by simp
  have dir: "parse_format (str ''%lld'' @ ?rest) = IntArg no_props 2 # parse_format ?rest"
    by (simp add: parse_directive.simps)
  have min: "va_signed 2 0x8000000000000000 = - (2 ^ 63)" by (simp add: va_signed_def)
  have "exec_directives BUFSZ (ram w) (IntArg no_props 2 # ds) (0x8000000000000000 # va) s = None" for ds va s
    using print_int_min by (simp add: va_arg_def min)
  then have "vsnprintf_loop BUFSZ (ram w) (str (''[GATEWAY] Syscall ID: %lld, args: 0x%llx, 0x%llx, 0x%llx'' @ nl))
      [0x8000000000000000, arg1, arg2, arg3] s = None" for s
    unfolding fmt vsnprintf_loop_parse parse_format_plain [OF plain] dir by (simp only: exec_directives_prefix)
  then show ?thesis
    by (simp only: handle_syscall_direct_c_def say_def logger_info_def logger_output_def my_vsnprintf_def
        bind.bind_lzero option.map)
qed

end
