(* ===== verification/Memory.thy ===== *)
theory Memory
  imports TestosPrelude
begin

text \<open>
  Double words in byte-addressed memory: what a store changes, and what a load reads back.  The
  start stack of the user program and the trap frame are built from these.
\<close>

section \<open>Stores and loads\<close>

lemma store_bytes_eq:
  assumes "n \<le> 8"
  shows "store_bytes n m a v = (\<lambda>x. if unat (x - a) < n then ucast (drop_bit (8 * unat (x - a)) v) else m x)"
  using assms
proof (induction n arbitrary: m a v)
  case (Suc n)
  have "store_bytes (Suc n) m a v x = (if unat (x - a) < Suc n then ucast (drop_bit (8 * unat (x - a)) v) else m x)" for x
  proof (cases "x = a")
    case True
    have "unat (- 1 :: u64) = 2 ^ 64 - 1" by (simp add: unsigned_minus_1_eq_mask mask_eq_exp_minus_1)
    then have "\<not> unat (a - (a + 1)) < n" using Suc.prems by simp
    then show ?thesis using Suc True by simp
  next
    case False
    then have "x - a \<noteq> 0" by simp
    then have "unat (x - a) = Suc (unat (x - a - 1))" using unat_minus_one [of "x - a"] unat_gt_0 [of "x - a"] by simp
    then show ?thesis using Suc False by (simp add: diff_diff_eq drop_bit_drop_bit ac_simps)
  qed
  then show ?case by blast
qed simp

lemma store64_eq: "store64 m a v = (\<lambda>x. if unat (x - a) < 8 then ucast (drop_bit (8 * unat (x - a)) v) else m x)"
  unfolding store64_def by (rule store_bytes_eq) simp

lemma load_bytes_eq:
  "\<forall>i < n. m (a + of_nat i) = ucast (drop_bit (8 * i) v) \<Longrightarrow> load_bytes n m a = take_bit (8 * n) v"
proof (induction n arbitrary: a v)
  case (Suc n)
  have "\<forall>i < n. m (a + 1 + of_nat i) = ucast (drop_bit (8 * i) (drop_bit 8 v))"
    using Suc.prems by (auto simp: drop_bit_drop_bit ac_simps dest: spec [of _ "Suc _"])
  then have "load_bytes n m (a + 1) = take_bit (8 * n) (drop_bit 8 v)" by (rule Suc.IH)
  moreover have "m a = ucast v" using Suc.prems by auto
  ultimately show ?case by (auto intro!: bit_word_eqI simp: bit_simps)
qed simp

lemma load64_store64: "load64 (store64 m a v) a = v"
  unfolding load64_def by (subst load_bytes_eq [of 8 _ _ v]) (auto simp: store64_eq unat_of_nat_64 intro!: bit_word_eqI simp: bit_simps)

lemma load64_cong:
  assumes "\<And>i. i < 8 \<Longrightarrow> m' (a + of_nat i) = m (a + of_nat i)"
  shows "load64 m' a = load64 m a"
proof -
  have "load_bytes n m' a = load_bytes n m a" if "\<And>i. i < n \<Longrightarrow> m' (a + of_nat i) = m (a + of_nat i)" for n and a :: u64
    using that
  proof (induction n arbitrary: a)
    case (Suc n)
    have "m' a = m a" using Suc.prems [of 0] by simp
    moreover have "load_bytes n m' (a + 1) = load_bytes n m (a + 1)"
      using Suc.prems [of "Suc _"] by (intro Suc.IH) (simp add: ac_simps)
    ultimately show ?case by simp
  qed simp
  then show ?thesis using assms by (simp add: load64_def)
qed

lemma add_less_no_wrap: "unat (a :: u64) + k < 2 ^ 64 \<Longrightarrow> unat (a + of_nat k) = unat a + k"
  by (simp add: unat_word_ariths unat_of_nat_64)

section \<open>Arrays of double words\<close>

text \<open>The double word number \<open>i\<close> at \<open>p\<close>; a store to one of them leaves the others alone.\<close>

definition off :: "nat \<Rightarrow> u64" where
  "off i = 8 * of_nat i"

definition slot :: "ram \<Rightarrow> u64 \<Rightarrow> nat \<Rightarrow> u64" where
  "slot m p i = load64 m (p + off i)"

lemma slot_store:
  assumes "i < 2 ^ 60" and "j < 2 ^ 60"
  shows "slot (store64 m (p + off j) v) p i = (if i = j then v else slot m p i)"
proof (cases "i = j")
  case False
  have "store64 m (p + 8 * of_nat j) v (p + 8 * of_nat i + of_nat k) = m (p + 8 * of_nat i + of_nat k)" if k: "k < 8" for k
  proof -
    have u: "unat (8 * of_nat i + of_nat k :: u64) = 8 * i + k" "unat (8 * of_nat j :: u64) = 8 * j"
      using assms k unat_of_nat_64 [of "8 * i + k"] unat_of_nat_64 [of "8 * j"] by simp_all
    have "unat (8 * of_nat i + of_nat k - 8 * of_nat j :: u64) = (if 8 * j \<le> 8 * i + k then 8 * i + k - 8 * j else 8 * i + k + 2 ^ 64 - 8 * j)"
      using unat_sub_if' [of "8 * of_nat i + of_nat k :: u64" "8 * of_nat j"] u by simp
    then have "\<not> unat (8 * of_nat i + of_nat k - 8 * of_nat j :: u64) < 8"
      using False k assms by (cases "i < j") auto
    moreover have "p + 8 * of_nat i + of_nat k - (p + 8 * of_nat j) = 8 * of_nat i + of_nat k - (8 * of_nat j :: u64)" by simp
    ultimately have "\<not> unat (p + 8 * of_nat i + of_nat k - (p + 8 * of_nat j)) < 8" by (simp only: not_False_eq_True)
    then show ?thesis by (simp add: store64_eq)
  qed
  then have "load64 (store64 m (p + 8 * of_nat j) v) (p + 8 * of_nat i) = load64 m (p + 8 * of_nat i)" by (rule load64_cong)
  then show ?thesis using False by (simp add: slot_def off_def)
qed (simp add: slot_def off_def load64_store64)

lemma store_outside:
  assumes "8 * j + 8 \<le> n" and "n < 2 ^ 62" and "n \<le> unat (a - p)"
  shows "store64 m (p + off j) v a = m a"
proof -
  have "unat (8 * of_nat j :: u64) = 8 * j" using assms unat_of_nat_64 [of "8 * j"] by simp
  then have "unat (a - p - 8 * of_nat j) = unat (a - p) - 8 * j"
    using assms unat_sub_if' [of "a - p" "8 * of_nat j"] by simp
  then have "\<not> unat (a - (p + 8 * of_nat j)) < 8" using assms by (simp add: diff_diff_eq)
  then show ?thesis by (simp add: store64_eq off_def)
qed

end
