(* ===== verification/TrapFrame.thy ===== *)
theory TrapFrame
  imports TrapLaws Memory
begin

text \<open>
  The trap entry and exit of \<^verbatim>\<open>src/exception/exception.S\<close>, instruction by instruction: the code that saves the
  registers to a frame on the stack and the code that restores them, and the frame as the C
  struct \<open>trap_frame_t\<close> that the handlers get a pointer to.  It is shown to implement \<open>save_registers\<close>, \<open>restore_registers\<close>
  and \<open>trap_handler\<close> of \<open>Trap\<close>, where the frame is a value.
\<close>

section \<open>The instructions\<close>

datatype csr = Sepc | Scause | Stval | Sstatus | Fcsr

datatype instr =
    Addi nat nat u64
  | Sd nat u64 nat
  | Ld nat u64 nat
  | Fsd nat u64 nat
  | Fld nat u64 nat
  | Csrr nat csr
  | Csrw csr nat

fun read_csr :: "csr \<Rightarrow> cpu_t \<Rightarrow> 'a machine_scheme \<Rightarrow> u64" where
  "read_csr Sepc c w = csr_sepc c"
| "read_csr Scause c w = csr_scause c"
| "read_csr Stval c w = csr_stval c"
| "read_csr Sstatus c w = READ_SSTATUS w"
| "read_csr Fcsr c w = csr_fcsr c"

fun write_csr :: "csr \<Rightarrow> u64 \<Rightarrow> cpu_t \<times> 'a machine_scheme \<Rightarrow> cpu_t \<times> 'a machine_scheme" where
  "write_csr Sepc v (c, w) = (c\<lparr>csr_sepc := v\<rparr>, w)"
| "write_csr Scause v (c, w) = (c\<lparr>csr_scause := v\<rparr>, w)"
| "write_csr Stval v (c, w) = (c\<lparr>csr_stval := v\<rparr>, w)"
| "write_csr Sstatus v (c, w) = (c, WRITE_SSTATUS v w)"
| "write_csr Fcsr v (c, w) = (c\<lparr>csr_fcsr := v\<rparr>, w)"

definition set_reg :: "nat \<Rightarrow> u64 \<Rightarrow> cpu_t \<Rightarrow> cpu_t" where
  "set_reg r v c = c\<lparr>gpr := (gpr c)[r := v]\<rparr>"

text \<open>None of the code's instructions writes \<open>x0\<close>.\<close>

fun exec1 :: "instr \<Rightarrow> cpu_t \<times> 'a machine_scheme \<Rightarrow> cpu_t \<times> 'a machine_scheme" where
  "exec1 (Addi rd rs k) (c, w) = (set_reg rd (gpr c ! rs + k) c, w)"
| "exec1 (Sd rs k b) (c, w) = (c, w\<lparr>ram := store64 (ram w) (gpr c ! b + k) (gpr c ! rs)\<rparr>)"
| "exec1 (Ld rd k b) (c, w) = (set_reg rd (load64 (ram w) (gpr c ! b + k)) c, w)"
| "exec1 (Fsd rs k b) (c, w) = (c, w\<lparr>ram := store64 (ram w) (gpr c ! b + k) (fpr c ! rs)\<rparr>)"
| "exec1 (Fld rd k b) (c, w) = (c\<lparr>fpr := (fpr c)[rd := load64 (ram w) (gpr c ! b + k)]\<rparr>, w)"
| "exec1 (Csrr rd r) (c, w) = (set_reg rd (read_csr r c w) c, w)"
| "exec1 (Csrw r rs) (c, w) = write_csr r (gpr c ! rs) (c, w)"

definition exec :: "instr list \<Rightarrow> cpu_t \<times> 'a machine_scheme \<Rightarrow> cpu_t \<times> 'a machine_scheme" where
  "exec is s = fold exec1 is s"

section \<open>The code\<close>

definition TRAP_FRAME_SIZE :: u64 where
  "TRAP_FRAME_SIZE = 552"

definition save_code :: "instr list" where
  "save_code = [Addi 2 2 (- TRAP_FRAME_SIZE)] @
     map (\<lambda>i. Sd i (off i) 2) [1..<32] @
     [Addi 5 2 TRAP_FRAME_SIZE, Sd 5 (off 2) 2] @
     map (\<lambda>i. Fsd i (off (32 + i)) 2) [0..<32] @
     [Csrr 5 Sepc, Sd 5 (off 64) 2, Csrr 5 Scause, Sd 5 (off 65) 2, Csrr 5 Stval, Sd 5 (off 66) 2,
      Csrr 5 Sstatus, Sd 5 (off 67) 2, Csrr 5 Fcsr, Sd 5 (off 68) 2]"

definition restore_code :: "instr list" where
  "restore_code = [Ld 5 (off 64) 2, Csrw Sepc 5, Ld 5 (off 67) 2, Csrw Sstatus 5, Ld 5 (off 68) 2, Csrw Fcsr 5] @
     map (\<lambda>i. Fld i (off (32 + i)) 2) [0..<32] @
     [Ld 1 (off 1) 2] @ map (\<lambda>i. Ld i (off i) 2) [3..<32] @ [Ld 2 (off 2) 2]"

text \<open>The struct \<open>trap_frame_t\<close> in memory: 69 double words.\<close>

definition read_frame :: "ram \<Rightarrow> u64 \<Rightarrow> trap_frame_t" where
  "read_frame m p = \<lparr>xregs = map (slot m p) [0..<32], fregs = map (\<lambda>i. slot m p (32 + i)) [0..<32],
     sepc = slot m p 64, scause = slot m p 65, stval = slot m p 66, sstatus = slot m p 67, fcsr = slot m p 68\<rparr>"

definition frame_words :: "trap_frame_t \<Rightarrow> u64 list" where
  "frame_words f = xregs f @ fregs f @ [sepc f, scause f, stval f, sstatus f, fcsr f]"

definition store_slots :: "u64 \<Rightarrow> (nat \<times> u64) list \<Rightarrow> ram \<Rightarrow> ram" where
  "store_slots p ivs m = fold (\<lambda>(i, v) m. store64 m (p + off i) v) ivs m"

definition write_frame :: "u64 \<Rightarrow> trap_frame_t \<Rightarrow> ram \<Rightarrow> ram" where
  "write_frame p f = store_slots p (enumerate 0 (frame_words f))"

text \<open>
  The whole trap: the handler gets a pointer to the frame and updates it in place.  What the
  handler leaves in the registers is \<open>left\<close>, but the stack pointer, which is preserved by the calling convention.
\<close>

definition trap_entry :: "cpu_t \<Rightarrow> cpu_t \<Rightarrow> 'a trap_machine_scheme \<Rightarrow> (cpu_t outcome \<times> 'a trap_machine_scheme) option" where
  "trap_entry left cpu w = do {
     let (c, w) = exec save_code (cpu, w);
     let a0 = gpr c ! 2;
     let frame = read_frame (ram w) a0;
     (r, w) \<leftarrow>
       (if read_csr Scause c w = CAUSE_SUPERVISOR_ECALL
        then do { (frame, w) \<leftarrow> handle_syscall frame w; Some (Returned frame, w) }
        else handle_exception frame w);
     case r of
       Returned frame \<Rightarrow> do {
         let w = w\<lparr>ram := write_frame a0 frame (ram w)\<rparr>;
         let (c, w) = exec restore_code (set_reg 2 a0 left, w);
         Some (Returned c, w) }
     | Halted \<Rightarrow> Some (Halted, w) }"

section \<open>Slots\<close>

lemma slot_store_slots:
  "\<forall>(j, v) \<in> set ivs. j < 2 ^ 60 \<Longrightarrow> i < 2 ^ 60 \<Longrightarrow>
    slot (store_slots p ivs m) p i = (case map_of (rev ivs) i of None \<Rightarrow> slot m p i | Some v \<Rightarrow> v)"
  by (induction ivs arbitrary: m)
    (auto simp: store_slots_def slot_store map_add_def split: option.splits)

lemma store_slots_outside:
  "\<forall>(j, v) \<in> set ivs. 8 * j + 8 \<le> n \<Longrightarrow> n < 2 ^ 62 \<Longrightarrow> n \<le> unat (a - p) \<Longrightarrow> store_slots p ivs m a = m a"
  by (induction ivs arbitrary: m) (auto simp: store_slots_def store_outside)

lemma store_slots_app: "store_slots p (as @ bs) m = store_slots p bs (store_slots p as m)"
  by (simp add: store_slots_def)

lemma map_of_index: "map_of (map (\<lambda>i. (i, f i)) is) i = (if i \<in> set is then Some (f i) else None)"
  by (induction "is") auto

section \<open>Runs of loads and stores\<close>

lemma exec_app: "exec (ks @ js) s = exec js (exec ks s)"
  by (simp add: exec_def)

lemma exec_Cons: "exec (i # js) s = exec js (exec1 i s)"
  by (simp add: exec_def)

lemma exec_Nil: "exec [] s = s"
  by (simp add: exec_def)

lemma exec_stores:
  "exec (map (\<lambda>i. Sd i (off i) 2) js) (c, w) =
    (c, w\<lparr>ram := store_slots (gpr c ! 2) (map (\<lambda>i. (i, gpr c ! i)) js) (ram w)\<rparr>)"
  by (induction js arbitrary: w) (simp_all add: exec_def store_slots_def)

lemma exec_fstores:
  "exec (map (\<lambda>i. Fsd i (off (32 + i)) 2) js) (c, w) =
    (c, w\<lparr>ram := store_slots (gpr c ! 2) (map (\<lambda>i. (32 + i, fpr c ! i)) js) (ram w)\<rparr>)"
  by (induction js arbitrary: w) (simp_all add: exec_def store_slots_def)

lemma exec_loads:
  assumes "2 \<notin> set js" and "length (gpr c) = 32"
  shows "exec (map (\<lambda>i. Ld i (off i) 2) js) (c, w) =
    (c\<lparr>gpr := map (\<lambda>i. if i \<in> set js then slot (ram w) (gpr c ! 2) i else gpr c ! i) [0..<32]\<rparr>, w)"
  using assms
proof (induction js arbitrary: c)
  case Nil
  have "map (\<lambda>i. gpr c ! i) [0..<32] = gpr c" using Nil.prems(2) by (metis map_nth)
  then show ?case by (simp add: exec_def)
next
  case (Cons i js)
  let ?c = "set_reg i (slot (ram w) (gpr c ! 2) i) c"
  have c: "length (gpr ?c) = 32" "gpr ?c ! 2 = gpr c ! 2" using Cons.prems by (auto simp: set_reg_def)
  have "exec (map (\<lambda>i. Ld i (off i) 2) (i # js)) (c, w) = exec (map (\<lambda>i. Ld i (off i) 2) js) (?c, w)"
    by (simp add: exec_Cons slot_def)
  also have "\<dots> = (?c\<lparr>gpr := map (\<lambda>k. if k \<in> set js then slot (ram w) (gpr ?c ! 2) k else gpr ?c ! k) [0..<32]\<rparr>, w)"
    using Cons.prems c(1) by (intro Cons.IH) simp_all
  also have "\<dots> = (c\<lparr>gpr := map (\<lambda>k. if k \<in> set (i # js) then slot (ram w) (gpr c ! 2) k else gpr c ! k) [0..<32]\<rparr>, w)"
    unfolding c(2) using Cons.prems(2) by (auto simp: set_reg_def nth_list_update)
  finally show ?case .
qed

lemma exec_floads:
  assumes "length (fpr c) = 32"
  shows "exec (map (\<lambda>i. Fld i (off (32 + i)) 2) js) (c, w) =
    (c\<lparr>fpr := map (\<lambda>i. if i \<in> set js then slot (ram w) (gpr c ! 2) (32 + i) else fpr c ! i) [0..<32]\<rparr>, w)"
  using assms
proof (induction js arbitrary: c)
  case Nil
  have "map (\<lambda>i. fpr c ! i) [0..<32] = fpr c" using Nil.prems by (metis map_nth)
  then show ?case by (simp add: exec_def)
next
  case (Cons i js)
  let ?c = "c\<lparr>fpr := (fpr c)[i := slot (ram w) (gpr c ! 2) (32 + i)]\<rparr>"
  have "exec (map (\<lambda>i. Fld i (off (32 + i)) 2) (i # js)) (c, w) = exec (map (\<lambda>i. Fld i (off (32 + i)) 2) js) (?c, w)"
    by (simp add: exec_Cons slot_def)
  also have "\<dots> = (?c\<lparr>fpr := map (\<lambda>k. if k \<in> set js then slot (ram w) (gpr ?c ! 2) (32 + k) else fpr ?c ! k) [0..<32]\<rparr>, w)"
    using Cons.prems by (intro Cons.IH) simp
  also have "\<dots> = (c\<lparr>fpr := map (\<lambda>k. if k \<in> set (i # js) then slot (ram w) (gpr c ! 2) (32 + k) else fpr c ! k) [0..<32]\<rparr>, w)"
    using Cons.prems by (auto simp: nth_list_update)
  finally show ?case .
qed

section \<open>Saving\<close>

lemma set_reg_fields [simp]:
  "length (gpr (set_reg r v c)) = length (gpr c)" "fpr (set_reg r v c) = fpr c" "csr_sepc (set_reg r v c) = csr_sepc c"
  "csr_scause (set_reg r v c) = csr_scause c" "csr_stval (set_reg r v c) = csr_stval c" "csr_fcsr (set_reg r v c) = csr_fcsr c"
  "r < length (gpr c) \<Longrightarrow> gpr (set_reg r v c) ! r = v" "r \<noteq> k \<Longrightarrow> gpr (set_reg r v c) ! k = gpr c ! k"
  "set_reg r v (set_reg r u c) = set_reg r v c"
  by (simp_all add: set_reg_def)

definition saved_words :: "cpu_t \<Rightarrow> 'a machine_scheme \<Rightarrow> (nat \<times> u64) list" where
  "saved_words c w = map (\<lambda>i. (i, gpr (set_reg 2 (gpr c ! 2 - TRAP_FRAME_SIZE) c) ! i)) [1..<32] @ [(2, gpr c ! 2)] @
     map (\<lambda>i. (32 + i, fpr c ! i)) [0..<32] @
     [(64, csr_sepc c), (65, csr_scause c), (66, csr_stval c), (67, csr_sstatus w), (68, csr_fcsr c)]"

lemma exec_save:
  assumes "length (gpr c) = 32"
  shows "exec save_code (c, w) =
    (set_reg 5 (csr_fcsr c) (set_reg 2 (gpr c ! 2 - TRAP_FRAME_SIZE) c),
     w\<lparr>ram := store_slots (gpr c ! 2 - TRAP_FRAME_SIZE) (saved_words c w) (ram w)\<rparr>)"
  using assms
  by (simp add: save_code_def exec_app exec_Cons exec_Nil exec_stores exec_fstores saved_words_def store_slots_app
      READ_SSTATUS_def) (simp add: store_slots_def)

lemma map_of_shifted: "map_of (map (\<lambda>i. (k + i, f i)) js) j = (if k \<le> j \<and> j - k \<in> set js then Some (f (j - k)) else None)"
  for j k :: nat
  by (induction js) auto

lemma map_of_saved:
  assumes "length (gpr c) = 32"
  shows "map_of (rev (saved_words c w)) i =
    (if i = 0 then None else if i < 32 then Some (gpr c ! i) else if i < 64 then Some (fpr c ! (i - 32))
     else if i = 64 then Some (csr_sepc c) else if i = 65 then Some (csr_scause c) else if i = 66 then Some (csr_stval c)
     else if i = 67 then Some (csr_sstatus w) else if i = 68 then Some (csr_fcsr c) else None)"
  using assms
  by (auto simp: saved_words_def rev_map map_of_index map_of_shifted map_add_def split: option.splits)

lemma saved_words_bound: "\<forall>(i, v) \<in> set (saved_words c w). 8 * i + 8 \<le> 552"
  by (auto simp: saved_words_def)

lemma read_saved:
  assumes "length (gpr c) = 32" and "length (fpr c) = 32"
  shows "read_frame (store_slots p (saved_words c w) m) p = save_registers (slot m p 0) c w"
proof -
  have "\<forall>(i, v) \<in> set (saved_words c w). i < 2 ^ 60" using saved_words_bound by fastforce
  then have slots: "slot (store_slots p (saved_words c w) m) p i =
      (case map_of (rev (saved_words c w)) i of None \<Rightarrow> slot m p i | Some v \<Rightarrow> v)" if "i < 69" for i
    using that by (intro slot_store_slots) simp_all
  have "map (slot (store_slots p (saved_words c w) m) p) [0..<32] = (gpr c)[0 := slot m p 0]"
    using assms(1) by (intro nth_equalityI) (simp_all add: slots map_of_saved nth_list_update)
  moreover have "map (\<lambda>i. slot (store_slots p (saved_words c w) m) p (32 + i)) [0..<32] = fpr c"
    using assms by (intro nth_equalityI) (simp_all add: slots map_of_saved)
  ultimately show ?thesis
    using assms(1) by (simp add: read_frame_def save_registers_def slots map_of_saved READ_SSTATUS_def)
qed

section \<open>Restoring\<close>

lemma sstatus_write_ram [simp]: "ram (WRITE_SSTATUS v w) = ram w"
  by (simp add: WRITE_SSTATUS_def)

lemma exec_restore_csrs:
  assumes "length (gpr c) = 32"
  shows "exec [Ld 5 (off 64) 2, Csrw Sepc 5, Ld 5 (off 67) 2, Csrw Sstatus 5, Ld 5 (off 68) 2, Csrw Fcsr 5] (c, w) =
    ((set_reg 5 (slot (ram w) (gpr c ! 2) 68) c)\<lparr>csr_sepc := slot (ram w) (gpr c ! 2) 64, csr_fcsr := slot (ram w) (gpr c ! 2) 68\<rparr>,
     WRITE_SSTATUS (slot (ram w) (gpr c ! 2) 67) w)"
  using assms by (simp add: exec_Cons exec_Nil set_reg_def slot_def)

lemma exec_restore:
  assumes "length (gpr c) = 32" and "length (fpr c) = 32" and "gpr c ! 0 = 0"
  shows "exec restore_code (c, w) = (restore_registers (read_frame (ram w) (gpr c ! 2)) c,
    WRITE_SSTATUS (sstatus (read_frame (ram w) (gpr c ! 2))) w)"
proof -
  let ?s = "slot (ram w) (gpr c ! 2)" and ?w = "WRITE_SSTATUS (slot (ram w) (gpr c ! 2) 67) w"
  define c1 where "c1 = (set_reg 5 (?s 68) c)\<lparr>csr_sepc := ?s 64, csr_fcsr := ?s 68\<rparr>"
  define c2 where "c2 = c1\<lparr>fpr := map (\<lambda>i. if i \<in> set [0..<32] then ?s (32 + i) else fpr c1 ! i) [0..<32]\<rparr>"
  define c3 where "c3 = c2\<lparr>gpr := map (\<lambda>i. if i \<noteq> 0 \<and> i \<noteq> 2 then ?s i else gpr c2 ! i) [0..<32]\<rparr>"
  have reg2: "gpr c1 ! 2 = gpr c ! 2" "gpr c2 ! 2 = gpr c ! 2" "gpr c3 ! 2 = gpr c ! 2"
    by (simp_all add: c1_def c2_def c3_def numeral_2_eq_2)
  have len: "length (gpr c1) = 32" "length (fpr c1) = 32" "length (gpr c2) = 32" "length (gpr c3) = 32"
    using assms by (simp_all add: c1_def c2_def c3_def)
  have code: "restore_code = [Ld 5 (off 64) 2, Csrw Sepc 5, Ld 5 (off 67) 2, Csrw Sstatus 5, Ld 5 (off 68) 2, Csrw Fcsr 5] @
      map (\<lambda>i. Fld i (off (32 + i)) 2) [0..<32] @ map (\<lambda>i. Ld i (off i) 2) (1 # [3..<32]) @ [Ld 2 (off 2) 2]"
    by (simp add: restore_code_def)
  have f: "exec (map (\<lambda>i. Fld i (off (32 + i)) 2) [0..<32]) (c1, ?w) = (c2, ?w)"
    using exec_floads [OF len(2), of "[0..<32]" ?w] by (simp add: c2_def reg2)
  have g: "exec (map (\<lambda>i. Ld i (off i) 2) (1 # [3..<32])) (c2, ?w) = (c3, ?w)"
  proof -
    have "i \<in> set (1 # [3..<32]) \<longleftrightarrow> i \<noteq> 0 \<and> i \<noteq> 2" if "i < 32" for i :: nat
      using that by (simp only: set_simps set_upt insert_iff atLeastLessThan_iff) arith
    then have eq: "map (\<lambda>i. if i \<in> set (1 # [3..<32]) then ?s i else gpr c2 ! i) [0..<32] =
        map (\<lambda>i. if i \<noteq> 0 \<and> i \<noteq> 2 then ?s i else gpr c2 ! i) [0..<32]"
      by (intro map_cong refl) (simp only: set_upt atLeastLessThan_iff)
    show ?thesis
      using exec_loads [OF _ len(3), of "1 # [3..<32]" ?w] unfolding reg2 sstatus_write_ram eq c3_def by simp
  qed
  have "exec restore_code (c, w) = (set_reg 2 (?s 2) c3, ?w)"
    unfolding code exec_app exec_restore_csrs [OF assms(1)] c1_def [symmetric] f g
    by (simp add: exec_Cons exec_Nil reg2 slot_def)
  moreover have "set_reg 2 (?s 2) c3 = restore_registers (read_frame (ram w) (gpr c ! 2)) c"
  proof -
    have "(gpr c3)[2 := ?s 2] = (map ?s [0..<32])[0 := 0]"
      using assms len by (intro nth_equalityI) (auto simp: c3_def c2_def c1_def nth_list_update)
    then show ?thesis using len
      by (simp add: set_reg_def restore_registers_def read_frame_def c3_def c2_def c1_def cong: if_cong)
  qed
  ultimately show ?thesis by (simp add: read_frame_def)
qed

section \<open>The frame as a struct\<close>

lemma map_of_enumerated: "map_of (rev (enumerate k vs)) i = (if k \<le> i \<and> i < k + length vs then Some (vs ! (i - k)) else None)"
  by (induction vs arbitrary: k rule: rev_induct) (auto simp: enumerate_append_eq nth_append)

lemma read_write_frame:
  assumes "length (xregs f) = 32" and "length (fregs f) = 32"
  shows "read_frame (write_frame p f m) p = f"
proof -
  have len: "length (frame_words f) = 69" using assms by (simp add: frame_words_def)
  have bound: "\<forall>(i, v) \<in> set (enumerate 0 (frame_words f)). i < 2 ^ 60" by (auto simp: in_set_enumerate_eq len)
  have s: "slot (write_frame p f m) p i = frame_words f ! i" if "i < 69" for i
    unfolding write_frame_def using that slot_store_slots [OF bound, of i p m] by (simp add: map_of_enumerated len)
  have "map (slot (write_frame p f m) p) [0..<32] = xregs f" "map (\<lambda>i. slot (write_frame p f m) p (32 + i)) [0..<32] = fregs f"
    using assms by (auto intro!: nth_equalityI simp: s frame_words_def nth_append)
  then show ?thesis
    using assms by (simp add: read_frame_def s) (simp add: frame_words_def nth_append)
qed

text \<open>The handlers keep the arrays of the frame as they are, but for the result in \<open>a0\<close>.\<close>

definition frame_ok :: "trap_frame_t \<Rightarrow> bool" where
  "frame_ok f \<longleftrightarrow> length (xregs f) = 32 \<and> length (fregs f) = 32"

lemma bind_SomeE:
  assumes "x \<bind> f = Some y"
  obtains z where "x = Some z" "f z = Some y"
  using assms by (cases x) simp_all

lemma call_handler_frame:
  assumes "call_handler h f w = Some (Returned g, w')" and "frame_ok f"
  shows "frame_ok g"
proof (cases h)
  case DefaultException
  then have "default_exception_handler f w = Some (Returned g, w')" using assms(1) by simp
  then show ?thesis unfolding default_exception_handler_def by (elim bind_SomeE) simp
next
  case DefaultInterrupt
  then have "default_interrupt_handler f w = Some (Returned g, w')" using assms(1) by simp
  then have "g = f"
    by (cases "irq_number f = 5") (simp_all only: timer_interrupt_eq other_interrupt_eq not_False_eq_True, (elim bind_SomeE; simp)+)
  then show ?thesis using assms(2) by simp
next
  case EbreakHandler
  then have "ebreak_handler f w = Some (Returned g, w')" using assms(1) by simp
  then have "g = f\<lparr>sepc := sepc f + 4\<rparr>" unfolding ebreak_handler_def by (elim bind_SomeE) simp
  then show ?thesis using assms(2) by (simp add: frame_ok_def)
qed (use assms in simp)

lemma handle_exception_frame:
  assumes "handle_exception f w = Some (Returned g, w')" and "frame_ok f"
  shows "frame_ok g"
  using assms unfolding handle_exception_dispatch Let_def by (elim bind_SomeE) (rule call_handler_frame)

lemma handle_syscall_frame:
  assumes "handle_syscall f w = Some (g, w')" and "frame_ok f"
  shows "frame_ok g"
  using assms unfolding handle_syscall_def Let_def frame_ok_def by (auto elim!: bind_SomeE split: prod.splits)

section \<open>The whole trap\<close>

definition cpu_ok :: "cpu_t \<Rightarrow> bool" where
  "cpu_ok c \<longleftrightarrow> length (gpr c) = 32 \<and> length (fpr c) = 32 \<and> gpr c ! 0 = 0"

definition frame_at :: "cpu_t \<Rightarrow> u64" where
  "frame_at c = gpr c ! 2 - TRAP_FRAME_SIZE"

definition framed :: "cpu_t \<Rightarrow> 'a machine_scheme \<Rightarrow> 'a machine_scheme" where
  "framed c w = w\<lparr>ram := store_slots (frame_at c) (saved_words c w) (ram w)\<rparr>"

definition off_frame :: "cpu_t \<Rightarrow> ram \<Rightarrow> ram \<Rightarrow> bool" where
  "off_frame c m m' \<longleftrightarrow> (\<forall>a. 552 \<le> unat (a - frame_at c) \<longrightarrow> m' a = m a)"

lemma framed_same:
  "kernel_ok (framed c w) = kernel_ok w" "clock_at n (framed c w) = clock_at n w" "handler_of (framed c w) = handler_of w"
  "trap_count (framed c w) = trap_count w"
proof -
  have "uart_live (framed c w) = uart_live w" by (rule uart_live_cong) (simp_all add: framed_def)
  then show "kernel_ok (framed c w) = kernel_ok w" by (simp add: kernel_ok_def tables_wf_def clock_at_def framed_def)
  show "clock_at n (framed c w) = clock_at n w" "trap_count (framed c w) = trap_count w" by (simp_all add: clock_at_def framed_def)
  show "handler_of (framed c w) = handler_of w"
    by (rule ext) (simp add: handler_of_def interrupt_entry_def exception_entry_def framed_def Let_def)
qed

lemma framed_off: "off_frame c (ram w) (ram (framed c w))"
  by (simp add: off_frame_def framed_def store_slots_outside [OF saved_words_bound])

lemma write_frame_off:
  assumes "frame_ok f"
  shows "off_frame c m (write_frame (frame_at c) f m)"
proof -
  have "length (frame_words f) = 69" using assms by (simp add: frame_ok_def frame_words_def)
  then have "\<forall>(i, v) \<in> set (enumerate 0 (frame_words f)). 8 * i + 8 \<le> 552" by (auto simp: in_set_enumerate_eq)
  then show ?thesis unfolding off_frame_def write_frame_def by (intro allI impI store_slots_outside) simp_all
qed

lemma restore_written:
  assumes "frame_ok f" and "cpu_ok left"
  shows "exec restore_code (set_reg 2 p left, w\<lparr>ram := write_frame p f (ram w)\<rparr>) =
    (restore_registers f left, WRITE_SSTATUS (sstatus f) (w\<lparr>ram := write_frame p f (ram w)\<rparr>))"
proof -
  let ?c = "set_reg 2 p left" and ?w = "w\<lparr>ram := write_frame p f (ram w)\<rparr>"
  have c: "length (gpr ?c) = 32" "length (fpr ?c) = 32" "gpr ?c ! 0 = 0" "gpr ?c ! 2 = p"
    using assms(2) by (simp_all add: cpu_ok_def)
  have f: "read_frame (ram ?w) (gpr ?c ! 2) = f" using read_write_frame assms(1) c(4) by (simp add: frame_ok_def)
  have "restore_registers f ?c = restore_registers f left" by (simp add: restore_registers_def set_reg_def)
  then show ?thesis using exec_restore [OF c(1-3), of ?w] unfolding f by simp
qed

lemma trap_entry_handler:
  assumes "cpu_ok cpu" and "cpu_ok left"
  shows "case trap_handler (slot (ram w) (frame_at cpu) 0) left cpu (framed cpu w) of
      None \<Rightarrow> trap_entry left cpu w = None
    | Some (Halted, v) \<Rightarrow> trap_entry left cpu w = Some (Halted, v)
    | Some (Returned c, v) \<Rightarrow> \<exists>m. trap_entry left cpu w = Some (Returned c, v\<lparr>ram := m\<rparr>) \<and> off_frame cpu (ram v) m"
proof -
  let ?w = "framed cpu w" and ?p = "frame_at cpu"
  let ?c = "set_reg 5 (csr_fcsr cpu) (set_reg 2 ?p cpu)"
  have len: "length (gpr cpu) = 32" "length (fpr cpu) = 32" using assms(1) by (simp_all add: cpu_ok_def)
  define f where "f = save_registers (slot (ram w) ?p 0) cpu ?w"
  have ss: "READ_SSTATUS ?w = READ_SSTATUS w" by (simp add: framed_def READ_SSTATUS_def)
  have f_eq: "read_frame (ram ?w) ?p = f" unfolding f_def
    using read_saved [OF len, of ?p w "ram w"] ss by (simp add: framed_def save_registers_def)
  have ok: "frame_ok f" using len by (simp add: f_def frame_ok_def save_registers_def)
  define run where "run = (if csr_scause cpu = CAUSE_SUPERVISOR_ECALL
     then do { (frame, w) \<leftarrow> handle_syscall f ?w; Some (Returned frame, w) } else handle_exception f ?w)"
  have saved: "exec save_code (cpu, w) = (?c, ?w)" "gpr ?c ! 2 = ?p" "read_csr Scause ?c ?w = csr_scause cpu"
    using exec_save [OF len(1), of w] len by (simp_all add: framed_def frame_at_def)
  have entry: "trap_entry left cpu w = run \<bind> (\<lambda>(r, w). case r of
      Returned frame \<Rightarrow> (let (c, w) = exec restore_code (set_reg 2 ?p left, w\<lparr>ram := write_frame ?p frame (ram w)\<rparr>) in Some (Returned c, w))
    | Halted \<Rightarrow> Some (Halted, w))"
    unfolding trap_entry_def saved(1) Let_def prod.case saved(2,3) f_eq run_def by (rule refl)
  have handler: "trap_handler (slot (ram w) ?p 0) left cpu ?w = run \<bind> (\<lambda>(r, w). Some (case r of
      Returned frame \<Rightarrow> (Returned (restore_registers frame left), WRITE_SSTATUS (sstatus frame) w) | Halted \<Rightarrow> (Halted, w)))"
    unfolding trap_handler_def Let_def f_def [symmetric] run_def by (rule refl)
  show ?thesis
  proof (cases run)
    case None
    then show ?thesis by (simp add: entry handler)
  next
    case (Some rw)
    obtain r v where rw: "rw = (r, v)" by (cases rw)
    show ?thesis
    proof (cases r)
      case Halted
      then show ?thesis using Some rw by (simp add: entry handler)
    next
      case (Returned g)
      then have g: "frame_ok g"
        using Some rw handle_exception_frame [OF _ ok] handle_syscall_frame [OF _ ok]
        by (auto simp: run_def split: if_split_asm elim!: bind_SomeE)
      let ?m = "write_frame ?p g (ram v)"
      have "trap_entry left cpu w = Some (Returned (restore_registers g left), (WRITE_SSTATUS (sstatus g) v)\<lparr>ram := ?m\<rparr>)"
        using Some rw Returned restore_written [OF g assms(2), of ?p v] by (simp add: entry WRITE_SSTATUS_def)
      then show ?thesis
        using Some rw Returned write_frame_off [OF g, of cpu "ram v"] by (auto simp: handler)
    qed
  qed
qed

lemma trap_handler_typed:
  assumes "cpu_ok cpu" and "trap_handler slot0 left cpu w = Some (Returned c, v)"
  shows "cpu_ok c"
proof -
  let ?f = "save_registers slot0 cpu w"
  have f: "frame_ok ?f" using assms(1) by (simp add: frame_ok_def save_registers_def cpu_ok_def)
  obtain g where "c = restore_registers g left" "frame_ok g"
    using assms(2) handle_syscall_frame [OF _ f] handle_exception_frame [OF _ f]
    by (fastforce simp: trap_handler_def Let_def split: if_splits outcome.splits elim!: bind_SomeE)
  then show ?thesis
    by (simp add: cpu_ok_def restore_registers_def frame_ok_def)
qed

lemma kernel_ok_ram: "kernel_ok (w\<lparr>ram := m\<rparr>) = kernel_ok w"
proof -
  have "uart_live (w\<lparr>ram := m\<rparr>) = uart_live w" by (rule uart_live_cong) simp_all
  then show ?thesis by (simp add: kernel_ok_def tables_wf_def clock_at_def)
qed

section \<open>Properties\<close>

text \<open>
  C33.  The instructions of the trap entry and exit implement \<open>trap_handler\<close>: run on the machine with the frame
  saved below the stack pointer, both get stuck together, halt in the same state, or return with the same registers; memory then
  differs at most inside the 552 bytes of the frame, and saving it has changed no other memory.
\<close>

theorem trap_entry_refines:
  assumes "cpu_ok cpu" and "cpu_ok left"
  shows "off_frame cpu (ram w) (ram (framed cpu w)) \<and>
    read_frame (ram (framed cpu w)) (frame_at cpu) = save_registers (slot (ram w) (frame_at cpu) 0) cpu w \<and>
    (case trap_handler (slot (ram w) (frame_at cpu) 0) left cpu (framed cpu w) of
      None \<Rightarrow> trap_entry left cpu w = None
    | Some (Halted, v) \<Rightarrow> trap_entry left cpu w = Some (Halted, v)
    | Some (Returned c, v) \<Rightarrow> \<exists>m. trap_entry left cpu w = Some (Returned c, v\<lparr>ram := m\<rparr>) \<and> off_frame cpu (ram v) m)"
  using trap_entry_handler [OF assms, of w] framed_off [of cpu w] read_saved [of cpu "frame_at cpu" w "ram w"] assms(1)
  by (simp add: framed_def cpu_ok_def)

theorem trap_entry_refines_witness:
  "\<exists>v. trap_entry (demo_cpu 0) (demo_cpu 0x8000000000000005) demo_trap_machine = Some (Returned (demo_cpu 0), v) \<and> g_system_ticks v = 1"
proof -
  let ?c = "demo_cpu 0x8000000000000005" and ?w = "framed (demo_cpu 0x8000000000000005) demo_trap_machine"
  let ?s = "slot (ram demo_trap_machine) (frame_at ?c) 0"
  have ok: "cpu_ok ?c" "cpu_ok (demo_cpu 0)" by (simp_all add: cpu_ok_def demo_cpu_def)
  have w: "kernel_ok ?w" "clock_at 0 ?w" "handler_of ?w 0x8000000000000005 = DefaultInterrupt"
    using demo_trap_ok demo_trap_entries by (simp_all add: framed_same)
  have "length (gpr ?c) = 32" "gpr ?c ! 0 = 0" "csr_scause ?c = 0x8000000000000005" by (simp_all add: demo_cpu_def)
  then obtain v where v: "trap_handler ?s (demo_cpu 0) ?c ?w = Some (Returned (demo_cpu 0), v)"
      "uart_io 0 (count_text (trap_count ?w + 1) @ tick_text (Suc 0)) (tick_state (Suc 0) (?w\<lparr>trap_count := trap_count ?w + 1\<rparr>)) v"
    using timer_trap [OF w(1,2) _ w(3), of ?c ?s "demo_cpu 0"] by (auto simp: demo_cpu_def)
  moreover have "g_system_ticks v = 1" using timer_more_io(1) [OF v(2)] by (simp add: tick_state_def)
  ultimately show ?thesis
    using trap_entry_refines [OF ok, of demo_trap_machine] by auto
qed

text \<open>
  C31.  The trap path is type sound.  From a well-formed kernel (tables of the declared sizes, no null handler, counters that agree,
  a working UART) and a well-formed register file (32 registers of each kind, \<open>x0\<close> zero) a trap ends in a well-formed
  kernel, and returns, if it does, with a well-formed register file; only a system call can be stuck.
\<close>

theorem traps_well_typed:
  assumes "cpu_ok cpu" and "cpu_ok left" and "kernel_ok w"
  shows "case trap_entry left cpu w of
      None \<Rightarrow> csr_scause cpu = CAUSE_SUPERVISOR_ECALL
    | Some (r, w') \<Rightarrow> kernel_ok w' \<and> (case r of Returned c \<Rightarrow> cpu_ok c | Halted \<Rightarrow> True)"
proof -
  let ?s = "slot (ram w) (frame_at cpu) 0"
  have ok: "kernel_ok (framed cpu w)" using assms(3) by (simp add: framed_same)
  obtain n where n: "clock_at n (framed cpu w)" using ok by (auto simp: kernel_ok_def)
  note entry = trap_entry_handler [OF assms(1,2), of w]
  show ?thesis
  proof (cases "trap_handler ?s left cpu (framed cpu w)")
    case None
    then have "csr_scause cpu = 9" using trap_handler_exception [OF ok n, of cpu ?s left] by fastforce
    then show ?thesis using entry None by (simp add: CAUSE_SUPERVISOR_ECALL_def)
  next
    case (Some rv)
    obtain r v where rv: "rv = (r, v)" by (cases rv)
    have v: "kernel_ok v" using trap_step_ok [OF ok] Some rv by blast
    show ?thesis
    proof (cases r)
      case (Returned c)
      then have "cpu_ok c" using trap_handler_typed [OF assms(1)] Some rv by blast
      then show ?thesis using entry v Some rv Returned by (auto simp: kernel_ok_ram)
    qed (use entry v Some rv in simp)
  qed
qed

theorem traps_well_typed_witness:
  "\<exists>r v. trap_entry (demo_cpu 0) (demo_cpu 3) demo_trap_machine = Some (r, v) \<and> kernel_ok v \<and>
    (case r of Returned c \<Rightarrow> cpu_ok c | Halted \<Rightarrow> True)"
proof -
  have "cpu_ok (demo_cpu 3)" "cpu_ok (demo_cpu 0)" "csr_scause (demo_cpu 3) = 3" by (simp_all add: cpu_ok_def demo_cpu_def)
  then show ?thesis
    using traps_well_typed [OF _ _ demo_trap_ok(1), of "demo_cpu 3" "demo_cpu 0"]
    by (simp add: CAUSE_SUPERVISOR_ECALL_def split: option.splits prod.splits)
qed

end
