(* ===== verification/UserProg.thy ===== *)
theory UserProg
  imports CString TrapLaws Memory
begin

text \<open>
  The embedded user program (\<^verbatim>\<open>src/entry.c\<close>): the stack that the C library's start code
  expects, and loading and calling the program.  The program itself is built from files that are
  not part of the repository; it is a parameter, a function on the machine that returns or ends in
  an endless loop.  Where the linker and the compiler put objects is the record \<open>image\<close>: the stack pointer at \<^verbatim>\<open>exception_init\<close>, the program and the
  objects and string literals whose address the code passes on, the local arrays of the tests, the
  breakpoint instruction with the registers it is reached with and those its handler leaves.
\<close>

section \<open>The image\<close>

record image =
  current_sp :: u64
  user_prog_start :: u64
  user_prog_end :: u64
  user_phdrs_at :: u64
  random_bytes_at :: u64
  user_prog_name_at :: u64
  world_at :: u64
  date_at :: u64
  time_at :: u64
  test_str_at :: u64
  buffer_at :: u64
  mem_test_at :: u64
  mem_src_at :: u64
  mem_dst_at :: u64
  ebreak_at :: u64
  ebreak_slot :: u64
  ebreak_cpu :: cpu_t
  ebreak_left :: cpu_t

record Elf64_Phdr =
  p_type :: u32
  p_flags :: u32
  p_offset :: u64
  p_vaddr :: u64
  p_paddr :: u64
  p_filesz :: u64
  p_memsz :: u64
  p_align :: u64

definition AT_NULL :: u64 where "AT_NULL = 0"
definition AT_PHDR :: u64 where "AT_PHDR = 3"
definition AT_PHENT :: u64 where "AT_PHENT = 4"
definition AT_PHNUM :: u64 where "AT_PHNUM = 5"
definition AT_PAGESZ :: u64 where "AT_PAGESZ = 6"
definition AT_RANDOM :: u64 where "AT_RANDOM = 25"

lemmas AT_defs = AT_NULL_def AT_PHDR_def AT_PHENT_def AT_PHNUM_def AT_PAGESZ_def AT_RANDOM_def

text \<open>The bytes of a header in memory; \<^verbatim>\<open>sizeof(Elf64_Phdr)\<close> is their number.\<close>

definition le_bytes :: "nat \<Rightarrow> 'a::len word \<Rightarrow> u8 list" where
  "le_bytes n v = map (\<lambda>i. ucast (drop_bit (8 * i) v)) [0..<n]"

definition phdr_bytes :: "Elf64_Phdr \<Rightarrow> u8 list" where
  "phdr_bytes p = le_bytes 4 (p_type p) @ le_bytes 4 (p_flags p) @ le_bytes 8 (p_offset p) @ le_bytes 8 (p_vaddr p) @
     le_bytes 8 (p_paddr p) @ le_bytes 8 (p_filesz p) @ le_bytes 8 (p_memsz p) @ le_bytes 8 (p_align p)"

definition sizeof_Elf64_Phdr :: u64 where
  "sizeof_Elf64_Phdr = 56"

lemma length_phdr_bytes: "length (phdr_bytes p) = unat sizeof_Elf64_Phdr"
  by (simp add: phdr_bytes_def le_bytes_def sizeof_Elf64_Phdr_def)

definition user_phdrs :: "Elf64_Phdr list" where
  "user_phdrs = [
     \<lparr>p_type = 1, p_flags = 7, p_offset = 0x1000, p_vaddr = 0x80800000, p_paddr = 0x80800000,
      p_filesz = 0x19b8, p_memsz = 0x2024, p_align = 0x1000\<rparr>,
     \<lparr>p_type = 2, p_flags = 6, p_offset = 0x2798, p_vaddr = 0x80801798, p_paddr = 0x80801798,
      p_filesz = 0x170, p_memsz = 0x170, p_align = 0x8\<rparr>]"

section \<open>The user stack\<close>

text \<open>\<^verbatim>\<open>*(--sp) = v\<close>\<close>

definition push64 :: "u64 \<Rightarrow> u64 \<times> ram \<Rightarrow> u64 \<times> ram" where
  "push64 v = (\<lambda>(sp, m). (sp - 8, store64 m (sp - 8) v))"

text \<open>The words in the order of the pushes.\<close>

definition prepare_user_stack :: "image \<Rightarrow> u64 \<Rightarrow> u64 \<Rightarrow> ram \<Rightarrow> u64 \<times> ram" where
  "prepare_user_stack img stack_bottom stack_size m =
     (let sp = stack_bottom + stack_size;
          sp = sp AND NOT 0xF
      in fold push64
          [0, AT_NULL,
           random_bytes_at img, AT_RANDOM,
           4096, AT_PAGESZ,
           2, AT_PHNUM,
           sizeof_Elf64_Phdr, AT_PHENT,
           user_phdrs_at img, AT_PHDR,
           0,
           0,
           user_prog_name_at img,
           1] (sp, m))"

section \<open>Running the program\<close>

text \<open>How a command ends: with a result, in an endless loop, or at the load address again.\<close>

datatype 'r run = Done 'r | Stopped | Restarted

type_synonym 's user_code = "'s \<Rightarrow> (unit outcome \<times> 's) option"

definition run_user_prog ::
    "image \<Rightarrow> 'a heap_machine_scheme user_code \<Rightarrow> 'a heap_machine_scheme \<Rightarrow> (unit run \<times> 'a heap_machine_scheme) option" where
  "run_user_prog img user_main w = do {
     let start_addr = 0x80800000;
     let sz = user_prog_end img - user_prog_start img;
     w \<leftarrow> say (logger_info (''Loading user program to 0x%llx (size: %d bytes)...'' @ nl) [start_addr, sz]) w;
     let w = w\<lparr>ram := snd (memset start_addr 0 0x4000 (ram w))\<rparr>;
     let w = w\<lparr>ram := snd (memcpy start_addr (user_prog_start img) sz (ram w))\<rparr>;
     (user_stack, w) \<leftarrow> malloc (64 * 1024) w;
     if user_stack = NULL then do {
       w \<leftarrow> say (logger_error (''Failed to allocate user stack!'' @ nl) []) w;
       Some (Done (), w) }
     else do {
       let (sp, m) = prepare_user_stack img user_stack (64 * 1024) (ram w);
       let w = w\<lparr>ram := m\<rparr>;
       w \<leftarrow> say (logger_info (''Jumping to user program at 0x%llx with sp=0x%llx...'' @ nl) [start_addr, sp]) w;
       (r, w) \<leftarrow> user_main w;
       case r of
         Halted \<Rightarrow> Some (Stopped, w)
       | Returned _ \<Rightarrow> do {
           w \<leftarrow> say (logger_info (''User program returned.'' @ nl) []) w;
           Some (Done (), w) } } }"

section \<open>The layout of the stack\<close>

text \<open>Where \<open>n\<close> words below \<open>sp\<close> end up.\<close>

lemma push_all:
  assumes "unat base + 8 * length vs = unat sp"
  shows "\<exists>m'. fold push64 vs (sp, m) = (base, m') \<and>
    (\<forall>i < length vs. load64 m' (base + 8 * of_nat i) = rev vs ! i) \<and>
    (\<forall>a. unat a < unat base \<or> unat sp \<le> unat a \<longrightarrow> m' a = m a)"
  using assms
proof (induction vs arbitrary: base rule: rev_induct)
  case Nil
  then show ?case by (simp add: word_unat_eq_iff)
next
  case (snoc v vs)
  have b8: "unat (base + 8) = unat base + 8"
    using add_less_no_wrap [of base 8] snoc.prems unat_less_64 [of sp] by simp
  then obtain m1 where m1: "fold push64 vs (sp, m) = (base + 8, m1)"
      "\<And>i. i < length vs \<Longrightarrow> load64 m1 (base + 8 + 8 * of_nat i) = rev vs ! i"
      "\<And>a. unat a < unat base + 8 \<or> unat sp \<le> unat a \<Longrightarrow> m1 a = m a"
    using snoc.IH [of "base + 8"] snoc.prems by auto
  let ?m = "store64 m1 base v"
  have kept: "?m a = m1 a" if "unat a < unat base \<or> unat base + 8 \<le> unat a" for a
    using that unat_sub_if' [of a base] unat_less_64 [of sp] snoc.prems by (auto simp: store64_eq word_le_nat_alt)
  have "load64 ?m (base + 8 * of_nat i) = rev (vs @ [v]) ! i" if i: "i < length (vs @ [v])" for i
  proof (cases i)
    case (Suc j)
    have "load64 ?m (base + of_nat (8 * i)) = load64 m1 (base + of_nat (8 * i))"
    proof (rule load64_cong)
      fix k :: nat assume k: "k < 8"
      have "unat (base + of_nat (8 * i + k)) = unat base + (8 * i + k)"
        by (rule add_less_no_wrap) (use i k snoc.prems unat_less_64 [of sp] in simp)
      then have "?m (base + of_nat (8 * i + k)) = m1 (base + of_nat (8 * i + k))" using Suc by (intro kept) simp
      then show "?m (base + of_nat (8 * i) + of_nat k) = m1 (base + of_nat (8 * i) + of_nat k)" by (simp add: add.assoc)
    qed
    then show ?thesis using m1(2) [of j] i Suc by (simp add: algebra_simps)
  qed (simp add: load64_store64)
  moreover have "fold push64 (vs @ [v]) (sp, m) = (base, ?m)" using m1(1) by (simp add: push64_def)
  moreover have "?m a = m a" if "unat a < unat base \<or> unat sp \<le> unat a" for a
    using that kept [of a] m1(3) [of a] snoc.prems by auto
  ultimately show ?case by blast
qed

text \<open>
  What the start code of a C program reads from the stack pointer on: the argument count, the
  pointers up to a null pointer (\<^verbatim>\<open>argv\<close>, then \<^verbatim>\<open>envp\<close>), and pairs up to \<^verbatim>\<open>AT_NULL\<close>.
\<close>

fun words_to_null :: "nat \<Rightarrow> ram \<Rightarrow> u64 \<Rightarrow> u64 list" where
  "words_to_null 0 m p = []"
| "words_to_null (Suc k) m p = (if load64 m p = 0 then [] else load64 m p # words_to_null k m (p + 8))"

fun aux_pairs :: "nat \<Rightarrow> ram \<Rightarrow> u64 \<Rightarrow> (u64 \<times> u64) list" where
  "aux_pairs 0 m p = []"
| "aux_pairs (Suc k) m p = (if load64 m p = AT_NULL then [] else (load64 m p, load64 m (p + 8)) # aux_pairs k m (p + 16))"

definition read_start :: "nat \<Rightarrow> ram \<Rightarrow> u64 \<Rightarrow> u64 \<times> u64 list \<times> u64 list \<times> (u64 \<times> u64) list" where
  "read_start k m sp =
     (let argv = words_to_null k m (sp + 8);
          ep = sp + 16 + 8 * of_nat (length argv);
          envp = words_to_null k m ep
      in (load64 m sp, argv, envp, aux_pairs k m (ep + 8 + 8 * of_nat (length envp))))"

text \<open>The stack pointer: sixteen words below the rounded top.\<close>

definition user_sp :: "u64 \<Rightarrow> u64 \<Rightarrow> u64" where
  "user_sp bottom sz = ((bottom + sz) AND NOT 0xF) - 128"

definition user_stack_words :: "image \<Rightarrow> u64 list" where
  "user_stack_words img = [1, user_prog_name_at img, 0, 0, AT_PHDR, user_phdrs_at img, AT_PHENT, sizeof_Elf64_Phdr,
     AT_PHNUM, 2, AT_PAGESZ, 4096, AT_RANDOM, random_bytes_at img, AT_NULL, 0]"

lemma user_sp_unat:
  assumes "unat bottom + unat sz < 2 ^ 64" and "144 \<le> unat sz"
  shows "unat (user_sp bottom sz) + 128 = (unat bottom + unat sz) div 16 * 16"
    "unat bottom < unat (user_sp bottom sz)"
proof -
  have top: "unat (bottom + sz) = unat bottom + unat sz" using assms(1) by (simp add: unat_word_ariths)
  have "(0xF :: u64) = mask 4" by (simp add: mask_eq_exp_minus_1)
  then have al: "unat ((bottom + sz) AND NOT 0xF) = (unat bottom + unat sz) div 16 * 16"
    using unat_and_not_mask [of "bottom + sz" 4] top by (simp add: minus_mod_eq_div_mult)
  have ge: "unat bottom + 129 \<le> (unat bottom + unat sz) div 16 * 16"
    using assms(2) div_mult_mod_eq [of "unat bottom + unat sz" 16] mod_less_divisor [of 16 "unat bottom + unat sz"] by linarith
  have "unat (user_sp bottom sz) = (unat bottom + unat sz) div 16 * 16 - 128"
    unfolding user_sp_def using al ge by (subst unat_sub) (simp_all add: word_le_nat_alt)
  then show "unat (user_sp bottom sz) + 128 = (unat bottom + unat sz) div 16 * 16" "unat bottom < unat (user_sp bottom sz)"
    using ge by simp_all
qed

lemma prepare_user_stack_words:
  assumes "unat bottom + unat sz < 2 ^ 64" and "144 \<le> unat sz"
  shows "\<exists>m'. prepare_user_stack img bottom sz m = (user_sp bottom sz, m') \<and>
    (\<forall>i < 16. load64 m' (user_sp bottom sz + 8 * of_nat i) = user_stack_words img ! i) \<and>
    (\<forall>a. unat a < unat (user_sp bottom sz) \<or> unat (user_sp bottom sz) + 128 \<le> unat a \<longrightarrow> m' a = m a)"
proof -
  let ?sp = "(bottom + sz) AND NOT 0xF"
  have "unat ?sp = unat (user_sp bottom sz) + 128"
    using user_sp_unat(1) [OF assms] add_less_no_wrap [of "user_sp bottom sz" 128] assms
    by (simp add: user_sp_def minus_mod_eq_div_mult [symmetric])
  moreover have "length (user_stack_words img) = 16" by (simp add: user_stack_words_def)
  moreover have "prepare_user_stack img bottom sz m = fold push64 (rev (user_stack_words img)) (?sp, m)"
    by (simp add: user_stack_words_def prepare_user_stack_def Let_def)
  ultimately show ?thesis
    using push_all [of "user_sp bottom sz" "rev (user_stack_words img)" ?sp m] by simp
qed

text \<open>Reading it back.\<close>

lemma read_start_words:
  assumes "\<forall>i < 16. load64 m (sp + 8 * of_nat i) = user_stack_words img ! i"
    and "user_prog_name_at img \<noteq> 0"
  shows "read_start 8 m sp = (1, [user_prog_name_at img], [],
    [(AT_PHDR, user_phdrs_at img), (AT_PHENT, sizeof_Elf64_Phdr), (AT_PHNUM, 2), (AT_PAGESZ, 4096),
     (AT_RANDOM, random_bytes_at img)])"
proof -
  have w: "load64 m (sp + 8 * of_nat i) = user_stack_words img ! i" if "i < 16" for i using assms(1) that by blast
  note ws = w [of 0] w [of 1] w [of 2] w [of 3] w [of 4] w [of 5] w [of 6] w [of 7] w [of 8] w [of 9] w [of 10]
    w [of 11] w [of 12] w [of 13] w [of 14] w [of 15]
  have k: "words_to_null 8 m p = (if load64 m p = 0 then [] else load64 m p # words_to_null 7 m (p + 8))"
    "words_to_null 7 m p = (if load64 m p = 0 then [] else load64 m p # words_to_null 6 m (p + 8))" for p
    by (simp_all add: eval_nat_numeral)
  have aux: "aux_pairs (Suc k) m p = (if load64 m p = AT_NULL then [] else (load64 m p, load64 m (p + 8)) # aux_pairs k m (p + 16))" for k p
    by simp
  have "aux_pairs 8 m (sp + 32) = [(AT_PHDR, user_phdrs_at img), (AT_PHENT, sizeof_Elf64_Phdr), (AT_PHNUM, 2),
      (AT_PAGESZ, 4096), (AT_RANDOM, random_bytes_at img)]"
    using aux [of 7 "sp + 32"] aux [of 6 "sp + 48"] aux [of 5 "sp + 64"] aux [of 4 "sp + 80"] aux [of 3 "sp + 96"]
      aux [of 2 "sp + 112"] ws by (simp add: user_stack_words_def AT_defs add.assoc)
  then show ?thesis
    using ws assms(2) by (simp add: read_start_def k user_stack_words_def Let_def add.assoc)
qed

section \<open>Loading and calling the program\<close>

definition user_prog_size :: "image \<Rightarrow> u64" where
  "user_prog_size img = user_prog_end img - user_prog_start img"

text \<open>Memory with the program at its address, the rest of the 16 KB cleared.\<close>

definition with_program :: "image \<Rightarrow> ram \<Rightarrow> ram" where
  "with_program img m = (\<lambda>a.
     if a - 0x80800000 < user_prog_size img then m (user_prog_start img + (a - 0x80800000))
     else if a - 0x80800000 < 0x4000 then 0 else m a)"

definition prog_below :: "image \<Rightarrow> bool" where
  "prog_below img \<longleftrightarrow> unat (user_prog_start img) + unat (user_prog_size img) \<le> 0x80800000 \<and> user_prog_size img \<le> 0x4000"

lemma load_program:
  assumes "prog_below img"
  shows "snd (memcpy 0x80800000 (user_prog_start img) (user_prog_size img) (snd (memset 0x80800000 0 0x4000 m))) =
    with_program img m"
proof -
  let ?s = "user_prog_start img" and ?n = "user_prog_size img"
  define z where "z = (\<lambda>a. if a - 0x80800000 < 0x4000 then 0 else m a)"
  have le: "unat ?s + unat ?n \<le> 0x80800000" using assms by (simp add: prog_below_def)
  then have "unat (0x80800000 - ?s) = 0x80800000 - unat ?s" by (subst unat_sub) (simp_all add: word_le_nat_alt)
  then have "?n \<le> 0x80800000 - ?s" using le by (simp add: word_le_nat_alt)
  then have copy: "snd (memcpy 0x80800000 ?s ?n z) = moved 0x80800000 ?s ?n z" by (simp add: memcpy_moved)
  have src: "z (?s + i) = m (?s + i)" if i: "i < ?n" for i
  proof -
    have lt: "unat i < unat ?n" using i by (simp add: word_less_nat_alt)
    have si: "unat (?s + i) = unat ?s + unat i" using lt le by (subst unat_add_lem [THEN iffD1]) simp_all
    then have "\<not> (?s + i) - 0x80800000 < 0x4000"
      using lt le unat_sub_if' [of "?s + i" "0x80800000"] by (simp add: word_less_nat_alt)
    then show ?thesis by (simp add: z_def)
  qed
  have clear: "snd (memset 0x80800000 0 0x4000 m) = z" by (simp add: memset_def memset_loop_eq z_def)
  show ?thesis
  proof
    fix a show "snd (memcpy 0x80800000 ?s ?n (snd (memset 0x80800000 0 0x4000 m))) a = with_program img m a"
      unfolding clear copy by (simp add: moved_def with_program_def src) (simp add: z_def)
  qed
qed

definition loading_text :: "u64 \<Rightarrow> u8 list" where
  "loading_text sz = log_line LOG_LEVEL_INFO (str ''Loading user program to 0x80800000 (size: '' @
     show_int (sint (ucast sz :: u32)) @ str ('' bytes)...'' @ nl))"

definition jumping_text :: "u64 \<Rightarrow> u8 list" where
  "jumping_text sp = log_line LOG_LEVEL_INFO (str ''Jumping to user program at 0x80800000 with sp=0x'' @
     show_nat 16 (unat sp) @ str (''...'' @ nl))"

lemma show_load_addr: "show_nat 16 0x80800000 = str ''80800000''"
  by (simp add: show_nat_def digits_of.simps digit_char_def)

lemma prints_loading:
  "prints (say (logger_info (''Loading user program to 0x%llx (size: %d bytes)...'' @ nl) [0x80800000, sz])) (\<lambda>t. loading_text sz)"
proof -
  have fmt: "str (''Loading user program to 0x%llx (size: %d bytes)...'' @ nl) =
      str ''Loading user program to 0x'' @ str ''%llx'' @ str '' (size: '' @ str ''%d'' @ str ('' bytes)...'' @ nl)" by simp
  have "formats m (str (''Loading user program to 0x%llx (size: %d bytes)...'' @ nl)) [0x80800000, sz]
      (str ''Loading user program to 0x'' @ show_nat 16 (unat (0x80800000 :: u64)) @ str '' (size: '' @
        show_int (sint (ucast sz :: u32)) @ str ('' bytes)...'' @ nl))" for m
    unfolding fmt
    by (rule formats_plain, simp, rule formats_llx, rule formats_plain, simp, rule formats_d, rule formats_lit) (simp add: nl_def)
  then show ?thesis unfolding log_defs loading_text_def by (intro prints_say) (simp add: show_load_addr)
qed

lemma prints_jumping:
  "prints (say (logger_info (''Jumping to user program at 0x%llx with sp=0x%llx...'' @ nl) [0x80800000, sp])) (\<lambda>t. jumping_text sp)"
proof -
  have fmt: "str (''Jumping to user program at 0x%llx with sp=0x%llx...'' @ nl) =
      str ''Jumping to user program at 0x'' @ str ''%llx'' @ str '' with sp=0x'' @ str ''%llx'' @ str (''...'' @ nl)" by simp
  have "formats m (str (''Jumping to user program at 0x%llx with sp=0x%llx...'' @ nl)) [0x80800000, sp]
      (str ''Jumping to user program at 0x'' @ show_nat 16 (unat (0x80800000 :: u64)) @ str '' with sp=0x'' @
        show_nat 16 (unat sp) @ str (''...'' @ nl))" for m
    unfolding fmt
    by (rule formats_plain, simp, rule formats_llx, rule formats_plain, simp, rule formats_llx, rule formats_lit) (simp add: nl_def)
  then show ?thesis unfolding log_defs jumping_text_def by (intro prints_say) (simp add: show_load_addr)
qed

lemma uart_live_heap_ram [simp]: "uart_live (w\<lparr>heap := h, ram := m\<rparr>) = uart_live w" "uart_live (w\<lparr>ram := m\<rparr>) = uart_live w"
  "uart_live (w\<lparr>heap := h\<rparr>) = uart_live w"
  by (rule uart_live_cong; simp)+

text \<open>The machine when the program is called.\<close>

definition program_ready :: "image \<Rightarrow> 'a heap_machine_scheme \<Rightarrow> 'a heap_machine_scheme \<Rightarrow> bool" where
  "program_ready img w w1 \<longleftrightarrow> (\<exists>m'. let stack = heap_current (heap w); sp = user_sp stack 0x10000 in
     prepare_user_stack img stack 0x10000 (with_program img (ram w)) = (sp, m') \<and>
     uart_io 0 (loading_text (user_prog_size img) @ jumping_text sp)
       (w\<lparr>heap := take_piece 0x10000 (heap w), ram := m'\<rparr>) w1)"

lemma run_user_prog_calls:
  assumes live: "uart_live w" and ok: "heap_ok (heap w)" "prog_below img"
    and room: "unat (heap_current (heap w)) + 0x10000 \<le> unat (heap_end (heap w))"
  shows "\<exists>w1. program_ready img w w1 \<and> uart_live w1 \<and> run_user_prog img user_main w = (case user_main w1 of
      None \<Rightarrow> None
    | Some (Halted, w2) \<Rightarrow> Some (Stopped, w2)
    | Some (Returned _, w2) \<Rightarrow>
        map_option (Pair (Done ())) (say (logger_info (''User program returned.'' @ nl) []) w2))"
proof -
  let ?stack = "heap_current (heap w)" and ?h = "take_piece 0x10000 (heap w)" and ?n = "user_prog_size img"
  let ?sp = "user_sp ?stack 0x10000"
  have p: "piece 0x10000 = 0x10000" by (simp add: round_up_def)
  note room' = take_piece_room(3,4) [OF ok(1), of "0x10000" 0, unfolded p]
  have lt: "unat ?stack + 0x10000 < 2 ^ 64" using room unat_less_64 [of "heap_end (heap w)"] by simp
  obtain m' where m': "prepare_user_stack img ?stack 0x10000 (with_program img (ram w)) = (?sp, m')"
    using prepare_user_stack_words [of ?stack "0x10000" img "with_program img (ram w)"] lt by auto
  obtain wa where wa: "say (logger_info (''Loading user program to 0x%llx (size: %d bytes)...'' @ nl) [0x80800000, ?n]) w = Some wa"
      "uart_io 0 (loading_text ?n) w wa"
    using prints_loading live by (rule printsE)
  have same: "heap wa = heap w" "ram wa = ram w" using wa(2) by (auto simp: uart_io_def)
  have live_a: "uart_live wa" using uart_live_io [OF live wa(2)] .
  let ?wb = "wa\<lparr>ram := with_program img (ram w)\<rparr>"
  have alloc: "malloc (64 * 1024) ?wb = Some (?stack, ?wb\<lparr>heap := ?h\<rparr>)"
    using room'(1) [of ?wb] room same by simp
  let ?wc = "wa\<lparr>heap := ?h, ram := m'\<rparr>"
  have "uart_live ?wc" using live_a by simp
  then obtain w1 where w1: "say (logger_info (''Jumping to user program at 0x%llx with sp=0x%llx...'' @ nl) [0x80800000, ?sp]) ?wc = Some w1"
      "uart_io 0 (jumping_text ?sp) ?wc w1"
    by (rule printsE [OF prints_jumping])
  have "uart_io 0 (loading_text ?n) (w\<lparr>heap := heap w, ram := ram w\<rparr>) wa" using wa(2) by simp
  then have io: "uart_io 0 (loading_text ?n @ jumping_text ?sp) (w\<lparr>heap := ?h, ram := m'\<rparr>) w1"
    using uart_io_heap w1(2) by blast
  have ready: "program_ready img w w1" using m' io by (simp add: program_ready_def Let_def)
  have load: "snd (memcpy 0x80800000 (user_prog_start img) (user_prog_end img - user_prog_start img)
      (snd (memset 0x80800000 0 0x4000 (ram w)))) = with_program img (ram w)"
    using load_program [OF ok(2)] by (simp add: user_prog_size_def)
  have wc: "?wb\<lparr>heap := ?h, ram := m'\<rparr> = ?wc" by simp
  have "run_user_prog img user_main w = user_main w1 \<bind> (\<lambda>(r, w). case r of
         Halted \<Rightarrow> Some (Stopped, w)
       | Returned _ \<Rightarrow> say (logger_info (''User program returned.'' @ nl) []) w \<bind> (\<lambda>w. Some (Done (), w)))"
    using wa(1) same load alloc m' w1(1) room'(2) room
    by (simp add: run_user_prog_def user_prog_size_def Let_def cong: if_cong)
  also have "\<dots> = (case user_main w1 of None \<Rightarrow> None | Some (Halted, w2) \<Rightarrow> Some (Stopped, w2)
    | Some (Returned _, w2) \<Rightarrow>
        map_option (Pair (Done ())) (say (logger_info (''User program returned.'' @ nl) []) w2))"
    by (auto split: option.split outcome.split simp: map_conv_bind_option o_def)
  finally show ?thesis using ready uart_live_io [OF _ io] live by auto
qed

section \<open>Properties\<close>

text \<open>What happens after the call: the program may not return, halt, or return.\<close>

definition after_call :: "(unit outcome \<times> 'a heap_machine_scheme) option \<Rightarrow> (unit run \<times> 'a heap_machine_scheme) option" where
  "after_call r = (case r of None \<Rightarrow> None
    | Some (Halted, w2) \<Rightarrow> Some (Stopped, w2)
    | Some (Returned _, w2) \<Rightarrow>
        map_option (Pair (Done ())) (say (logger_info (''User program returned.'' @ nl) []) w2))"

definition demo_image :: image where
  "demo_image = \<lparr>current_sp = 0x80210000, user_prog_start = 0x80208000, user_prog_end = 0x80209000, user_phdrs_at = 0x8020A000,
     random_bytes_at = 0x8020A100, user_prog_name_at = 0x8020A200, world_at = 0x8020A300, date_at = 0x8020A400,
     time_at = 0x8020A500, test_str_at = 0x8020F000, buffer_at = 0x8020F010, mem_test_at = 0x8020F050, mem_src_at = 0x8020F060,
     mem_dst_at = 0x8020F064, ebreak_at = 0x80201000, ebreak_slot = 5, ebreak_cpu = demo_cpu 0, ebreak_left = demo_cpu 0\<rparr>"

text \<open>
  C13.  The prepared user stack lies inside the given memory, its pointer is 16-byte aligned, and
  reading it the way a C library's start code does gives one argument, the program's name, an
  empty environment, and the auxiliary vector with the program headers, page size and random
  bytes; nothing outside the stack is changed.
\<close>

theorem user_stack_readable:
  assumes "unat stack_bottom + unat stack_size < 2 ^ 64" and "144 \<le> unat stack_size" and "user_prog_name_at img \<noteq> NULL"
  shows "\<exists>sp m'. prepare_user_stack img stack_bottom stack_size m = (sp, m') \<and>
    unat sp mod 16 = 0 \<and> unat stack_bottom < unat sp \<and> unat sp + 128 \<le> unat stack_bottom + unat stack_size \<and>
    read_start 8 m' sp = (1, [user_prog_name_at img], [],
      [(AT_PHDR, user_phdrs_at img), (AT_PHENT, of_nat (length (phdr_bytes (hd user_phdrs)))),
       (AT_PHNUM, of_nat (length user_phdrs)), (AT_PAGESZ, 4096), (AT_RANDOM, random_bytes_at img)]) \<and>
    (\<forall>a. unat a < unat sp \<or> unat sp + 128 \<le> unat a \<longrightarrow> m' a = m a)"
proof -
  let ?sp = "user_sp stack_bottom stack_size"
  note sp = user_sp_unat [OF assms(1,2)]
  have "(unat ?sp + 128) mod 16 = 0" unfolding sp(1) by simp
  then have "unat ?sp mod 16 = 0" by presburger
  moreover have "unat ?sp + 128 \<le> unat stack_bottom + unat stack_size"
    unfolding sp(1) by (rule div_times_less_eq_dividend)
  moreover obtain m' where "prepare_user_stack img stack_bottom stack_size m = (?sp, m')"
      "\<forall>i < 16. load64 m' (?sp + 8 * of_nat i) = user_stack_words img ! i"
      "\<forall>a. unat a < unat ?sp \<or> unat ?sp + 128 \<le> unat a \<longrightarrow> m' a = m a"
    using prepare_user_stack_words [OF assms(1,2), of img m] by blast
  ultimately show ?thesis
    using sp(2) read_start_words [OF _ assms(3), of m' ?sp]
    by (intro exI [of _ ?sp] exI [of _ m']) (simp add: length_phdr_bytes sizeof_Elf64_Phdr_def user_phdrs_def)
qed

theorem user_stack_readable_witness:
  "\<exists>sp m'. prepare_user_stack demo_image 0x80400000 0x10000 (\<lambda>a. 0) = (sp, m') \<and>
     fst (read_start 8 m' sp) = 1 \<and> fst (snd (read_start 8 m' sp)) = [0x8020A200]"
  using user_stack_readable [of "0x80400000" "0x10000" demo_image "\<lambda>a. 0"] by (auto simp: demo_image_def)

lemma program_kept:
  assumes n: "prog_below img" and stack: "unat sp + 128 \<le> 0x80800000 \<or> 0x80804000 \<le> unat sp"
    and m: "\<And>a. unat a < unat sp \<or> unat sp + 128 \<le> unat a \<Longrightarrow> m' a = with_program img m a"
  shows "bytes_at m' 0x80800000 (unat (user_prog_size img)) = bytes_at m (user_prog_start img) (unat (user_prog_size img))"
    and "\<forall>i. user_prog_size img \<le> i \<and> i < 0x4000 \<longrightarrow> m' (0x80800000 + i) = 0"
proof -
  let ?n = "user_prog_size img"
  have n: "?n \<le> 0x4000" using n by (simp add: prog_below_def)
  have kept: "m' (0x80800000 + i) = with_program img m (0x80800000 + i)" if "i < 0x4000" for i
  proof (rule m)
    have "unat (0x80800000 + i) = 0x80800000 + unat i" "unat i < 0x4000"
      using that by (simp_all add: unat_word_ariths word_less_nat_alt)
    then show "unat (0x80800000 + i) < unat sp \<or> unat sp + 128 \<le> unat (0x80800000 + i)"
      using stack by auto
  qed
  then show "\<forall>i. ?n \<le> i \<and> i < 0x4000 \<longrightarrow> m' (0x80800000 + i) = 0"
    by (auto simp: with_program_def)
  show "bytes_at m' 0x80800000 (unat ?n) = bytes_at m (user_prog_start img) (unat ?n)"
    unfolding bytes_at_def
  proof (rule map_cong [OF refl])
    fix i assume "i \<in> set [0..<unat ?n]"
    then have i: "(of_nat i :: u64) < ?n" using unat_less_64 [of ?n] by (simp add: word_less_nat_alt unat_of_nat_64)
    then show "m' (0x80800000 + of_nat i) = m (user_prog_start img + of_nat i)"
      using kept [of "of_nat i"] n by (simp add: with_program_def)
  qed
qed

text \<open>
  C12.  \<open>run_user_prog\<close> calls the user program with its bytes at the load address, the rest of the
  16 KB cleared, and a readable start stack in a fresh heap block, and ends the way the program ends,
  if the program lies below the load address and the block does not overlap the loaded program.
\<close>

theorem run_loads_program:
  assumes "uart_live w" and "heap_ok (heap w)" and "prog_below img" and "user_prog_name_at img \<noteq> NULL"
    and room: "unat (heap_current (heap w)) + 0x10000 \<le> unat (heap_end (heap w))"
    and apart: "unat (heap_current (heap w)) + 0x10000 \<le> 0x80800000 \<or> 0x80804000 \<le> unat (heap_current (heap w))"
  shows "\<exists>w1 sp. run_user_prog img user_main w = after_call (user_main w1) \<and>
    bytes_at (ram w1) 0x80800000 (unat (user_prog_size img)) = bytes_at (ram w) (user_prog_start img) (unat (user_prog_size img)) \<and>
    (\<forall>i. user_prog_size img \<le> i \<and> i < 0x4000 \<longrightarrow> ram w1 (0x80800000 + i) = 0) \<and>
    unat (heap_current (heap w)) < unat sp \<and> unat sp + 128 \<le> unat (heap_current (heap w)) + 0x10000 \<and>
    fst (read_start 8 (ram w1) sp) = 1 \<and> fst (snd (read_start 8 (ram w1) sp)) = [user_prog_name_at img] \<and>
    heap w1 = take_piece 0x10000 (heap w) \<and> heap_ok (heap w1)"
proof -
  let ?stack = "heap_current (heap w)" and ?n = "user_prog_size img"
  let ?sp = "user_sp ?stack 0x10000"
  obtain w1 where w1: "program_ready img w w1" "run_user_prog img user_main w = after_call (user_main w1)"
    using run_user_prog_calls [OF assms(1-3) room, of user_main] unfolding after_call_def by blast
  have lt: "unat ?stack + unat (0x10000 :: u64) < 2 ^ 64" "144 \<le> unat (0x10000 :: u64)"
    using room unat_less_64 [of "heap_end (heap w)"] by simp_all
  note sp = user_sp_unat [OF lt] and words = prepare_user_stack_words [OF lt, of img "with_program img (ram w)"]
  obtain m' where m': "prepare_user_stack img ?stack 0x10000 (with_program img (ram w)) = (?sp, m')"
      and io: "ram w1 = m'" "heap w1 = take_piece 0x10000 (heap w)"
    using w1(1) by (auto simp: program_ready_def Let_def uart_io_def)
  have m: "\<forall>i < 16. load64 m' (?sp + 8 * of_nat i) = user_stack_words img ! i"
    "\<And>a. unat a < unat ?sp \<or> unat ?sp + 128 \<le> unat a \<Longrightarrow> m' a = with_program img (ram w) a"
    using words m' by auto
  have top: "unat ?sp + 128 \<le> unat ?stack + 0x10000"
    unfolding sp(1) using div_times_less_eq_dividend [of "unat ?stack + unat (0x10000 :: u64)" 16] by simp
  have "unat ?sp + 128 \<le> 0x80800000 \<or> 0x80804000 \<le> unat ?sp" using apart top sp(2) by auto
  note kept = program_kept [OF assms(3) this m(2)]
  moreover have "heap_ok (take_piece 0x10000 (heap w))"
    using heap_ok_take_piece [OF assms(2), of "0x10000"] room by (simp add: round_up_def)
  ultimately show ?thesis
    using w1(2) sp(2) top read_start_words [OF m(1) assms(4)] io kept by (intro exI [of _ w1] exI [of _ ?sp]) simp
qed

definition exit_code :: "'a heap_machine_scheme user_code" where
  "exit_code w = Some (Returned (), w)"

theorem run_loads_program_witness:
  "\<exists>w1 sp. run_user_prog demo_image exit_code demo_heap_machine = after_call (exit_code w1) \<and>
     fst (read_start 8 (ram w1) sp) = 1 \<and> heap_ok (heap w1)"
proof -
  have "uart_live demo_heap_machine" "heap_ok (heap demo_heap_machine)" "prog_below demo_image" "user_prog_name_at demo_image \<noteq> NULL"
    "unat (heap_current (heap demo_heap_machine)) + 0x10000 \<le> unat (heap_end (heap demo_heap_machine))"
    "unat (heap_current (heap demo_heap_machine)) + 0x10000 \<le> 0x80800000 \<or> 0x80804000 \<le> unat (heap_current (heap demo_heap_machine))"
    by (simp_all add: demo_heap_machine_facts demo_heap_ok demo_image_def prog_below_def user_prog_size_def) (simp_all add: demo_heap_eq)
  from run_loads_program [OF this, of exit_code] show ?thesis by blast
qed

text \<open>
  C32.  The heap region contains the load address: if the next free byte is at \<open>0x807F1000\<close>, the
  user stack is put over the program that was just loaded, and the program starts with the argument
  count 1 at its offset \<open>0xF80\<close> instead of its own bytes.
\<close>

theorem stack_overwrites_program:
  assumes "uart_live w" and "heap_ok (heap w)" and "prog_below img"
    and cur: "heap_current (heap w) = 0x807F1000" and room: "0x80801000 \<le> heap_end (heap w)"
  shows "\<exists>w1. run_user_prog img user_main w = after_call (user_main w1) \<and> load64 (ram w1) 0x80800F80 = 1"
proof -
  have "unat (heap_current (heap w)) + 0x10000 \<le> unat (heap_end (heap w))"
    using room cur by (simp add: word_le_nat_alt)
  then obtain w1 where w1: "program_ready img w w1" "run_user_prog img user_main w = after_call (user_main w1)"
    using run_user_prog_calls [OF assms(1-3), of user_main] unfolding after_call_def by blast
  have sp: "user_sp 0x807F1000 0x10000 = 0x80800F80" by (simp add: user_sp_def)
  obtain m' where "prepare_user_stack img 0x807F1000 0x10000 (with_program img (ram w)) = (0x80800F80, m')" "ram w1 = m'"
    using w1(1) sp by (auto simp: program_ready_def Let_def uart_io_def cur)
  then have "\<forall>i < 16. load64 (ram w1) (0x80800F80 + 8 * of_nat i) = user_stack_words img ! i"
    using prepare_user_stack_words [of "0x807F1000" "0x10000" img "with_program img (ram w)"] sp by simp
  from spec [OF this, of 0] show ?thesis using w1(2) by (auto simp: user_stack_words_def)
qed

theorem stack_overwrites_program_witness:
  "\<exists>p w w1. malloc 0x3F1000 demo_heap_machine = Some (p, w) \<and>
     run_user_prog demo_image exit_code w = after_call (exit_code w1) \<and> load64 (ram w1) 0x80800F80 = 1"
proof -
  let ?w = "demo_heap_machine\<lparr>heap := take_piece 0x3F1000 demo_heap\<rparr>"
  have m: "malloc 0x3F1000 demo_heap_machine = Some (0x80400000, ?w)"
    by (simp add: malloc_def demo_heap_machine_facts demo_heap_eq take_piece_def ALIGN_UP_def)
  have h: "take_piece 0x3F1000 demo_heap = demo_heap\<lparr>heap_current := 0x807F1000, heap_allocated := 0x3F1000\<rparr>"
    by (simp add: take_piece_def demo_heap_eq ALIGN_UP_def)
  have "uart_live ?w" using demo_heap_machine_facts by simp
  moreover have "heap_ok (heap ?w)" "heap_current (heap ?w) = 0x807F1000" "0x80801000 \<le> heap_end (heap ?w)"
    by (simp_all add: h) (simp_all add: heap_ok_def demo_heap_eq)
  moreover have "prog_below demo_image" by (simp add: demo_image_def prog_below_def user_prog_size_def)
  ultimately show ?thesis using stack_overwrites_program [of ?w demo_image exit_code] m by blast
qed

end
