(* ===== verification/SelfTest.thy ===== *)
theory SelfTest
  imports UserProg
begin

text \<open>
  The tests that the shell of \<^verbatim>\<open>src/entry.c\<close> offers: system calls, floating point, strings and
  memory, and the breakpoint exception.
\<close>

section \<open>Floating point\<close>

text \<open>
  Positive IEEE numbers of precision \<open>p\<close> (24 bits for \<^verbatim>\<open>float\<close>, 53 for \<^verbatim>\<open>double\<close>), below
  \<open>2 ^ p\<close> and in the normal range: \<open>mant / 2 ^ frac\<close>.  Results are rounded to nearest, ties to even.
\<close>

record fp =
  mant :: nat
  frac :: nat

function fp_frac :: "nat \<Rightarrow> nat \<Rightarrow> nat \<Rightarrow> nat \<Rightarrow> nat" where
  "fp_frac p n d k = (if n = 0 \<or> d * 2 ^ (p - 1) \<le> n * 2 ^ k then k else fp_frac p n d (k + 1))"
  by pat_completeness auto
termination
  by (relation "measure (\<lambda>(p, n, d, k). d * 2 ^ (p - 1) - n * 2 ^ k)") (auto intro: diff_less_mono2)

declare fp_frac.simps [simp del]

definition fp_round :: "nat \<Rightarrow> nat \<Rightarrow> nat \<Rightarrow> fp" where
  "fp_round p n d =
     (let k = fp_frac p n d 0; q = n * 2 ^ k div d; r = n * 2 ^ k mod d
      in \<lparr>mant = (if 2 * r < d \<or> 2 * r = d \<and> even q then q else q + 1), frac = k\<rparr>)"

definition fp_add :: "nat \<Rightarrow> fp \<Rightarrow> fp \<Rightarrow> fp" where
  "fp_add p a b = fp_round p (mant a * 2 ^ frac b + mant b * 2 ^ frac a) (2 ^ (frac a + frac b))"

definition fp_mul :: "nat \<Rightarrow> fp \<Rightarrow> fp \<Rightarrow> fp" where
  "fp_mul p a b = fp_round p (mant a * mant b) (2 ^ (frac a + frac b))"

definition fp_gt :: "fp \<Rightarrow> fp \<Rightarrow> bool" where
  "fp_gt a b \<longleftrightarrow> mant a * 2 ^ frac b > mant b * 2 ^ frac a"

definition fp_int :: "fp \<Rightarrow> int" where
  "fp_int a = int (mant a div 2 ^ frac a)"

definition test_floating_point :: "'a machine_scheme \<Rightarrow> 'a machine_scheme option" where
  "test_floating_point w = do {
     w \<leftarrow> uart_puts (lit (''=== Floating Point Unit Test ==='' @ crnl)) w;
     let a = fp_round 24 314159 (10 ^ 5);
     let b = fp_round 24 271828 (10 ^ 5);
     let c = fp_add 24 a b;
     let d = fp_mul 24 a b;
     w \<leftarrow> uart_puts (lit (''Single precision test:'' @ crnl)) w;
     w \<leftarrow> uart_puts (lit ''  a + b = '') w;
     w \<leftarrow> uart_print_dec (fp_int c) w;
     w \<leftarrow> uart_puts (lit (''.'' @ crnl)) w;
     w \<leftarrow> uart_puts (lit ''  a * b = '') w;
     w \<leftarrow> uart_print_dec (fp_int d) w;
     w \<leftarrow> uart_puts (lit (''.'' @ crnl)) w;
     let x = fp_round 53 14142135623730951 (10 ^ 16);
     let y = fp_round 53 17320508075688772 (10 ^ 16);
     let z = fp_mul 53 x y;
     w \<leftarrow> uart_puts (lit (''Double precision test:'' @ crnl)) w;
     w \<leftarrow> uart_puts (lit ''  sqrt(2) * sqrt(3) = '') w;
     w \<leftarrow> uart_print_dec (fp_int z) w;
     w \<leftarrow> uart_puts (lit (''.'' @ crnl)) w;
     w \<leftarrow> (if fp_gt c a \<and> fp_gt c b then uart_puts (lit (''  Comparison: c > a and c > b - PASS'' @ crnl)) w
           else uart_puts (lit (''  Comparison: c > a and c > b - FAIL'' @ crnl)) w);
     uart_puts (lit (''Floating point test completed.'' @ crnl)) w }"

section \<open>System calls\<close>

text \<open>A call whose result is not used.\<close>

definition call :: "('a machine_scheme \<Rightarrow> ('r \<times> 'a machine_scheme) option) \<Rightarrow> 'a machine_scheme \<Rightarrow> 'a machine_scheme option" where
  "call f w = map_option snd (f w)"

definition test_syscalls :: "image \<Rightarrow> 'a machine_scheme \<Rightarrow> 'a machine_scheme option" where
  "test_syscalls img w = do {
     w \<leftarrow> uart_puts (lit (''=== System Call Tests ==='' @ crnl)) w;
     w \<leftarrow> uart_puts (lit ''Testing sys_putchar: '') w;
     w \<leftarrow> call (sys_putchar (ucast (ch CHR ''H''))) w;
     w \<leftarrow> call (sys_putchar (ucast (ch CHR ''e''))) w;
     w \<leftarrow> call (sys_putchar (ucast (ch CHR ''l''))) w;
     w \<leftarrow> call (sys_putchar (ucast (ch CHR ''l''))) w;
     w \<leftarrow> call (sys_putchar (ucast (ch CHR ''o''))) w;
     w \<leftarrow> uart_putchar (ch CHR 0x0D) w;
     w \<leftarrow> uart_putchar (ch CHR 0x0A) w;
     w \<leftarrow> uart_puts (lit ''Testing sys_puts: '') w;
     w \<leftarrow> call (sys_puts (world_at img)) w;
     uart_puts (lit (''System call tests completed.'' @ crnl)) w }"

section \<open>Strings and memory\<close>

text \<open>\<^verbatim>\<open>uint8_t mem_src[] = {...}\<close>: an array initialised with bytes.\<close>

definition put_bytes :: "u64 \<Rightarrow> u8 list \<Rightarrow> ram \<Rightarrow> ram" where
  "put_bytes p bs m = (\<lambda>a. if unat (a - p) < length bs then bs ! unat (a - p) else m a)"

text \<open>\<^verbatim>\<open>for (int i = 0; i < 4; i++) { uart_print_hex(p[i]); uart_putchar(' '); }\<close>\<close>

definition print_hex4 :: "u64 \<Rightarrow> 'a machine_scheme \<Rightarrow> 'a machine_scheme option" where
  "print_hex4 p w = put_all (\<lambda>b w. do { w \<leftarrow> uart_print_hex (ucast b) w; uart_putchar (ch CHR '' '') w })
     (map (\<lambda>i. ram w (p + of_nat i)) [0..<4]) w"

definition test_basic_functions :: "image \<Rightarrow> 'a machine_scheme \<Rightarrow> 'a machine_scheme option" where
  "test_basic_functions img w = do {
     w \<leftarrow> uart_puts (lit (''=== Basic Function Tests ==='' @ crnl)) w;
     w \<leftarrow> uart_puts (lit (''Testing string functions:'' @ crnl)) w;
     let w = w\<lparr>ram := put_str (test_str_at img) (str ''Hello, RISC-V!'') (ram w)\<rparr>;
     w \<leftarrow> uart_puts (lit ''  String: '') w;
     w \<leftarrow> uart_puts (ram_ptr (ram w) (test_str_at img)) w;
     w \<leftarrow> uart_puts (lit (crnl @ ''  Length: '')) w;
     len \<leftarrow> strlen (ram_ptr (ram w) (test_str_at img));
     w \<leftarrow> print_size len w;
     w \<leftarrow> uart_puts (lit crnl) w;
     (_, m) \<leftarrow> strcpy_local (buffer_at img) (lit ''Copy test: '') (ram w);
     (_, m) \<leftarrow> strcat_local (buffer_at img) (lit ''OK'') m;
     let w = w\<lparr>ram := m\<rparr>;
     w \<leftarrow> uart_puts (lit ''  '') w;
     w \<leftarrow> uart_puts (ram_ptr (ram w) (buffer_at img)) w;
     w \<leftarrow> uart_puts (lit crnl) w;
     w \<leftarrow> uart_puts (lit (''Testing memory functions:'' @ crnl)) w;
     let w = w\<lparr>ram := snd (memset (mem_test_at img) 0xAA 16 (ram w))\<rparr>;
     w \<leftarrow> uart_puts (lit ''  memset test: '') w;
     w \<leftarrow> print_hex4 (mem_test_at img) w;
     w \<leftarrow> uart_puts (lit (''...'' @ crnl)) w;
     let w = w\<lparr>ram := put_bytes (mem_src_at img) [0x01, 0x02, 0x03, 0x04] (ram w)\<rparr>;
     let w = w\<lparr>ram := snd (memcpy (mem_dst_at img) (mem_src_at img) 4 (ram w))\<rparr>;
     w \<leftarrow> uart_puts (lit ''  memcpy test: '') w;
     w \<leftarrow> print_hex4 (mem_dst_at img) w;
     w \<leftarrow> uart_puts (lit crnl) w;
     uart_puts (lit (''Basic function tests completed.'' @ crnl)) w }"

section \<open>The breakpoint\<close>

text \<open>
  What the hart does to \<^verbatim>\<open>sstatus\<close> when it takes a trap from supervisor mode, and at \<^verbatim>\<open>sret\<close>:
  bit 1 is \<^verbatim>\<open>SIE\<close>, bit 5 \<^verbatim>\<open>SPIE\<close>, bit 8 \<^verbatim>\<open>SPP\<close>.
\<close>

definition trap_sstatus :: "u64 \<Rightarrow> u64" where
  "trap_sstatus s = set_bit 8 (unset_bit 1 (if bit s 1 then set_bit 5 s else unset_bit 5 s))"

definition sret_sstatus :: "u64 \<Rightarrow> u64" where
  "sret_sstatus s = unset_bit 8 (set_bit 5 (if bit s 5 then set_bit 1 s else unset_bit 1 s))"

text \<open>
  \<^verbatim>\<open>asm volatile ("ebreak")\<close>.  A handler that does not step over the instruction takes the same trap
  again, for ever.
\<close>

definition ebreak :: "image \<Rightarrow> 'a trap_machine_scheme \<Rightarrow> (unit run \<times> 'a trap_machine_scheme) option" where
  "ebreak img w = do {
     let w = WRITE_SSTATUS (trap_sstatus (READ_SSTATUS w)) w;
     (r, w) \<leftarrow> trap_handler (ebreak_slot img) (ebreak_left img)
       ((ebreak_cpu img)\<lparr>csr_sepc := ebreak_at img, csr_scause := CAUSE_BREAKPOINT\<rparr>) w;
     case r of
       Halted \<Rightarrow> Some (Stopped, w)
     | Returned cpu \<Rightarrow>
         if csr_sepc cpu = ebreak_at img + 4 then Some (Done (), WRITE_SSTATUS (sret_sstatus (READ_SSTATUS w)) w)
         else None }"

definition test_exception_handling :: "image \<Rightarrow> 'a trap_machine_scheme \<Rightarrow> (unit run \<times> 'a trap_machine_scheme) option" where
  "test_exception_handling img w = do {
     w \<leftarrow> uart_puts (lit (''=== Exception Handling Test ==='' @ crnl)) w;
     w \<leftarrow> uart_puts (lit (''Note: These tests may cause system halt.'' @ crnl)) w;
     w \<leftarrow> uart_puts (lit (''Testing breakpoint exception...'' @ crnl)) w;
     (r, w) \<leftarrow> ebreak img w;
     case r of
       Done _ \<Rightarrow> do {
         w \<leftarrow> uart_puts (lit (''Exception handling test completed.'' @ crnl)) w;
         Some (Done (), w) }
     | Stopped \<Rightarrow> Some (Stopped, w)
     | Restarted \<Rightarrow> Some (Restarted, w) }"

section \<open>What they print\<close>

definition flt_a :: fp where "flt_a = fp_round 24 314159 (10 ^ 5)"
definition flt_b :: fp where "flt_b = fp_round 24 271828 (10 ^ 5)"
definition dbl_x :: fp where "dbl_x = fp_round 53 14142135623730951 (10 ^ 16)"
definition dbl_y :: fp where "dbl_y = fp_round 53 17320508075688772 (10 ^ 16)"

lemma literals:
  "flt_a = \<lparr>mant = 0xC90FD0, frac = 22\<rparr>" "flt_b = \<lparr>mant = 0xADF84D, frac = 22\<rparr>"
  "dbl_x = \<lparr>mant = 0x16A09E667F3BCD, frac = 52\<rparr>" "dbl_y = \<lparr>mant = 0x1BB67AE8584CAA, frac = 52\<rparr>"
  by (simp_all add: flt_a_def flt_b_def dbl_x_def dbl_y_def fp_round_def fp_frac.simps)

lemma results:
  "fp_add 24 flt_a flt_b = \<lparr>mant = 0xBB840E, frac = 21\<rparr>"
  "fp_int (fp_mul 24 flt_a flt_b) = 8" "fp_int (fp_mul 53 dbl_x dbl_y) = 2"
  by (simp_all add: literals fp_add_def fp_mul_def fp_int_def fp_round_def fp_frac.simps)

lemma comparisons: "fp_gt (fp_add 24 flt_a flt_b) flt_a" "fp_gt (fp_add 24 flt_a flt_b) flt_b" "fp_int (fp_add 24 flt_a flt_b) = 5"
  unfolding results by (simp_all add: literals fp_gt_def fp_int_def)

definition fp_text :: "u8 list" where
  "fp_text = msg (''=== Floating Point Unit Test ==='' @ crnl) @ msg (''Single precision test:'' @ crnl) @
     msg ''  a + b = '' @ str ''5'' @ msg (''.'' @ crnl) @ msg ''  a * b = '' @ str ''8'' @ msg (''.'' @ crnl) @
     msg (''Double precision test:'' @ crnl) @ msg ''  sqrt(2) * sqrt(3) = '' @ str ''2'' @ msg (''.'' @ crnl) @
     msg (''  Comparison: c > a and c > b - PASS'' @ crnl) @ msg (''Floating point test completed.'' @ crnl)"

lemma prints_digit: "n < 10 \<Longrightarrow> prints (uart_print_dec (int n)) (\<lambda>t. [digit_char n])"
proof -
  assume n: "n < 10"
  have "dec_text t (int n) = [digit_char n]" for t
  proof (cases "n = 0")
    case True
    then show ?thesis by (simp add: dec_text_def show_int_def show_nat_def digit_char_def)
  next
    case False
    then show ?thesis
      using n by (simp add: dec_text_def show_int_def show_nat_def digits_of_pos)
  qed
  then show "prints (uart_print_dec (int n)) (\<lambda>t. [digit_char n])" using prints_dec [of "int n"] n by simp
qed

lemmas prints_digits = prints_digit [of 5, simplified] prints_digit [of 8, simplified] prints_digit [of 2, simplified]

lemma prints_floating_point: "prints test_floating_point (\<lambda>t. fp_text)"
proof -
  have digits: "[digit_char 5] = str ''5''" "[digit_char 8] = str ''8''" "[digit_char 2] = str ''2''"
    by (simp_all add: digit_char_def)
  show ?thesis
    unfolding test_floating_point_def [abs_def] Let_def flt_a_def [symmetric] flt_b_def [symmetric] dbl_x_def [symmetric]
      dbl_y_def [symmetric] comparisons(3) results(2,3) fp_text_def
    by (simp only: comparisons simp_thms if_True)
      (intro prints_bind prints_lit prints_digits [unfolded digits]; simp add: crnl_def)
qed

text \<open>Functions that read memory, started with the memory \<open>m\<close>.\<close>

lemma runs_puts:
  "is_cstr (ram_ptr m p) s \<Longrightarrow> runs (\<lambda>w. uart_puts (ram_ptr (ram w) p) w) h m h m (\<lambda>t. concat (map crlf s))"
  unfolding runs_def by (auto elim!: outputsE [OF uart_puts_outputs])

lemma runs_ram: "runs g h (u m) h' m' bs \<Longrightarrow> runs (\<lambda>w. let w = w\<lparr>ram := u (ram w)\<rparr> in g w) h m h' m' bs"
  unfolding runs_def Let_def
proof (intro allI impI)
  fix w :: "'a heap_machine_scheme"
  assume g: "\<forall>w. uart_live w \<longrightarrow> heap w = h \<longrightarrow> ram w = u m \<longrightarrow> (\<exists>w'. g w = Some w' \<and> uart_io 0 (bs (uart_ty w)) (w\<lparr>heap := h', ram := m'\<rparr>) w')"
    and w: "uart_live w" "heap w = h" "ram w = m"
  show "\<exists>w'. g (w\<lparr>ram := u (ram w)\<rparr>) = Some w' \<and> uart_io 0 (bs (uart_ty w)) (w\<lparr>heap := h', ram := m'\<rparr>) w'"
    using spec [OF g, of "w\<lparr>ram := u (ram w)\<rparr>"] w by simp
qed

lemma runs_value: "F m = Some x \<Longrightarrow> runs (g x) h m h' m' bs \<Longrightarrow> runs (\<lambda>w. F (ram w) \<bind> (\<lambda>x. g x w)) h m h' m' bs"
  unfolding runs_def by auto

definition char_text :: "uart_type \<Rightarrow> u8 \<Rightarrow> u8 list" where
  "char_text t c = (case t of UART_TYPE_DW \<Rightarrow> crlf c | UART_TYPE_PL011 \<Rightarrow> [c])"

lemma prints_putchar: "prints (uart_putchar c) (\<lambda>t. char_text t c)"
  using uart.putc_io unfolding prints_def outputs_def uart_enc_def char_text_def by blast

lemma prints_put_all:
  assumes "\<And>b. prints (body b) (bs b)"
  shows "prints (put_all body xs) (\<lambda>t. concat (map (\<lambda>b. bs b t) xs))"
proof (induction xs)
  case (Cons x xs)
  have "put_all body (x # xs) = (\<lambda>w. body x w \<bind> put_all body xs)" by (rule ext) simp
  then show ?case using prints_bind [OF assms Cons.IH] by simp
qed (simp add: prints_Some)

definition hex4_text :: "ram \<Rightarrow> u64 \<Rightarrow> uart_type \<Rightarrow> u8 list" where
  "hex4_text m p t = concat (map (\<lambda>b. hex_prefix t @ hex16 (ucast b) @ [32]) (map (\<lambda>i. m (p + of_nat i)) [0..<4]))"

lemma runs_hex4: "runs (print_hex4 p) h m h m (hex4_text m p)"
proof -
  have "prints (\<lambda>w. uart_print_hex (ucast b) w \<bind> uart_putchar 32) (\<lambda>t. (hex_prefix t @ hex16 (ucast b)) @ char_text t 32)" for b :: u8
    by (intro prints_bind prints_hex prints_putchar)
  moreover have "char_text t 32 = [32]" for t by (simp add: char_text_def crlf_def split: uart_type.split)
  ultimately have "prints (\<lambda>w. uart_print_hex (ucast b) w \<bind> uart_putchar 32) (\<lambda>t. hex_prefix t @ hex16 (ucast b) @ [32])" for b :: u8
    by simp
  from prints_put_all [of "\<lambda>b w. uart_print_hex (ucast b) w \<bind> uart_putchar 32", OF this, of "map (\<lambda>i. m (p + of_nat i)) [0..<4]"]
  show ?thesis unfolding runs_def print_hex4_def hex4_text_def by (auto elim!: printsE simp del: upt.simps)
qed

section \<open>The effect of the tests\<close>

definition syscalls_text :: "uart_type \<Rightarrow> u8 list" where
  "syscalls_text t = msg (''=== System Call Tests ==='' @ crnl) @ msg ''Testing sys_putchar: '' @ str ''Hello'' @ [13] @
     char_text t 10 @ msg ''Testing sys_puts: '' @ msg (''World!'' @ crnl) @ msg (''System call tests completed.'' @ crnl)"

lemma prints_sys_putchar: "c \<noteq> 10 \<Longrightarrow> prints (call (sys_putchar (ucast c))) (\<lambda>t. [c])" for c :: u8
proof -
  assume c: "c \<noteq> 10"
  have "call (sys_putchar (ucast c)) = (uart_putchar c :: 'a machine_scheme \<Rightarrow> _)"
  proof
    fix w :: "'a machine_scheme"
    have "(ucast (ucast c :: u64) :: u8) = c" by (rule bit_word_eqI) (simp add: bit_simps)
    then show "call (sys_putchar (ucast c)) w = uart_putchar c w"
      by (cases "uart_putchar c w") (simp_all add: call_def sys_putchar_def)
  qed
  moreover have "char_text t c = [c]" for t using c by (simp add: char_text_def crlf_def split: uart_type.split)
  ultimately show "prints (call (sys_putchar (ucast c)) :: 'a machine_scheme \<Rightarrow> _) (\<lambda>t. [c])"
    using prints_putchar [of c] by simp
qed

lemma runs_sys_puts:
  assumes "is_cstr (ram_ptr m p) s"
  shows "runs (call (sys_puts p)) h m h m (\<lambda>t. concat (map crlf s))"
  unfolding runs_def
proof (intro allI impI)
  fix w :: "'a heap_machine_scheme" assume w: "uart_live w" "heap w = h" "ram w = m"
  obtain w' where "uart_puts (ram_ptr (ram w) p) w = Some w'" "uart_io 0 (concat (map crlf s)) w w'"
    using uart_puts_outputs [OF w(1), of "ram_ptr (ram w) p" s] assms w(3) by (auto elim: outputsE)
  then show "\<exists>w'. call (sys_puts p) w = Some w' \<and> uart_io 0 (concat (map crlf s)) (w\<lparr>heap := h, ram := m\<rparr>) w'"
    using w strlen_cstr [OF assms] by (auto simp: call_def sys_puts_def)
qed

lemma runs_lit_msg: "0 \<notin> set (str s) \<Longrightarrow> length s < 2 ^ 64 \<Longrightarrow> runs (uart_puts (lit s)) h m h m (\<lambda>t. msg s)"
  by (rule runs_print [OF prints_lit])

lemmas runs_putchar = runs_print [OF prints_putchar]
  and runs_sys_putchar = runs_print [OF prints_sys_putchar]

lemma test_syscalls_runs:
  assumes world: "is_cstr (ram_ptr m (world_at img)) (str (''World!'' @ crnl))"
  shows "runs (test_syscalls img) h m h m syscalls_text"
proof -
  have eq: "syscalls_text = (\<lambda>t. msg (''=== System Call Tests ==='' @ crnl) @ msg ''Testing sys_putchar: '' @
     [ch CHR ''H''] @ [ch CHR ''e''] @ [ch CHR ''l''] @ [ch CHR ''l''] @ [ch CHR ''o''] @ char_text t (ch CHR 0x0D) @
     char_text t (ch CHR 0x0A) @ msg ''Testing sys_puts: '' @ msg (''World!'' @ crnl) @
     msg (''System call tests completed.'' @ crnl))"
    by (rule ext) (simp add: syscalls_text_def char_text_def crlf_def split: uart_type.split)
  show ?thesis
    unfolding test_syscalls_def [abs_def] eq
    by (rule runs_bind runs_lit_msg runs_putchar runs_sys_putchar runs_sys_puts [OF world, folded msg_def] |
        simp add: crnl_def; fail)+
qed

text \<open>A string continued at its end.\<close>

lemma put_str_append:
  assumes "length s + length t < 2 ^ 64"
  shows "put_str (p + of_nat (length s)) t (put_str p s m) = put_str p (s @ t) m"
proof
  fix a
  define i where "i = unat (a - p)"
  have a: "a = p + of_nat i" by (simp add: i_def)
  show "put_str (p + of_nat (length s)) t (put_str p s m) a = put_str p (s @ t) m a"
  proof (cases "length s \<le> i")
    case True
    then have "unat (a - (p + of_nat (length s))) = i - length s"
      using unat_sub [of "of_nat (length s)" "a - p"] assms
      by (simp add: word_le_nat_alt unat_of_nat_64 i_def diff_diff_eq)
    then show ?thesis using True by (auto simp: put_str_def i_def [symmetric] nth_append)
  next
    case False
    then have "\<not> of_nat (length s) \<le> a - p" using assms by (simp add: word_le_nat_alt unat_of_nat_64 i_def)
    then have "unat (a - p - of_nat (length s)) = i + 2 ^ 64 - length s"
      using unat_sub_if' [of "a - p" "of_nat (length s)"] assms by (simp add: word_le_nat_alt unat_of_nat_64 i_def)
    then have "\<not> unat (a - (p + of_nat (length s))) \<le> length t" using assms False by (simp add: diff_diff_eq)
    then show ?thesis using False by (simp add: put_str_def i_def [symmetric] nth_append)
  qed
qed

section \<open>Strings and memory: the effect\<close>

text \<open>Memory after the test, and what it prints.\<close>

definition basic_ram :: "image \<Rightarrow> ram \<Rightarrow> ram" where
  "basic_ram img m =
     (let m = put_str (test_str_at img) (str ''Hello, RISC-V!'') m;
          m = put_str (buffer_at img) (str ''Copy test: OK'') m;
          m = (\<lambda>a. if a - mem_test_at img < 16 then 0xAA else m a);
          m = put_bytes (mem_src_at img) [1, 2, 3, 4] m
      in put_bytes (mem_dst_at img) [1, 2, 3, 4] m)"

definition bytes_text :: "u8 list \<Rightarrow> uart_type \<Rightarrow> u8 list" where
  "bytes_text bs t = concat (map (\<lambda>b. hex_prefix t @ hex16 (ucast b) @ [32]) bs)"

definition basic_text :: "uart_type \<Rightarrow> u8 list" where
  "basic_text t = msg (''=== Basic Function Tests ==='' @ crnl) @ msg (''Testing string functions:'' @ crnl) @
     msg ''  String: '' @ msg ''Hello, RISC-V!'' @ msg (crnl @ ''  Length: '') @ dec_text t (sint (14 :: u64)) @ msg crnl @
     msg ''  '' @ msg ''Copy test: OK'' @ msg crnl @ msg (''Testing memory functions:'' @ crnl) @
     msg ''  memset test: '' @ bytes_text (replicate 4 0xAA) t @ msg (''...'' @ crnl) @
     msg ''  memcpy test: '' @ bytes_text [1, 2, 3, 4] t @ msg crnl @ msg (''Basic function tests completed.'' @ crnl)"

lemma put_bytes_nth: "i < length bs \<Longrightarrow> length bs < 2 ^ 64 \<Longrightarrow> put_bytes p bs m (p + of_nat i) = bs ! i"
  by (simp add: put_bytes_def unat_of_nat_64)

lemma memcpy_put_bytes:
  assumes "of_nat (length bs) \<le> dst - src" and "length bs < 2 ^ 64"
  shows "snd (memcpy dst src (of_nat (length bs)) (put_bytes src bs m)) = put_bytes dst bs (put_bytes src bs m)"
proof -
  have "put_bytes src bs m (src + (a - dst)) = bs ! unat (a - dst)" if "a - dst < of_nat (length bs)" for a
    using that put_bytes_nth [of "unat (a - dst)" bs src m] assms(2) by (simp add: word_less_nat_alt unat_of_nat_64)
  then show ?thesis
    using assms memcpy_moved [of dst src "of_nat (length bs)"]
    by (auto simp: moved_def put_bytes_def fun_eq_iff word_less_nat_alt unat_of_nat_64)
qed

lemma runs_hex4_bytes: "(\<And>i. i < 4 \<Longrightarrow> m (p + of_nat i) = bs ! i) \<Longrightarrow> length bs = 4 \<Longrightarrow> runs (print_hex4 p) h m h m (bytes_text bs)"
proof -
  assume m: "\<And>i. i < 4 \<Longrightarrow> m (p + of_nat i) = bs ! i" and l: "length bs = 4"
  have "map (\<lambda>i. m (p + of_nat i)) [0..<4] = bs" by (rule nth_equalityI) (use m l in auto)
  then have "hex4_text m p = bytes_text bs" by (simp add: hex4_text_def bytes_text_def fun_eq_iff del: upt.simps)
  then show "runs (print_hex4 p) h m h m (bytes_text bs)" using runs_hex4 [of p h m] by simp
qed

lemma runs_cpy_cat:
  assumes "0 \<notin> set (str s)" and "0 \<notin> set (str t)" and "length s + length t < 2 ^ 64"
    and "runs g h (put_str p (str (s @ t)) m) h' m' bs"
  shows "runs (\<lambda>w. strcpy_local p (lit s) (ram w) \<bind> (\<lambda>(_, m). strcat_local p (lit t) m \<bind>
    (\<lambda>(_, m). let w = w\<lparr>ram := m\<rparr> in g w))) h m h' m' bs"
proof -
  have cpy: "strcpy_local p (lit s) k = Some (p, put_str p (str s) k)" for k
    using assms by (intro strcpy_local_cstr is_cstr_lit) simp_all
  have "is_cstr (ram_ptr (put_str p (str s) k) p) (str s)" for k using assms by (intro put_str_cstr) simp_all
  then have "strcat_local p (lit t) (put_str p (str s) k) = Some (p, put_str (p + of_nat (length (str s))) (str t) (put_str p (str s) k))" for k
    using assms by (intro strcat_local_cstr is_cstr_lit) simp_all
  then have cat: "strcat_local p (lit t) (put_str p (str s) k) = Some (p, put_str p (str (s @ t)) k)" for k
    using put_str_append [of "str s" "str t" p k] assms(3) by simp
  from runs_ram [where u = "put_str p (str (s @ t))", OF assms(4)]
  show ?thesis unfolding cpy by (simp add: cat)
qed

lemma test_basic_runs:
  assumes "4 \<le> mem_dst_at img - mem_src_at img"
  shows "runs (test_basic_functions img) h m h (basic_ram img m) basic_text"
proof -
  let ?m1 = "put_str (test_str_at img) (str ''Hello, RISC-V!'') m"
  let ?m2 = "put_str (buffer_at img) (str (''Copy test: '' @ ''OK'')) ?m1"
  let ?m3 = "snd (memset (mem_test_at img) 0xAA 16 ?m2)"
  let ?m4 = "put_bytes (mem_src_at img) [1, 2, 3, 4] ?m3"
  have m5: "snd (memcpy (mem_dst_at img) (mem_src_at img) 4 ?m4) = basic_ram img m"
    using memcpy_put_bytes [of "[1, 2, 3, 4]" "mem_dst_at img" "mem_src_at img" ?m3] assms
    by (simp add: basic_ram_def Let_def memset_def memset_loop_eq del: str_simps)
  have c1: "is_cstr (ram_ptr ?m1 (test_str_at img)) (str ''Hello, RISC-V!'')" by (rule put_str_cstr) simp_all
  have c2: "is_cstr (ram_ptr ?m2 (buffer_at img)) (str ''Copy test: OK'')" using put_str_cstr [of "str ''Copy test: OK''" "buffer_at img" ?m1] by simp
  have len: "strlen (ram_ptr ?m1 (test_str_at img)) = Some 14" using strlen_cstr [OF c1] by simp
  have b3: "runs (print_hex4 (mem_test_at img)) h ?m3 h ?m3 (bytes_text (replicate 4 0xAA))"
    by (rule runs_hex4_bytes) (auto simp: memset_def memset_loop_eq word_less_nat_alt unat_of_nat_64)
  have b5: "runs (print_hex4 (mem_dst_at img)) h (basic_ram img m) h (basic_ram img m) (bytes_text [1, 2, 3, 4])"
    by (rule runs_hex4_bytes) (simp_all add: basic_ram_def Let_def put_bytes_nth)
  show ?thesis
    unfolding test_basic_functions_def [abs_def] basic_text_def [abs_def] m5 [symmetric]
    by (rule runs_bind runs_lit_msg runs_ram [where u = "put_str (test_str_at img) (str ''Hello, RISC-V!'')"]
        runs_puts [OF c1, folded msg_def] runs_value [where F = "\<lambda>m. strlen (ram_ptr m (test_str_at img))", OF len]
        runs_print [OF prints_size] runs_cpy_cat runs_puts [OF c2, folded msg_def]
        runs_ram [where u = "\<lambda>m. snd (memset (mem_test_at img) 0xAA 16 m)"] b3
        runs_ram [where u = "put_bytes (mem_src_at img) [1, 2, 3, 4]"]
        runs_ram [where u = "\<lambda>m. snd (memcpy (mem_dst_at img) (mem_src_at img) 4 m)"] b5 [folded m5] |
        simp add: crnl_def; fail)+
qed

text \<open>Outside the arrays nothing changes.\<close>

definition in_arrays :: "image \<Rightarrow> u64 \<Rightarrow> bool" where
  "in_arrays img a \<longleftrightarrow> unat (a - test_str_at img) < 15 \<or> unat (a - buffer_at img) < 14 \<or> unat (a - mem_test_at img) < 16 \<or>
     unat (a - mem_src_at img) < 4 \<or> unat (a - mem_dst_at img) < 4"

lemma basic_ram_same: "\<not> in_arrays img a \<Longrightarrow> basic_ram img m a = m a"
  by (simp add: in_arrays_def basic_ram_def Let_def put_bytes_def put_str_def word_less_nat_alt)

section \<open>The breakpoint: the effect\<close>

definition breakpoint_state :: "'a trap_machine_scheme \<Rightarrow> 'a trap_machine_scheme" where
  "breakpoint_state w = w\<lparr>csr_sstatus := sret_sstatus (trap_sstatus (csr_sstatus w)), trap_count := trap_count w + 1\<rparr>"

definition breakpoint_text :: "image \<Rightarrow> u64 \<Rightarrow> u8 list" where
  "breakpoint_text img c = count_text c @ log_line LOG_LEVEL_INFO (str (''=== BREAKPOINT HIT ==='' @ nl)) @
     hex_line LOG_LEVEL_INFO ''Breakpoint reached at PC: 0x'' (ebreak_at img) nl @
     log_line LOG_LEVEL_INFO (str (''Continuing execution...'' @ nl))"

definition breakpoint_ok :: "'a trap_machine_scheme \<Rightarrow> bool" where
  "breakpoint_ok w \<longleftrightarrow> kernel_ok w \<and> handler_of w CAUSE_BREAKPOINT = EbreakHandler"

lemma kernel_ok_sstatus [simp]: "kernel_ok (WRITE_SSTATUS s w) = kernel_ok w"
proof -
  have "uart_live (WRITE_SSTATUS s w) = uart_live w" by (rule uart_live_cong) (simp_all add: WRITE_SSTATUS_def)
  then show ?thesis by (simp add: kernel_ok_def clock_at_def tables_wf_def) (simp add: WRITE_SSTATUS_def)
qed

lemma handler_of_sstatus [simp]: "handler_of (WRITE_SSTATUS s w) c = handler_of w c"
  by (simp add: handler_of_def Let_def exception_entry_def interrupt_entry_def WRITE_SSTATUS_def)

lemma neutral_sstatus: "neutral (WRITE_SSTATUS s)"
  by (rule neutralI) (simp_all add: WRITE_SSTATUS_def)

lemma ebreak_returns:
  assumes "breakpoint_ok w"
  shows "\<exists>w'. ebreak img w = Some (Done (), w') \<and>
    uart_io 0 (breakpoint_text img (trap_count w + 1)) (breakpoint_state w) w'"
proof -
  let ?v = "WRITE_SSTATUS (trap_sstatus (csr_sstatus w)) w"
  let ?cpu = "(ebreak_cpu img)\<lparr>csr_sepc := ebreak_at img, csr_scause := 3\<rparr>"
  let ?f = "save_registers (ebreak_slot img) ?cpu ?v"
  have v: "kernel_ok ?v" "handler_of ?v 3 = EbreakHandler" using assms by (simp_all add: breakpoint_ok_def cause_defs)
  then obtain n where n: "clock_at n ?v" unfolding kernel_ok_def by blast
  have f: "ebreak_text ?f = log_line LOG_LEVEL_INFO (str (''=== BREAKPOINT HIT ==='' @ nl)) @
     hex_line LOG_LEVEL_INFO ''Breakpoint reached at PC: 0x'' (ebreak_at img) nl @
     log_line LOG_LEVEL_INFO (str (''Continuing execution...'' @ nl))" by (simp add: ebreak_text_def save_registers_fields)
  have state: "handler_state n EbreakHandler ?f (?v\<lparr>trap_count := trap_count ?v + 1\<rparr>) = ?v\<lparr>trap_count := trap_count w + 1\<rparr>"
    by (simp add: handler_state_def ticks_clock_def WRITE_SSTATUS_def)
  obtain w1 where w1: "trap_handler (ebreak_slot img) (ebreak_left img) ?cpu ?v =
      Some (Returned (restore_registers (?f\<lparr>sepc := sepc ?f + 4\<rparr>) (ebreak_left img)), w1)"
    and io: "uart_io 0 (breakpoint_text img (trap_count w + 1)) (?v\<lparr>trap_count := trap_count w + 1\<rparr>) w1"
    using trap_handler_exception [OF v(1) n, of ?cpu "ebreak_slot img" "ebreak_left img"] v(2) state f
    by (auto simp: breakpoint_text_def handler_text_def WRITE_SSTATUS_def)
  have s: "csr_sstatus w1 = trap_sstatus (csr_sstatus w)" using uart_io_frame [OF io] by (simp add: WRITE_SSTATUS_def)
  let ?w' = "WRITE_SSTATUS (sret_sstatus (csr_sstatus w1)) w1"
  have "ebreak img w = Some (Done (), ?w')"
    using w1 by (simp add: ebreak_def cause_defs READ_SSTATUS_def restore_registers_def save_registers_fields)
  moreover have "WRITE_SSTATUS (sret_sstatus (csr_sstatus w1)) (?v\<lparr>trap_count := trap_count w + 1\<rparr>) = breakpoint_state w"
    by (simp add: s breakpoint_state_def WRITE_SSTATUS_def)
  ultimately show ?thesis using neutral_io [OF neutral_sstatus io, of "sret_sstatus (csr_sstatus w1)"] by auto
qed

lemma handler_of_io: "uart_io k bs w w' \<Longrightarrow> handler_of w' c = handler_of w c"
  by (simp add: handler_of_def Let_def exception_entry_def interrupt_entry_def trap_tables_io)

lemma breakpoint_ok_io: "breakpoint_ok w \<Longrightarrow> uart_io k bs w w' \<Longrightarrow> breakpoint_ok w'"
  using kernel_ok_io [of w k bs w'] handler_of_io [of k bs w w'] by (simp add: breakpoint_ok_def)

lemma neutral_breakpoint: "neutral breakpoint_state"
  by (rule neutralI) (simp_all add: breakpoint_state_def)

definition exception_text :: "image \<Rightarrow> u64 \<Rightarrow> u8 list" where
  "exception_text img c = (msg (''=== Exception Handling Test ==='' @ crnl) @
     msg (''Note: These tests may cause system halt.'' @ crnl) @ msg (''Testing breakpoint exception...'' @ crnl)) @
     breakpoint_text img c @ msg (''Exception handling test completed.'' @ crnl)"

lemma test_exception_returns:
  assumes "breakpoint_ok w"
  shows "\<exists>w'. test_exception_handling img w = Some (Done (), w') \<and>
    uart_io 0 (exception_text img (trap_count w + 1)) (breakpoint_state w) w'"
proof -
  let ?p = "\<lambda>s. uart_puts (lit (s @ crnl))"
  have live: "uart_live w" using assms by (simp add: breakpoint_ok_def kernel_ok_def)
  have "prints (\<lambda>w. ?p ''=== Exception Handling Test ==='' w \<bind> (\<lambda>w. ?p ''Note: These tests may cause system halt.'' w \<bind>
      ?p ''Testing breakpoint exception...'')) (\<lambda>t. msg (''=== Exception Handling Test ==='' @ crnl) @
     msg (''Note: These tests may cause system halt.'' @ crnl) @ msg (''Testing breakpoint exception...'' @ crnl))"
    by (intro prints_bind prints_lit) (simp_all add: crnl_def)
  then obtain w1 where w1: "?p ''=== Exception Handling Test ==='' w \<bind> (\<lambda>w. ?p ''Note: These tests may cause system halt.'' w \<bind>
      ?p ''Testing breakpoint exception...'') = Some w1"
    and io1: "uart_io 0 (msg (''=== Exception Handling Test ==='' @ crnl) @ msg (''Note: These tests may cause system halt.'' @ crnl) @
      msg (''Testing breakpoint exception...'' @ crnl)) w w1"
    using live by (rule printsE)
  obtain w2 where w2: "ebreak img w1 = Some (Done (), w2)"
      "uart_io 0 (breakpoint_text img (trap_count w + 1)) (breakpoint_state w1) w2"
    using ebreak_returns [OF breakpoint_ok_io [OF assms io1], of img] trap_tables_io(4) [OF io1] by auto
  have last: "prints (?p ''Exception handling test completed.'') (\<lambda>t. msg (''Exception handling test completed.'' @ crnl))"
    by (rule prints_lit) (simp_all add: crnl_def)
  have "uart_live w2"
    using uart_live_io [OF _ w2(2)] uart_live_io [OF live io1] neutral_live [OF neutral_breakpoint, of w1] by simp
  with last obtain w3 where w3: "?p ''Exception handling test completed.'' w2 = Some w3"
      "uart_io 0 (msg (''Exception handling test completed.'' @ crnl)) w2 w3"
    by (rule printsE)
  have "uart_io 0 (exception_text img (trap_count w + 1)) (breakpoint_state w) w3"
    unfolding exception_text_def
    by (rule then_io [OF neutral_id neutral_breakpoint io1 uart_io_trans [OF w2(2) w3(2), unfolded add_0]])
  moreover have "test_exception_handling img w = Some w1 \<bind> (\<lambda>w. ebreak img w \<bind> (\<lambda>(r, w). case r of
       Done _ \<Rightarrow> ?p ''Exception handling test completed.'' w \<bind> (\<lambda>w. Some (Done (), w))
     | Stopped \<Rightarrow> Some (Stopped, w) | Restarted \<Rightarrow> Some (Restarted, w)))"
    unfolding w1 [symmetric] test_exception_handling_def by (simp only: bind_assoc_option)
  then have "test_exception_handling img w = Some (Done (), w3)" using w2(1) w3(1) by simp
  ultimately show ?thesis by blast
qed

end
