(* ===== verification/Gateway.thy ===== *)
theory Gateway
  imports TrapFrame SelfTest
begin

text \<open>
  The system-call gateway of \<^verbatim>\<open>src/exception/exception.S\<close>, which a user program jumps to: the table of 256 entries at a
  fixed address, and the stub \<open>handle_syscall_direct\<close> behind it, instruction by instruction, as a call that returns to the
  program.
\<close>

section \<open>The table\<close>

text \<open>The section starts 16 KB behind the load address, where \<^verbatim>\<open>cfg.h\<close> has the programs' entry.\<close>

definition SYS_ENTER_ADDR :: u64 where
  "SYS_ENTER_ADDR = 0x80204000"

definition syscall_gateway_start :: u64 where
  "syscall_gateway_start = LOAD_ADDR + 0x4000"

datatype gateway_instr = J_handle_syscall_direct | Nop

definition syscall_gateway :: "gateway_instr list" where
  "syscall_gateway = concat (replicate 256 [J_handle_syscall_direct, Nop])"

text \<open>The stub is the code right behind the table.\<close>

definition handle_syscall_direct_at :: u64 where
  "handle_syscall_direct_at = syscall_gateway_start + 4 * of_nat (length syscall_gateway)"

definition gateway_step :: "u64 \<Rightarrow> u64 option" where
  "gateway_step pc = (let k = unat (pc - syscall_gateway_start) in
     if k mod 4 = 0 \<and> k div 4 < length syscall_gateway
     then Some (case syscall_gateway ! (k div 4) of J_handle_syscall_direct \<Rightarrow> handle_syscall_direct_at | Nop \<Rightarrow> pc + 4)
     else None)"

partial_function (option) gateway_run :: "u64 \<Rightarrow> u64 option" where
  "gateway_run pc = (if pc = handle_syscall_direct_at then Some pc else gateway_step pc \<bind> gateway_run)"

definition gateway_entry :: "nat \<Rightarrow> u64" where
  "gateway_entry i = SYS_ENTER_ADDR + 8 * of_nat i"

section \<open>The stub\<close>

definition stub_enter :: "instr list" where
  "stub_enter = [Addi 2 2 (- 16), Sd 1 0 2]"

definition stub_leave :: "instr list" where
  "stub_leave = [Ld 1 0 2, Addi 2 2 16]"

text \<open>
  What the C function leaves in the registers: its result in \<open>a0\<close>; the stack, global and thread pointers and the callee-saved
  registers as they were; the others, its return address among them, in some state \<open>left\<close>.
\<close>

definition callee_saved :: "nat set" where
  "callee_saved = {8, 9} \<union> {18..27}"

definition regs_after :: "cpu_t \<Rightarrow> cpu_t \<Rightarrow> u64 \<Rightarrow> cpu_t" where
  "regs_after left c v = left\<lparr>
     gpr := map (\<lambda>k. if k = 10 then v else if k \<in> {0, 2, 3, 4} \<union> callee_saved then gpr c ! k else gpr left ! k) [0..<32],
     fpr := map (\<lambda>k. if k \<in> callee_saved then fpr c ! k else fpr left ! k) [0..<32]\<rparr>"

text \<open>The call from a jump to \<open>pc\<close> to the stub's \<^verbatim>\<open>ret\<close>, which gives the address the program continues at.\<close>

definition gateway_call :: "u64 \<Rightarrow> cpu_t \<Rightarrow> cpu_t \<Rightarrow> 'a machine_scheme \<Rightarrow> ((u64 \<times> cpu_t) outcome \<times> 'a machine_scheme) option" where
  "gateway_call pc left cpu w = do {
     _ \<leftarrow> gateway_run pc;
     let (c, w) = exec stub_enter (cpu, w);
     (r, w) \<leftarrow> handle_syscall_direct c w;
     Some (case r of
         Returned v \<Rightarrow> (let (c, w) = exec stub_leave (regs_after left c v, w) in (Returned (gpr c ! 1, c), w))
       | Halted \<Rightarrow> (Halted, w)) }"

section \<open>Every entry leads to the stub\<close>

lemma gateway_at: "syscall_gateway_start = SYS_ENTER_ADDR"
  by (simp add: syscall_gateway_start_def SYS_ENTER_ADDR_def LOAD_ADDR_def)

lemma length_syscall_gateway: "length syscall_gateway = 512"
  by (simp add: syscall_gateway_def length_concat sum_list_replicate)

lemma nth_pairs: "i < n \<Longrightarrow> concat (replicate n [a, b]) ! (2 * i) = a"
proof (induction n arbitrary: i)
  case (Suc n)
  then show ?case by (cases i) simp_all
qed simp

lemma gateway_run_entry:
  assumes "i < 256"
  shows "gateway_run (gateway_entry i) = Some handle_syscall_direct_at"
proof -
  have k: "unat (gateway_entry i - syscall_gateway_start) = 8 * i"
    using assms unat_of_nat_64 [of "8 * i"] by (simp add: gateway_entry_def gateway_at)
  have "syscall_gateway ! (2 * i) = J_handle_syscall_direct"
    unfolding syscall_gateway_def using assms by (rule nth_pairs)
  then have "gateway_step (gateway_entry i) = Some handle_syscall_direct_at"
    using assms by (simp add: gateway_step_def k length_syscall_gateway)
  then show ?thesis by (subst gateway_run.simps) (simp add: gateway_run.simps [of handle_syscall_direct_at])
qed

section \<open>What a call means\<close>

inductive gateway_spec :: "uart_type \<Rightarrow> ram \<Rightarrow> u64 \<Rightarrow> u64 \<Rightarrow> u64 \<Rightarrow> u64 \<Rightarrow> u64 outcome \<Rightarrow> u8 list \<Rightarrow> bool"
  for ty m where
  call_write: "gateway_spec ty m 64 buf count a3 (Returned count)
     (gateway_text 64 buf count a3 @ concat (map (\<lambda>k. char_text ty (m (buf + of_nat k))) [0..<unat count]))"
| call_exit: "sint code \<noteq> - (2 ^ 63) \<Longrightarrow> gateway_spec ty m 93 code a2 a3 Halted (gateway_text 93 code a2 a3 @ exit_text code)"
| call_other: "n \<noteq> 64 \<Longrightarrow> n \<noteq> 93 \<Longrightarrow> sint n \<noteq> - (2 ^ 63) \<Longrightarrow> syscall_spec ty m DefaultSyscall n a1 r bs \<Longrightarrow>
     gateway_spec ty m n a1 a2 a3 (Returned r) (gateway_text n a1 a2 a3 @ bs)"

lemma gateway_other:
  assumes "uart_live w" and n: "n \<noteq> 64" "n \<noteq> 93" "sint n \<noteq> - (2 ^ 63)" and "syscall_spec (uart_ty w) (ram w) DefaultSyscall n a1 r bs"
  shows "\<exists>w'. handle_syscall_direct_c n a1 a2 a3 w = Some (Returned r, w') \<and> uart_io 0 (gateway_text n a1 a2 a3 @ bs) w w'"
proof -
  from prints_gateway [OF n(3), of a1 a2 a3]
  obtain w1 where w1: "say (logger_info (''[GATEWAY] Syscall ID: %lld, args: 0x%llx, 0x%llx, 0x%llx'' @ nl) [n, a1, a2, a3]) w = Some w1"
      "uart_io 0 (gateway_text n a1 a2 a3) w w1"
    using assms(1) by (rule printsE)
  have "syscall_spec (uart_ty w1) (ram w1) DefaultSyscall n a1 r bs" using assms(5) uart_io_frame(2,3) [OF w1(2)] by simp
  then obtain w2 where w2: "default_syscall_handler n a1 w1 = Some (r, w2)" "uart_io 0 bs w1 w2"
    using call_syscall_spec [OF _ uart_live_io [OF assms(1) w1(2)]] by fastforce
  show ?thesis using uart_io_trans [OF w1(2) w2(2)] w1(1) w2(1) n by (simp add: handle_syscall_direct_c_def)
qed

lemma gateway_spec_meets:
  assumes "gateway_spec (uart_ty w) (ram w) n a1 a2 a3 r bs" and live: "uart_live w"
  shows "\<exists>w'. handle_syscall_direct_c n a1 a2 a3 w = Some (r, w') \<and> uart_io 0 bs w w'"
  using assms(1)
proof cases
  case call_write
  have "uart_enc w = char_text (uart_ty w)" by (simp add: uart_enc_def char_text_def fun_eq_iff)
  then show ?thesis using gateway_write [OF live, of a1 a2 a3] call_write by simp
next
  case call_exit
  then show ?thesis using gateway_exit [OF live, of a1 a2 a3] by simp
next
  case (call_other r' bs')
  then show ?thesis using gateway_other [OF live call_other(3-6)] by auto
qed

section \<open>Properties\<close>

text \<open>The memory with the return address pushed.\<close>

definition pushed :: "cpu_t \<Rightarrow> 'a machine_scheme \<Rightarrow> 'a machine_scheme" where
  "pushed c w = w\<lparr>ram := store64 (ram w) (gpr c ! 2 - 16) (gpr c ! 1)\<rparr>"

lemma exec_stub_enter:
  assumes "cpu_ok c"
  shows "exec stub_enter (c, w) = (set_reg 2 (gpr c ! 2 - 16) c, pushed c w)"
  using assms by (simp add: stub_enter_def exec_Cons exec_Nil pushed_def cpu_ok_def)

lemma regs_after_call:
  "length (gpr (regs_after left c v)) = 32" "gpr (regs_after left c v) ! 10 = v" "gpr (regs_after left c v) ! 2 = gpr c ! 2"
  "k \<in> {0, 3, 4} \<union> callee_saved \<Longrightarrow> gpr (regs_after left c v) ! k = gpr c ! k"
  by (auto simp: regs_after_def callee_saved_def numeral_2_eq_2)

lemma exec_stub_leave:
  assumes "load64 (ram w) (gpr c ! 2) = ra" and "length (gpr c) = 32"
  shows "exec stub_leave (c, w) = (set_reg 2 (gpr c ! 2 + 16) (set_reg 1 ra c), w)"
  using assms by (simp add: stub_leave_def exec_Cons exec_Nil)

text \<open>
  C11.  A program that jumps to any of the 256 entries of the gateway gets what the number in its \<open>a0\<close> means, whatever the entry:
  \<open>write\<close> transmits exactly \<open>count\<close> bytes from \<open>buf\<close>, NUL bytes included, and returns \<open>count\<close>; \<open>exit\<close> reports the code and
  does not return; \<open>puts\<close>, \<open>putchar\<close> and unknown numbers do what the default system call handler does.  The call
  comes back to the return address with the result in \<open>a0\<close> and the stack pointer and all callee-saved registers as they were; it
  writes only the return address below the stack pointer.
\<close>

theorem gateway_call_meaning:
  assumes "uart_live w" and "i < 256" and "cpu_ok cpu"
    and "gateway_spec (uart_ty w) (ram (pushed cpu w)) (gpr cpu ! 10) (gpr cpu ! 11) (gpr cpu ! 12) (gpr cpu ! 13) r bs"
  shows "\<exists>w'. uart_io 0 bs (pushed cpu w) w' \<and>
    (case r of
      Returned v \<Rightarrow> \<exists>c. gateway_call (gateway_entry i) left cpu w = Some (Returned (gpr cpu ! 1, c), w') \<and> gpr c ! 10 = v \<and>
        (\<forall>k \<in> {0, 1, 2, 3, 4} \<union> callee_saved. gpr c ! k = gpr cpu ! k)
    | Halted \<Rightarrow> gateway_call (gateway_entry i) left cpu w = Some (Halted, w'))"
proof -
  let ?c = "set_reg 2 (gpr cpu ! 2 - 16) cpu" and ?w = "pushed cpu w"
  have cpu: "length (gpr cpu) = 32" using assms(3) by (simp add: cpu_ok_def)
  have live: "uart_live ?w" using assms(1) uart_live_cong [of ?w w] by (simp add: pushed_def)
  have "uart_ty ?w = uart_ty w" by (simp add: pushed_def)
  then have spec: "gateway_spec (uart_ty ?w) (ram ?w) (gpr cpu ! 10) (gpr cpu ! 11) (gpr cpu ! 12) (gpr cpu ! 13) r bs"
    using assms(4) by simp
  obtain w' where w': "handle_syscall_direct ?c ?w = Some (r, w')" "uart_io 0 bs ?w w'"
    using gateway_spec_meets [OF spec live] by (auto simp: handle_syscall_direct_def)
  note call = gateway_call_def [of "gateway_entry i" left cpu w] gateway_run_entry [OF assms(2)] exec_stub_enter [OF assms(3)] w'(1)
  show ?thesis
  proof (cases r)
    case (Returned v)
    let ?d = "regs_after left ?c v"
    have ra: "load64 (ram w') (gpr ?d ! 2) = gpr cpu ! 1"
      using uart_io_frame(3) [OF w'(2)] cpu by (simp add: regs_after_call pushed_def load64_store64)
    define e where "e = set_reg 2 (gpr ?d ! 2 + 16) (set_reg 1 (gpr cpu ! 1) ?d)"
    have "gateway_call (gateway_entry i) left cpu w = Some (Returned (gpr cpu ! 1, e), w')"
      using Returned by (simp add: call exec_stub_leave [OF ra] regs_after_call(1) e_def)
    moreover have e: "gpr e ! 10 = v" "gpr e ! 1 = gpr cpu ! 1" "gpr e ! 2 = gpr cpu ! 2"
      using cpu by (simp_all add: regs_after_call e_def)
    moreover have "gpr e ! k = gpr cpu ! k" if "k \<in> {0, 3, 4} \<union> callee_saved" for k
    proof -
      have "k \<noteq> 1" "k \<noteq> 2" using that by (auto simp: callee_saved_def)
      then show ?thesis using regs_after_call(4) [OF that, of left ?c v] by (simp add: e_def)
    qed
    then have "\<forall>k \<in> {0, 1, 2, 3, 4} \<union> callee_saved. gpr e ! k = gpr cpu ! k" using e(2,3) by blast
    ultimately have "\<exists>c. gateway_call (gateway_entry i) left cpu w = Some (Returned (gpr cpu ! 1, c), w') \<and> gpr c ! 10 = v \<and>
        (\<forall>k \<in> {0, 1, 2, 3, 4} \<union> callee_saved. gpr c ! k = gpr cpu ! k)"
      by blast
    then show ?thesis using w'(2) Returned by auto
  next
    case Halted
    then have "gateway_call (gateway_entry i) left cpu w = Some (Halted, w')" by (simp add: call)
    then show ?thesis using w'(2) Halted by auto
  qed
qed

text \<open>A program that asks for two bytes to be written, through the entry of \<open>write\<close>.\<close>

definition write_cpu :: cpu_t where
  "write_cpu = (demo_cpu 0)\<lparr>gpr := [0, 0x80800010, 0x80410000, 0, 0, 0, 0, 0, 0x77, 0, 64, 0x1000, 2, 0] @ replicate 18 7\<rparr>"

theorem gateway_call_meaning_witness:
  "\<exists>c w'. gateway_call (gateway_entry 64) (demo_cpu 5) write_cpu (demo_trap_machine\<lparr>ram := word_ram\<rparr>) =
      Some (Returned (0x80800010, c), w') \<and> gpr c ! 10 = 2 \<and> gpr c ! 2 = 0x80410000 \<and> gpr c ! 8 = 0x77"
proof -
  let ?w = "demo_trap_machine\<lparr>ram := word_ram\<rparr>"
  have live: "uart_live ?w" using uart_live_cong [of ?w demo_trap_machine] demo_trap_ok(3) by simp
  have cpu: "cpu_ok write_cpu" by (simp add: cpu_ok_def write_cpu_def demo_cpu_def)
  have regs: "gpr write_cpu ! 10 = 64" "gpr write_cpu ! 11 = 0x1000" "gpr write_cpu ! 12 = 2" "gpr write_cpu ! 13 = 0"
    "gpr write_cpu ! 1 = 0x80800010" "gpr write_cpu ! 2 = 0x80410000" "gpr write_cpu ! 8 = 0x77"
    by (simp_all add: write_cpu_def)
  have kept: "2 \<in> {0, 1, 2, 3, 4 :: nat} \<union> callee_saved" "8 \<in> {0, 1, 2, 3, 4 :: nat} \<union> callee_saved" by (simp_all add: callee_saved_def)
  show ?thesis
    using gateway_call_meaning [OF live _ cpu, unfolded regs, OF _ call_write, of 64] kept regs by fastforce
qed

end
