(* ===== verification/UserRun.thy ===== *)
theory UserRun
  imports SelfTest
begin

text \<open>
  What \<open>run_user_prog\<close> does with a program that behaves.  The program is not part of the repository; what is
  assumed of it is a \<open>user_program\<close>: called with its bytes at the load address, it changes memory and prints in a way that
  depends on memory only, leaves the memory below \<open>prog_low\<close> (the kernel's code and data) alone, and then returns or, as
  after the C library's \<^verbatim>\<open>exit\<close>, stays in an endless loop.
\<close>

section \<open>The contract of a program\<close>

record user_program =
  prog_bytes :: "u8 list"
  prog_low :: u64
  prog_ram :: "ram \<Rightarrow> ram"
  prog_text :: "uart_type \<Rightarrow> ram \<Rightarrow> u8 list"
  prog_halts :: bool

definition prog_loaded :: "user_program \<Rightarrow> ram \<Rightarrow> bool" where
  "prog_loaded p m \<longleftrightarrow> bytes_at m 0x80800000 (length (prog_bytes p)) = prog_bytes p \<and>
     (\<forall>i. of_nat (length (prog_bytes p)) \<le> i \<and> i < 0x4000 \<longrightarrow> m (0x80800000 + i) = 0)"

definition runs_as :: "'a heap_machine_scheme user_code \<Rightarrow> user_program \<Rightarrow> bool" where
  "runs_as user_main p \<longleftrightarrow>
     (\<forall>w. uart_live w \<longrightarrow> prog_loaded p (ram w) \<longrightarrow>
       (\<exists>w'. user_main w = Some (if prog_halts p then Halted else Returned (), w') \<and>
         uart_io 0 (prog_text p (uart_ty w) (ram w)) (w\<lparr>ram := prog_ram p (ram w)\<rparr>) w')) \<and>
     (\<forall>m a. prog_loaded p m \<longrightarrow> unat a < unat (prog_low p) \<longrightarrow> prog_ram p m a = m a)"

text \<open>The program is in the kernel's data, and the memory up to it is what it leaves alone.\<close>

definition image_holds :: "image \<Rightarrow> user_program \<Rightarrow> ram \<Rightarrow> bool" where
  "image_holds img p m \<longleftrightarrow> prog_below img \<and>
     bytes_at m (user_prog_start img) (unat (user_prog_size img)) = prog_bytes p \<and>
     unat (user_prog_start img) + unat (user_prog_size img) \<le> unat (prog_low p) \<and> unat (prog_low p) \<le> 0x80800000"

text \<open>The heap has room for the stacks of \<open>k\<close> runs before it reaches the load address.\<close>

definition stack_room :: "user_program \<Rightarrow> nat \<Rightarrow> heap_info_t \<Rightarrow> bool" where
  "stack_room p k h \<longleftrightarrow> heap_ok h \<and> unat (prog_low p) \<le> unat (heap_current h) \<and>
     unat (heap_current h) + 0x10000 * k \<le> 0x80800000 \<and> 0x80800000 \<le> unat (heap_end h)"

section \<open>The effect of a run\<close>

definition started_ram :: "image \<Rightarrow> 'a heap_machine_scheme \<Rightarrow> ram" where
  "started_ram img w = snd (prepare_user_stack img (heap_current (heap w)) 0x10000 (with_program img (ram w)))"

definition program_state :: "image \<Rightarrow> user_program \<Rightarrow> 'a heap_machine_scheme \<Rightarrow> 'a heap_machine_scheme" where
  "program_state img p w = w\<lparr>heap := take_piece 0x10000 (heap w), ram := prog_ram p (started_ram img w)\<rparr>"

definition returned_text :: "u8 list" where
  "returned_text = log_line LOG_LEVEL_INFO (str (''User program returned.'' @ nl))"

definition program_text :: "image \<Rightarrow> user_program \<Rightarrow> 'a heap_machine_scheme \<Rightarrow> u8 list" where
  "program_text img p w = loading_text (user_prog_size img) @ jumping_text (user_sp (heap_current (heap w)) 0x10000) @
     prog_text p (uart_ty w) (started_ram img w) @ (if prog_halts p then [] else returned_text)"

lemma neutral_program: "neutral (program_state img p)"
  by (rule neutralI) (simp_all add: program_state_def started_ram_def)

lemma stack_room_step:
  assumes "stack_room p (Suc k) h"
  shows "unat (heap_current h) + 0x10000 \<le> unat (heap_end h)" and "unat (heap_current h) + 0x10000 \<le> 0x80800000"
    and "stack_room p k (take_piece 0x10000 h)"
proof -
  have ok: "heap_ok h" using assms by (simp add: stack_room_def)
  show room: "unat (heap_current h) + 0x10000 \<le> unat (heap_end h)" and "unat (heap_current h) + 0x10000 \<le> 0x80800000"
    using assms by (simp_all add: stack_room_def)
  have "heap_ok (take_piece 0x10000 h)" using heap_ok_take_piece [OF ok, of "0x10000"] room by (simp add: round_up_def)
  moreover have "unat (heap_current (take_piece 0x10000 h)) = unat (heap_current h) + 0x10000"
    using malloc_fits(1) [OF ok, of "0x10000"] by (simp add: round_up_def take_piece_def)
  ultimately show "stack_room p k (take_piece 0x10000 h)"
    using assms by (simp add: stack_room_def) (simp add: take_piece_def)
qed

lemma started_ram_facts:
  assumes img: "image_holds img p (ram w)" and room: "stack_room p (Suc k) (heap w)"
  shows "prog_loaded p (started_ram img w)"
    and "unat a < unat (prog_low p) \<Longrightarrow> started_ram img w a = ram w a"
proof -
  let ?stack = "heap_current (heap w)"
  let ?sp = "user_sp ?stack 0x10000"
  have below: "prog_below img" and low: "unat (prog_low p) \<le> 0x80800000" "unat (prog_low p) \<le> unat ?stack"
    using img room by (simp_all add: image_holds_def stack_room_def)
  have lt: "unat ?stack + unat (0x10000 :: u64) < 2 ^ 64" "144 \<le> unat (0x10000 :: u64)"
    using stack_room_step(1) [OF room] unat_less_64 [of "heap_end (heap w)"] by simp_all
  note sp = user_sp_unat [OF lt]
  have top: "unat ?sp + 128 \<le> unat ?stack + 0x10000"
    unfolding sp(1) using div_times_less_eq_dividend [of "unat ?stack + unat (0x10000 :: u64)" 16] by simp
  have m: "started_ram img w a = with_program img (ram w) a" if "unat a < unat ?sp \<or> unat ?sp + 128 \<le> unat a" for a
    using prepare_user_stack_words [OF lt, of img "with_program img (ram w)"] that by (auto simp: started_ram_def)
  have "unat ?sp + 128 \<le> 0x80800000 \<or> 0x80804000 \<le> unat ?sp" using top stack_room_step(2) [OF room] by simp
  note kept = program_kept [OF below this m]
  have len: "length (prog_bytes p) = unat (user_prog_size img)"
    using img length_bytes_at [of "ram w" "user_prog_start img" "unat (user_prog_size img)"] by (simp add: image_holds_def)
  show "prog_loaded p (started_ram img w)"
    using kept img unfolding prog_loaded_def len by (simp add: image_holds_def)
  show "started_ram img w a = ram w a" if "unat a < unat (prog_low p)"
  proof -
    have "unat (a - 0x80800000) \<ge> 0x4000" using that low unat_sub_if' [of a "0x80800000"] by simp
    then have "\<not> a - 0x80800000 < 0x4000" "\<not> a - 0x80800000 < user_prog_size img"
      using below by (auto simp: word_less_nat_alt word_le_nat_alt prog_below_def)
    then show ?thesis using m [of a] that low sp(2) by (simp add: with_program_def)
  qed
qed

text \<open>Nothing below \<open>prog_low\<close> changes, and the heap has room for one run less.\<close>

lemma program_state_kept:
  assumes prog: "runs_as user_main p" and img: "image_holds img p (ram w)" and room: "stack_room p (Suc k) (heap w)"
  shows "unat a < unat (prog_low p) \<Longrightarrow> ram (program_state img p w) a = ram w a"
    and "stack_room p k (heap (program_state img p w))"
    and "image_holds img p (ram (program_state img p w))"
proof -
  show same: "unat a < unat (prog_low p) \<Longrightarrow> ram (program_state img p w) a = ram w a" for a
    using prog started_ram_facts [OF img room] by (simp add: runs_as_def program_state_def)
  show "stack_room p k (heap (program_state img p w))"
    using stack_room_step(3) [OF room] by (simp add: program_state_def)
  have "bytes_at (ram (program_state img p w)) (user_prog_start img) (unat (user_prog_size img)) =
      bytes_at (ram w) (user_prog_start img) (unat (user_prog_size img))"
    unfolding bytes_at_def
  proof (rule map_cong [OF refl])
    fix i assume "i \<in> set [0..<unat (user_prog_size img)]"
    then have i: "unat (user_prog_start img) + i < unat (prog_low p)" using img by (auto simp: image_holds_def)
    then have "unat (user_prog_start img + of_nat i) = unat (user_prog_start img) + i"
      using add_less_no_wrap [of "user_prog_start img" i] unat_less_64 [of "prog_low p"] by simp
    then show "ram (program_state img p w) (user_prog_start img + of_nat i) = ram w (user_prog_start img + of_nat i)"
      using i by (intro same) simp
  qed
  then show "image_holds img p (ram (program_state img p w))" using img by (simp add: image_holds_def)
qed

lemma run_user_prog_effect:
  assumes live: "uart_live w" and prog: "runs_as user_main p" and img: "image_holds img p (ram w)"
    and room: "stack_room p (Suc k) (heap w)"
  shows "\<exists>w'. run_user_prog img user_main w = Some (if prog_halts p then Stopped else Done (), w') \<and>
    uart_io 0 (program_text img p w) (program_state img p w) w'"
proof -
  let ?m = "started_ram img w" and ?h = "take_piece 0x10000 (heap w)"
  let ?pre = "loading_text (user_prog_size img) @ jumping_text (user_sp (heap_current (heap w)) 0x10000)"
  have ok: "heap_ok (heap w)" "prog_below img" using img room by (simp_all add: image_holds_def stack_room_def)
  obtain w1 where w1: "program_ready img w w1" "uart_live w1"
      "run_user_prog img user_main w = (case user_main w1 of
         None \<Rightarrow> None
       | Some (Halted, w2) \<Rightarrow> Some (Stopped, w2)
       | Some (Returned _, w2) \<Rightarrow> map_option (Pair (Done ())) (say (logger_info (''User program returned.'' @ nl) []) w2))"
    using run_user_prog_calls [OF live ok stack_room_step(1) [OF room], of user_main] by blast
  have io1: "uart_io 0 ?pre (w\<lparr>heap := ?h, ram := ?m\<rparr>) w1"
    using w1(1) by (auto simp: program_ready_def started_ram_def Let_def)
  have same: "ram w1 = ?m" "uart_ty w1 = uart_ty w" using uart_io_frame [OF io1] by simp_all
  obtain w2 where w2: "user_main w1 = Some (if prog_halts p then Halted else Returned (), w2)"
      "uart_io 0 (prog_text p (uart_ty w) ?m) (w1\<lparr>ram := prog_ram p ?m\<rparr>) w2"
    using prog w1(2) started_ram_facts(1) [OF img room] unfolding runs_as_def same [symmetric] by blast
  have "uart_io 0 ?pre (program_state img p w) (w1\<lparr>ram := prog_ram p ?m\<rparr>)"
  proof -
    have "neutral (\<lambda>w :: 'a heap_machine_scheme. w\<lparr>ram := prog_ram p ?m\<rparr>)" by (rule neutralI) simp_all
    from neutral_io [OF this io1] show ?thesis by (simp add: program_state_def)
  qed
  from uart_io_trans [OF this w2(2)]
  have io2: "uart_io 0 (?pre @ prog_text p (uart_ty w) ?m) (program_state img p w) w2" by simp
  show ?thesis
  proof (cases "prog_halts p")
    case True
    then show ?thesis using w1(3) w2(1) io2 by (simp add: program_text_def)
  next
    case False
    have "uart_live (program_state img p w)" using live by (simp add: program_state_def)
    then have "uart_live w2" using uart_live_io [OF _ io2] by blast
    moreover have "prints (say (logger_info (''User program returned.'' @ nl) [])) (\<lambda>t. returned_text)"
      unfolding log_defs returned_text_def by (rule prints_note) (simp add: nl_def)
    ultimately obtain w3 where "say (logger_info (''User program returned.'' @ nl) []) w2 = Some w3" "uart_io 0 returned_text w2 w3"
      by (auto elim: printsE)
    then show ?thesis using False w1(3) w2(1) uart_io_trans [OF io2] by (fastforce simp: program_text_def)
  qed
qed

section \<open>Two programs\<close>

text \<open>One that returns at once, and one that writes its first two bytes to the console and exits, by calls of the gateway.\<close>

definition quiet_program :: user_program where
  "quiet_program = \<lparr>prog_bytes = replicate 4096 0, prog_low = 0x80400000, prog_ram = (\<lambda>m. m), prog_text = (\<lambda>t m. []),
     prog_halts = False\<rparr>"

lemma quiet_runs: "runs_as exit_code quiet_program"
  by (auto simp: runs_as_def exit_code_def quiet_program_def intro: uart_io_refl)

definition greet_code :: "'a heap_machine_scheme user_code" where
  "greet_code w = do {
     (r, w) \<leftarrow> handle_syscall_direct_c 64 0x80800000 2 0 w;
     (r, w) \<leftarrow> handle_syscall_direct_c 93 0 0 0 w;
     Some (case r of Returned x \<Rightarrow> Returned () | Halted \<Rightarrow> Halted, w) }"

definition greet_program :: user_program where
  "greet_program = quiet_program\<lparr>prog_text := (\<lambda>t m. gateway_text 64 0x80800000 2 0 @
     char_text t (m 0x80800000) @ char_text t (m 0x80800001) @ gateway_text 93 0 0 0 @ exit_text 0), prog_halts := True\<rparr>"

lemma greet_runs: "runs_as greet_code greet_program"
proof -
  have "\<exists>w'. greet_code w = Some (Halted, w') \<and> uart_io 0 (prog_text greet_program (uart_ty w) (ram w)) w w'"
    if live: "uart_live w" for w :: "'a heap_machine_scheme"
  proof -
    obtain w1 where w1: "handle_syscall_direct_c 64 0x80800000 2 0 w = Some (Returned 2, w1)"
        "uart_io 0 (gateway_text 64 0x80800000 2 0 @ concat (map (\<lambda>k. uart_enc w (ram w (0x80800000 + of_nat k))) [0..<unat (2 :: u64)])) w w1"
      using gateway_write [OF live] by blast
    obtain w2 where w2: "handle_syscall_direct_c 93 0 0 0 w1 = Some (Halted, w2)" "uart_io 0 (gateway_text 93 0 0 0 @ exit_text 0) w1 w2"
      using gateway_exit [OF uart_live_io [OF live w1(2)], of 0 0 0] by auto
    have "[0..<unat (2 :: u64)] = [0, 1]" by (simp add: upt_rec)
    moreover have "uart_enc w = char_text (uart_ty w)" by (simp add: uart_enc_def char_text_def fun_eq_iff)
    ultimately show ?thesis
      using w1(1) w2(1) uart_io_trans [OF w1(2) w2(2)] by (simp add: greet_code_def greet_program_def)
  qed
  then show ?thesis by (auto simp: runs_as_def greet_program_def quiet_program_def)
qed

lemma demo_image_holds:
  assumes "prog_bytes p = replicate 4096 0" and "prog_low p = 0x80400000"
    and "\<And>i. i < 4096 \<Longrightarrow> m (0x80208000 + of_nat i) = 0"
  shows "image_holds demo_image p m"
proof -
  have "bytes_at m 0x80208000 4096 = replicate 4096 0"
    unfolding bytes_at_def by (rule nth_equalityI) (simp_all add: assms(3))
  then show ?thesis
    by (simp add: image_holds_def assms(1,2) prog_below_def user_prog_size_def demo_image_def)
qed

lemma demo_stack_room: "prog_low p = 0x80400000 \<Longrightarrow> k \<le> 32 \<Longrightarrow> stack_room p k demo_heap"
  using demo_heap_ok by (simp add: stack_room_def) (simp add: demo_heap_eq)

end
