(* ===== verification/Shell.thy ===== *)
theory Shell
  imports UserRun
begin

text \<open>
  The interactive shell of \<^verbatim>\<open>src/entry.c\<close>: \<open>process_command\<close> and \<open>interactive_shell\<close>, the table that
  the chain of comparisons amounts to, and what a session at the terminal does.
\<close>

section \<open>Commands\<close>

definition READ_STVEC :: "'a machine_scheme \<Rightarrow> u64" where
  "READ_STVEC w = csr_stvec w"

text \<open>\<^verbatim>\<open>strcmp(cmd, a) == 0 || strcmp(cmd, b) == 0\<close>\<close>

definition cmd_is :: "cptr \<Rightarrow> string \<Rightarrow> string \<Rightarrow> bool option" where
  "cmd_is cmd a b = do {
     r \<leftarrow> strcmp cmd (lit a);
     if r = 0 then Some True
     else do { r \<leftarrow> strcmp cmd (lit b); Some (r = 0) } }"

definition help_message :: "'a machine_scheme \<Rightarrow> 'a machine_scheme option" where
  "help_message w = do {
     w \<leftarrow> uart_puts (lit (''Available commands:'' @ crnl)) w;
     w \<leftarrow> uart_puts (lit (''  help, h        - Show this help'' @ crnl)) w;
     w \<leftarrow> uart_puts (lit (''  info, i        - Show system information'' @ crnl)) w;
     w \<leftarrow> uart_puts (lit (''  mem, m         - Show memory statistics'' @ crnl)) w;
     w \<leftarrow> uart_puts (lit (''  test, t        - Run basic tests'' @ crnl)) w;
     w \<leftarrow> uart_puts (lit (''  fp, float      - Test floating point unit'' @ crnl)) w;
     w \<leftarrow> uart_puts (lit (''  syscall, s     - Test system calls'' @ crnl)) w;
     w \<leftarrow> uart_puts (lit (''  exception, e   - Test exception handling'' @ crnl)) w;
     w \<leftarrow> uart_puts (lit (''  run, u         - Run embedded user program'' @ crnl)) w;
     w \<leftarrow> uart_puts (lit (''  reboot, r      - Restart system'' @ crnl)) w;
     uart_puts (lit (''  quit, q        - Enter idle loop'' @ crnl)) w }"

definition info_message :: "'a machine_scheme \<Rightarrow> 'a machine_scheme option" where
  "info_message w = do {
     w \<leftarrow> uart_puts (lit (''=== System Information ==='' @ crnl)) w;
     w \<leftarrow> uart_puts (lit (''System: RISC-V testos'' @ crnl)) w;
     w \<leftarrow> uart_puts (lit (''Version: 1.0'' @ crnl)) w;
     w \<leftarrow> uart_puts (lit ''SSTATUS: '') w;
     w \<leftarrow> uart_print_hex (READ_SSTATUS w) w;
     w \<leftarrow> uart_puts (lit crnl) w;
     w \<leftarrow> uart_puts (lit ''STVEC: '') w;
     w \<leftarrow> uart_print_hex (READ_STVEC w) w;
     uart_puts (lit crnl) w }"

definition unknown_message :: "cptr \<Rightarrow> 'a machine_scheme \<Rightarrow> 'a machine_scheme option" where
  "unknown_message cmd w = do {
     w \<leftarrow> uart_puts (lit ''Unknown command: '') w;
     w \<leftarrow> uart_puts cmd w;
     uart_puts (lit (crnl @ ''Type '' @ [CHR 0x27] @ ''help'' @ [CHR 0x27] @ '' for available commands.'' @ crnl)) w }"

text \<open>A branch of the chain, then \<^verbatim>\<open>return 1\<close>.\<close>

definition then_continue :: "(unit run \<times> 's) option \<Rightarrow> (int run \<times> 's) option" where
  "then_continue r = do {
     (e, w) \<leftarrow> r;
     Some (case e of Done _ \<Rightarrow> Done 1 | Stopped \<Rightarrow> Stopped | Restarted \<Rightarrow> Restarted, w) }"

definition finished :: "'s option \<Rightarrow> (unit run \<times> 's) option" where
  "finished r = map_option (Pair (Done ())) r"

text \<open>\<^verbatim>\<open>reset_func\<close> is the code at the load address: the kernel starts again.\<close>

definition process_command :: "image \<Rightarrow> 'a trap_machine_scheme user_code \<Rightarrow> cptr \<Rightarrow> 'a trap_machine_scheme \<Rightarrow>
    (int run \<times> 'a trap_machine_scheme) option" where
  "process_command img user_main cmd w = do {
     b \<leftarrow> cmd_is cmd ''help'' ''h'';
     if b then then_continue (finished (help_message w)) else do {
     b \<leftarrow> cmd_is cmd ''info'' ''i'';
     if b then then_continue (finished (info_message w)) else do {
     b \<leftarrow> cmd_is cmd ''mem'' ''m'';
     if b then then_continue (finished (mem_print_stats w)) else do {
     b \<leftarrow> cmd_is cmd ''test'' ''t'';
     if b then then_continue (finished (test_basic_functions img w)) else do {
     b \<leftarrow> cmd_is cmd ''fp'' ''float'';
     if b then then_continue (finished (test_floating_point w)) else do {
     b \<leftarrow> cmd_is cmd ''syscall'' ''s'';
     if b then then_continue (finished (test_syscalls img w)) else do {
     b \<leftarrow> cmd_is cmd ''exception'' ''e'';
     if b then then_continue (test_exception_handling img w) else do {
     b \<leftarrow> cmd_is cmd ''run'' ''u'';
     if b then then_continue (run_user_prog img user_main w) else do {
     b \<leftarrow> cmd_is cmd ''reboot'' ''r'';
     if b then do {
       w \<leftarrow> uart_puts (lit (''Rebooting system...'' @ crnl)) w;
       Some (Restarted, w) } else do {
     b \<leftarrow> cmd_is cmd ''quit'' ''q'';
     if b then do {
       w \<leftarrow> uart_puts (lit (''Entering idle loop. System will wait for interrupts.'' @ crnl)) w;
       Some (Done 0, w) } else do {
     len \<leftarrow> strlen cmd;
     if len > 0 then then_continue (finished (unknown_message cmd w))
     else Some (Done 1, w) } } } } } } } } } } }"

section \<open>The loop\<close>

text \<open>\<^verbatim>\<open>while (len > 0 && (cmd_buffer[len-1] == ' ' || cmd_buffer[len-1] == '\t')) cmd_buffer[--len] = '\0';\<close>\<close>

function trim_line :: "u8 list \<Rightarrow> int \<Rightarrow> u8 list option" where
  "trim_line buf len =
     (if len > 0 then
        (if nat (len - 1) < length buf then
           (if buf ! nat (len - 1) = ch CHR '' '' \<or> buf ! nat (len - 1) = ch CHR 0x09
            then trim_line (buf[nat (len - 1) := 0]) (len - 1)
            else Some buf)
         else None)
      else Some buf)"
  by pat_completeness auto
termination
  by (relation "measure (\<lambda>(buf, len). nat len)") auto

declare trim_line.simps [simp del]

partial_function (option) shell_loop :: "image \<Rightarrow> 'a trap_machine_scheme user_code \<Rightarrow> u8 list \<Rightarrow> 'a trap_machine_scheme \<Rightarrow>
    (unit run \<times> 'a trap_machine_scheme) option" where
  "shell_loop img user_main cmd_buffer w = do {
     w \<leftarrow> uart_puts (lit ''testos> '') w;
     (cmd_buffer, len, w) \<leftarrow> uart_gets cmd_buffer 128 w;
     if len > 0 then do {
       cmd_buffer \<leftarrow> trim_line cmd_buffer len;
       (ret, w) \<leftarrow> process_command img user_main (obj cmd_buffer) w;
       case ret of
         Stopped \<Rightarrow> Some (Stopped, w)
       | Restarted \<Rightarrow> Some (Restarted, w)
       | Done n \<Rightarrow>
           if n = 0 then Some (Done (), w)
           else do {
             w \<leftarrow> uart_puts (lit crnl) w;
             shell_loop img user_main cmd_buffer w } }
     else do {
       w \<leftarrow> uart_puts (lit crnl) w;
       shell_loop img user_main cmd_buffer w } }"

declare shell_loop.simps [code]

text \<open>The array \<^verbatim>\<open>cmd_buffer\<close> has 128 bytes, with any contents at first.\<close>

definition interactive_shell :: "image \<Rightarrow> 'a trap_machine_scheme user_code \<Rightarrow> u8 list \<Rightarrow> 'a trap_machine_scheme \<Rightarrow>
    (unit run \<times> 'a trap_machine_scheme) option" where
  "interactive_shell img user_main cmd_buffer w = do {
     w \<leftarrow> uart_puts (lit crnl) w;
     w \<leftarrow> uart_puts (lit (''========================================'' @ crnl)) w;
     w \<leftarrow> uart_puts (lit (''     RISC-V testos Interactive Shell   '' @ crnl)) w;
     w \<leftarrow> uart_puts (lit (''========================================'' @ crnl)) w;
     w \<leftarrow> uart_puts (lit (''Type '' @ [CHR 0x27] @ ''help'' @ [CHR 0x27] @ '' for available commands.'' @ crnl @ crnl)) w;
     shell_loop img user_main cmd_buffer w }"

section \<open>The command table\<close>

datatype command = Help | Info | Mem | Test | Fp | Syscall | Exception | Run | Reboot | Quit

definition command_table :: "(string \<times> command) list" where
  "command_table = [(''help'', Help), (''h'', Help), (''info'', Info), (''i'', Info), (''mem'', Mem), (''m'', Mem),
     (''test'', Test), (''t'', Test), (''fp'', Fp), (''float'', Fp), (''syscall'', Syscall), (''s'', Syscall),
     (''exception'', Exception), (''e'', Exception), (''run'', Run), (''u'', Run), (''reboot'', Reboot), (''r'', Reboot),
     (''quit'', Quit), (''q'', Quit)]"

definition lookup_command :: "u8 list \<Rightarrow> command option" where
  "lookup_command s = map_of (map (\<lambda>(n, c). (str n, c)) command_table) s"

fun run_command :: "image \<Rightarrow> 'a trap_machine_scheme user_code \<Rightarrow> command \<Rightarrow> 'a trap_machine_scheme \<Rightarrow>
    (int run \<times> 'a trap_machine_scheme) option" where
  "run_command img user_main Help w = then_continue (finished (help_message w))"
| "run_command img user_main Info w = then_continue (finished (info_message w))"
| "run_command img user_main Mem w = then_continue (finished (mem_print_stats w))"
| "run_command img user_main Test w = then_continue (finished (test_basic_functions img w))"
| "run_command img user_main Fp w = then_continue (finished (test_floating_point w))"
| "run_command img user_main Syscall w = then_continue (finished (test_syscalls img w))"
| "run_command img user_main Exception w = then_continue (test_exception_handling img w)"
| "run_command img user_main Run w = then_continue (run_user_prog img user_main w)"
| "run_command img user_main Reboot w =
     map_option (Pair Restarted) (uart_puts (lit (''Rebooting system...'' @ crnl)) w)"
| "run_command img user_main Quit w =
     map_option (Pair (Done 0)) (uart_puts (lit (''Entering idle loop. System will wait for interrupts.'' @ crnl)) w)"

declare run_command.simps [simp del]

lemma cmd_is_eq:
  assumes "is_cstr cmd s" and "0 \<notin> set (str a)" and "0 \<notin> set (str b)" and "length a < 2 ^ 64" and "length b < 2 ^ 64"
  shows "cmd_is cmd a b = Some (s = str a \<or> s = str b)"
proof -
  have s: "0 \<notin> set s" using assms(1) by (simp add: is_cstr_def)
  show ?thesis
    using strcmp_cstr [OF assms(1) is_cstr_lit [OF assms(2,4)]] strcmp_cstr [OF assms(1) is_cstr_lit [OF assms(3,5)]]
      byte_diff_eq [OF s assms(2)] byte_diff_eq [OF s assms(3)]
    by (simp add: cmd_is_def)
qed

lemma process_command_chain:
  assumes "is_cstr cmd s"
  shows "process_command img user_main cmd w =
    (if s = str ''help'' \<or> s = str ''h'' then run_command img user_main Help w
     else if s = str ''info'' \<or> s = str ''i'' then run_command img user_main Info w
     else if s = str ''mem'' \<or> s = str ''m'' then run_command img user_main Mem w
     else if s = str ''test'' \<or> s = str ''t'' then run_command img user_main Test w
     else if s = str ''fp'' \<or> s = str ''float'' then run_command img user_main Fp w
     else if s = str ''syscall'' \<or> s = str ''s'' then run_command img user_main Syscall w
     else if s = str ''exception'' \<or> s = str ''e'' then run_command img user_main Exception w
     else if s = str ''run'' \<or> s = str ''u'' then run_command img user_main Run w
     else if s = str ''reboot'' \<or> s = str ''r'' then run_command img user_main Reboot w
     else if s = str ''quit'' \<or> s = str ''q'' then run_command img user_main Quit w
     else if s = [] then Some (Done 1, w) else then_continue (finished (unknown_message cmd w)))"
proof -
  have tests: "cmd_is cmd ''help'' ''h'' = Some (s = str ''help'' \<or> s = str ''h'')"
    "cmd_is cmd ''info'' ''i'' = Some (s = str ''info'' \<or> s = str ''i'')"
    "cmd_is cmd ''mem'' ''m'' = Some (s = str ''mem'' \<or> s = str ''m'')"
    "cmd_is cmd ''test'' ''t'' = Some (s = str ''test'' \<or> s = str ''t'')"
    "cmd_is cmd ''fp'' ''float'' = Some (s = str ''fp'' \<or> s = str ''float'')"
    "cmd_is cmd ''syscall'' ''s'' = Some (s = str ''syscall'' \<or> s = str ''s'')"
    "cmd_is cmd ''exception'' ''e'' = Some (s = str ''exception'' \<or> s = str ''e'')"
    "cmd_is cmd ''run'' ''u'' = Some (s = str ''run'' \<or> s = str ''u'')"
    "cmd_is cmd ''reboot'' ''r'' = Some (s = str ''reboot'' \<or> s = str ''r'')"
    "cmd_is cmd ''quit'' ''q'' = Some (s = str ''quit'' \<or> s = str ''q'')"
    by (rule cmd_is_eq [OF assms]; simp)+
  have "length s < 2 ^ 64" using assms by (simp add: is_cstr_def)
  then have len: "(strlen cmd \<bind> (\<lambda>len. if len > 0 then A else B)) = (if s = [] then B else A)" for A B :: "'b option"
    using strlen_cstr [OF assms] by (simp add: word_less_nat_alt unat_of_nat_64)
  have then_quit: "(x \<bind> (\<lambda>w. Some (r, w))) = map_option (Pair r) x" for x :: "'b option" and r :: "int run"
    by (cases x) simp_all
  show ?thesis
    unfolding process_command_def tests len run_command.simps then_quit by (simp only: bind.bind_lunit)
qed

lemma lookup_command_chain:
  "lookup_command s =
    (if s = str ''help'' \<or> s = str ''h'' then Some Help
     else if s = str ''info'' \<or> s = str ''i'' then Some Info
     else if s = str ''mem'' \<or> s = str ''m'' then Some Mem
     else if s = str ''test'' \<or> s = str ''t'' then Some Test
     else if s = str ''fp'' \<or> s = str ''float'' then Some Fp
     else if s = str ''syscall'' \<or> s = str ''s'' then Some Syscall
     else if s = str ''exception'' \<or> s = str ''e'' then Some Exception
     else if s = str ''run'' \<or> s = str ''u'' then Some Run
     else if s = str ''reboot'' \<or> s = str ''r'' then Some Reboot
     else if s = str ''quit'' \<or> s = str ''q'' then Some Quit
     else None)"
proof -
  have or_if: "(if a \<or> b then x else y) = (if a then x else if b then x else y)" for a b and x y :: "command option" by simp
  show ?thesis
    by (simp only: lookup_command_def command_table_def list.map prod.case map_of.simps fst_conv snd_conv fun_upd_apply or_if)
qed

lemma process_command_table:
  assumes "is_cstr cmd s"
  shows "process_command img user_main cmd w = (case lookup_command s of
      Some c \<Rightarrow> run_command img user_main c w
    | None \<Rightarrow> if s = [] then Some (Done 1, w) else then_continue (finished (unknown_message cmd w)))"
proof -
  have push_case: "(case (if b then x else y) of None \<Rightarrow> f | Some c \<Rightarrow> g c) =
      (if b then (case x of None \<Rightarrow> f | Some c \<Rightarrow> g c) else (case y of None \<Rightarrow> f | Some c \<Rightarrow> g c))" for b x y f and g :: "command \<Rightarrow> 'b"
    by simp
  show ?thesis
    unfolding process_command_chain [OF assms] lookup_command_chain push_case option.case ..
qed

section \<open>What a line means\<close>

text \<open>The line without its trailing blanks and tabs, up to a NUL that was typed.\<close>

definition trim_end :: "u8 list \<Rightarrow> u8 list" where
  "trim_end s = rev (dropWhile (\<lambda>c. c = 32 \<or> c = 9) (rev s))"

definition typed_command :: "u8 list \<Rightarrow> u8 list" where
  "typed_command line = takeWhile (\<lambda>c. c \<noteq> 0) (trim_end line)"

datatype entry = Cmd command | Unknown "u8 list" | Blank

definition entry_of :: "u8 list \<Rightarrow> entry" where
  "entry_of line = (let s = typed_command line in case lookup_command s of
     Some c \<Rightarrow> Cmd c | None \<Rightarrow> if s = [] then Blank else Unknown s)"

lemma trim_line_trims:
  "\<exists>rest'. trim_line (s @ 0 # rest) (int (length s)) = Some (trim_end s @ 0 # rest') \<and>
    length (trim_end s @ 0 # rest') = length (s @ 0 # rest)"
proof (induction s arbitrary: rest rule: rev_induct)
  case Nil
  then show ?case by (simp add: trim_line.simps trim_end_def)
next
  case (snoc c s)
  show ?case
  proof (cases "c = 32 \<or> c = 9")
    case True
    then have "trim_line ((s @ [c]) @ 0 # rest) (int (length (s @ [c]))) = trim_line (s @ 0 # 0 # rest) (int (length s))"
      by (subst trim_line.simps) (simp add: nth_append list_update_append)
    moreover have "trim_end (s @ [c]) = trim_end s" using True by (simp add: trim_end_def)
    ultimately show ?thesis using snoc.IH [of "0 # rest"] by simp
  next
    case False
    then have "trim_line ((s @ [c]) @ 0 # rest) (int (length (s @ [c]))) = Some ((s @ [c]) @ 0 # rest)"
      by (subst trim_line.simps) (simp add: nth_append)
    moreover have "trim_end (s @ [c]) = s @ [c]" using False by (simp add: trim_end_def)
    ultimately show ?thesis by auto
  qed
qed

text \<open>The buffer then holds the typed command.\<close>

lemma obj_cut:
  assumes "length s + length rest < 2 ^ 64"
  shows "is_cstr (obj (s @ 0 # rest)) (takeWhile (\<lambda>c. c \<noteq> 0) s)"
proof (cases "0 \<in> set s")
  case False
  then have all: "takeWhile (\<lambda>c. c \<noteq> 0) s = s" by (auto simp: takeWhile_eq_all_conv)
  show ?thesis unfolding all using False assms by (rule is_cstr_obj)
next
  case True
  let ?t = "takeWhile (\<lambda>c. c \<noteq> 0) s"
  obtain u where "dropWhile (\<lambda>c. c \<noteq> 0) s = 0 # u"
    using True by (metis (mono_tags, lifting) dropWhile_eq_Nil_conv hd_dropWhile list.collapse)
  then have s: "s = ?t @ 0 # u" by (metis takeWhile_dropWhile_id)
  have "0 \<notin> set ?t" by (auto dest: set_takeWhileD)
  moreover have "length ?t + length (u @ 0 # rest) < 2 ^ 64"
    using assms arg_cong [OF s, of length] by simp
  ultimately have "is_cstr (obj (?t @ 0 # (u @ 0 # rest))) ?t" by (rule is_cstr_obj)
  then show ?thesis using s by (metis append.assoc append_Cons)
qed

lemma line_in_buffer:
  assumes "take (length line) buf = line" and "buf ! length line = 0" and "length line < length buf" and "length buf < 2 ^ 64"
  shows "\<exists>buf'. trim_line buf (int (length line)) = Some buf' \<and> length buf' = length buf \<and> is_cstr (obj buf') (typed_command line)"
proof -
  have "buf = line @ 0 # drop (Suc (length line)) buf"
    using assms(1-3) id_take_nth_drop [of "length line" buf] by simp
  then obtain rest' where rest': "trim_line buf (int (length line)) = Some (trim_end line @ 0 # rest')"
      "length (trim_end line @ 0 # rest') = length buf"
    using trim_line_trims [of line "drop (Suc (length line)) buf"] by auto
  moreover have "is_cstr (obj (trim_end line @ 0 # rest')) (typed_command line)"
    unfolding typed_command_def using rest'(2) assms(4) by (intro obj_cut) simp
  ultimately show ?thesis by blast
qed

section \<open>What the commands do\<close>

definition help_text :: "u8 list" where
  "help_text = msg (''Available commands:'' @ crnl) @ msg (''  help, h        - Show this help'' @ crnl) @
     msg (''  info, i        - Show system information'' @ crnl) @ msg (''  mem, m         - Show memory statistics'' @ crnl) @
     msg (''  test, t        - Run basic tests'' @ crnl) @ msg (''  fp, float      - Test floating point unit'' @ crnl) @
     msg (''  syscall, s     - Test system calls'' @ crnl) @ msg (''  exception, e   - Test exception handling'' @ crnl) @
     msg (''  run, u         - Run embedded user program'' @ crnl) @ msg (''  reboot, r      - Restart system'' @ crnl) @
     msg (''  quit, q        - Enter idle loop'' @ crnl)"

definition info_text :: "u64 \<Rightarrow> u64 \<Rightarrow> uart_type \<Rightarrow> u8 list" where
  "info_text ss st t = msg (''=== System Information ==='' @ crnl) @ msg (''System: RISC-V testos'' @ crnl) @
     msg (''Version: 1.0'' @ crnl) @ msg ''SSTATUS: '' @ (hex_prefix t @ hex16 ss) @ msg crnl @
     msg ''STVEC: '' @ (hex_prefix t @ hex16 st) @ msg crnl"

definition unknown_text :: "u8 list \<Rightarrow> u8 list" where
  "unknown_text s = msg ''Unknown command: '' @ concat (map crlf s) @
     msg (crnl @ ''Type '' @ [CHR 0x27] @ ''help'' @ [CHR 0x27] @ '' for available commands.'' @ crnl)"

lemma prints_help: "prints help_message (\<lambda>t. help_text)"
  unfolding help_message_def [abs_def] help_text_def by (intro prints_bind prints_lit) (simp_all add: crnl_def)

lemma prints_cstr: "is_cstr v s \<Longrightarrow> prints (uart_puts v) (\<lambda>t. concat (map crlf s))"
  by (simp add: prints_def uart_puts_outputs)

lemma prints_unknown: "is_cstr v s \<Longrightarrow> prints (unknown_message v) (\<lambda>t. unknown_text s)"
  unfolding unknown_message_def [abs_def] unknown_text_def
  by (intro prints_bind prints_lit prints_cstr) (simp_all add: crnl_def)

text \<open>Printing what the state says, step by step.\<close>

lemma performs_seq:
  assumes "performs P f (\<lambda>w. w) as" and "performs P g (\<lambda>w. w) bs"
  shows "performs P (\<lambda>w. f w \<bind> g) (\<lambda>w. w) (\<lambda>w. as w @ bs w)"
  by (rule performs_bind [OF assms])

lemma performs_lit:
  "0 \<notin> set (str s) \<Longrightarrow> length s < 2 ^ 64 \<Longrightarrow> performs (\<lambda>w. True) (uart_puts (lit s)) (\<lambda>w. w) (\<lambda>w. msg s)"
  by (rule performs_print [OF prints_lit])

lemma performs_hex:
  assumes "steady r"
  shows "performs (\<lambda>w. True) (\<lambda>w. uart_print_hex (r w) w) (\<lambda>w. w) (\<lambda>w. hex_prefix (uart_ty w) @ hex16 (r w))"
  by (rule performs_read [OF performs_print [OF prints_hex] assms])

lemma steady_csr: "steady READ_SSTATUS" "steady READ_STVEC" "steady READ_SIE"
  by (simp_all add: steady_def READ_SSTATUS_def READ_STVEC_def READ_SIE_def)

lemma info_performs:
  "performs (\<lambda>w. True) info_message (\<lambda>w. w) (\<lambda>w. info_text (READ_SSTATUS w) (READ_STVEC w) (uart_ty w))"
  unfolding info_message_def [abs_def] info_text_def
  by (intro performs_seq performs_lit performs_hex steady_csr) (simp_all add: crnl_def)

section \<open>Effects\<close>

text \<open>
  What a command does to the state, and what it prints.  \<open>P\<close> is the user program that \<open>run\<close> calls, \<open>None\<close> in
  sessions that do not run it.
\<close>

fun command_state :: "image \<Rightarrow> user_program option \<Rightarrow> entry \<Rightarrow> 'a trap_machine_scheme \<Rightarrow> 'a trap_machine_scheme" where
  "command_state img P (Cmd Test) w = w\<lparr>ram := basic_ram img (ram w)\<rparr>"
| "command_state img P (Cmd Exception) w = breakpoint_state w"
| "command_state img (Some p) (Cmd Run) w = program_state img p w"
| "command_state img P e w = w"

fun command_text :: "image \<Rightarrow> user_program option \<Rightarrow> entry \<Rightarrow> 'a trap_machine_scheme \<Rightarrow> u8 list" where
  "command_text img P (Cmd Help) w = help_text"
| "command_text img P (Cmd Info) w = info_text (READ_SSTATUS w) (READ_STVEC w) (uart_ty w)"
| "command_text img P (Cmd Mem) w = stats_text (heap w) (uart_ty w)"
| "command_text img P (Cmd Test) w = basic_text (uart_ty w)"
| "command_text img P (Cmd Fp) w = fp_text"
| "command_text img P (Cmd Syscall) w = syscalls_text (uart_ty w)"
| "command_text img P (Cmd Exception) w = exception_text img (trap_count w + 1)"
| "command_text img P (Cmd Quit) w = msg (''Entering idle loop. System will wait for interrupts.'' @ crnl)"
| "command_text img P (Cmd Reboot) w = msg (''Rebooting system...'' @ crnl)"
| "command_text img P (Cmd Run) w = (case P of None \<Rightarrow> [] | Some p \<Rightarrow> program_text img p w)"
| "command_text img P (Unknown s) w = unknown_text s"
| "command_text img P Blank w = []"

lemma command_state_eq:
  "command_state img P e w = (if e = Cmd Test then w\<lparr>ram := basic_ram img (ram w)\<rparr>
     else if e = Cmd Exception then breakpoint_state w
     else if e = Cmd Run then (case P of None \<Rightarrow> w | Some p \<Rightarrow> program_state img p w) else w)"
  by (induction img P e w rule: command_state.induct) simp_all

lemma neutral_command: "neutral (command_state img P e)"
proof -
  have "neutral (\<lambda>w. w\<lparr>ram := basic_ram img (ram w)\<rparr>)" by (rule neutralI) simp_all
  moreover have "neutral (\<lambda>w. case P of None \<Rightarrow> w | Some p \<Rightarrow> program_state img p w)"
    by (cases P) (simp_all add: neutral_id neutral_program)
  ultimately show ?thesis
    unfolding command_state_eq [abs_def] by (intro neutral_if steady_const neutral_id neutral_breakpoint)
qed

text \<open>
  What the tests rely on: the arrays they copy between do not overlap, and the literal that \<open>sys_puts\<close> gets
  is in memory, outside all of the arrays.
\<close>

definition tests_ok :: "image \<Rightarrow> bool" where
  "tests_ok img \<longleftrightarrow> 4 \<le> mem_dst_at img - mem_src_at img \<and> (\<forall>i < 9. \<not> in_arrays img (world_at img + of_nat i))"

definition shell_ok :: "image \<Rightarrow> 'a trap_machine_scheme \<Rightarrow> bool" where
  "shell_ok img w \<longleftrightarrow> tests_ok img \<and> breakpoint_ok w \<and> is_cstr (ram_ptr (ram w) (world_at img)) (str (''World!'' @ crnl))"

lemma shell_ok_live: "shell_ok img w \<Longrightarrow> uart_live w"
  by (simp add: shell_ok_def breakpoint_ok_def kernel_ok_def)

lemma shell_ok_io: "shell_ok img w \<Longrightarrow> uart_io k bs w w' \<Longrightarrow> shell_ok img w'"
  using breakpoint_ok_io [of w k bs w'] by (simp add: shell_ok_def uart_io_frame(3))

lemma breakpoint_ok_same:
  assumes "breakpoint_ok w" and "plat v = plat w" "uart_ty v = uart_ty w" "mmio_rd v = mmio_rd w"
    and "\<And>n. clock_at n v = clock_at n w" and "exception_handlers v = exception_handlers w"
    and "interrupt_handlers v = interrupt_handlers w" and "syscall_handlers v = syscall_handlers w"
  shows "breakpoint_ok v"
proof -
  have "handler_of v CAUSE_BREAKPOINT = handler_of w CAUSE_BREAKPOINT"
    unfolding handler_of_def exception_entry_def interrupt_entry_def assms(6,7) ..
  then show ?thesis
    using assms uart_live_cong [of v w] by (simp add: breakpoint_ok_def kernel_ok_def tables_wf_def)
qed

lemma is_cstr_cong: "is_cstr v s \<Longrightarrow> (\<And>i. i \<le> length s \<Longrightarrow> u (of_nat i) = v (of_nat i)) \<Longrightarrow> is_cstr u s"
  by (simp add: is_cstr_def)

lemma world_kept:
  assumes "is_cstr (ram_ptr m (world_at img)) (str (''World!'' @ crnl))"
    and "\<And>i. i < 9 \<Longrightarrow> m' (world_at img + of_nat i) = m (world_at img + of_nat i)"
  shows "is_cstr (ram_ptr m' (world_at img)) (str (''World!'' @ crnl))"
  by (rule is_cstr_cong [OF assms(1)]) (simp add: assms(2) ram_ptr_def crnl_def)

text \<open>
  What a session needs for \<open>k\<close> runs of the program \<open>P\<close>: a program that behaves, in memory the tests do not write to, below
  a heap with room for the stacks; the literal of the tests is in the memory that the program leaves alone.
\<close>

definition runs_ok :: "image \<Rightarrow> 'a trap_machine_scheme user_code \<Rightarrow> user_program \<Rightarrow> nat \<Rightarrow> 'a trap_machine_scheme \<Rightarrow> bool" where
  "runs_ok img user_main p k w \<longleftrightarrow> runs_as user_main p \<and> image_holds img p (ram w) \<and> stack_room p k (heap w) \<and>
     unat (world_at img) + 9 \<le> unat (prog_low p) \<and>
     (\<forall>i < unat (user_prog_size img). \<not> in_arrays img (user_prog_start img + of_nat i))"

definition session_ok :: "image \<Rightarrow> 'a trap_machine_scheme user_code \<Rightarrow> user_program option \<Rightarrow> nat \<Rightarrow> 'a trap_machine_scheme \<Rightarrow> bool" where
  "session_ok img user_main P k w \<longleftrightarrow> shell_ok img w \<and> (case P of None \<Rightarrow> True | Some p \<Rightarrow> runs_ok img user_main p k w)"

lemma session_ok_shell: "session_ok img user_main P k w \<Longrightarrow> shell_ok img w"
  by (simp add: session_ok_def)

lemma session_ok_io:
  assumes "session_ok img user_main P k w" and "uart_io n bs w w'"
  shows "session_ok img user_main P k w'"
proof -
  have "heap w' = heap w" "ram w' = ram w" using assms(2) by (auto simp: uart_io_def)
  then show ?thesis using assms(1) shell_ok_io [OF _ assms(2)] by (simp add: session_ok_def runs_ok_def split: option.splits)
qed

definition uses_run :: "entry \<Rightarrow> nat" where
  "uses_run e = (if e = Cmd Run then 1 else 0)"

lemma shell_ok_run:
  assumes "shell_ok img w" and "runs_ok img user_main p (Suc k) w"
  shows "shell_ok img (program_state img p w)"
proof -
  have b: "breakpoint_ok w" "is_cstr (ram_ptr (ram w) (world_at img)) (str (''World!'' @ crnl))" "tests_ok img"
    using assms(1) by (simp_all add: shell_ok_def)
  have r: "runs_as user_main p" "image_holds img p (ram w)" "stack_room p (Suc k) (heap w)" "unat (world_at img) + 9 \<le> unat (prog_low p)"
    using assms(2) by (simp_all add: runs_ok_def)
  have "unat (world_at img + of_nat i) = unat (world_at img) + i" if "i < 9" for i
    using add_less_no_wrap [of "world_at img" i] that r(4) unat_less_64 [of "prog_low p"] by simp
  then have "ram (program_state img p w) (world_at img + of_nat i) = ram w (world_at img + of_nat i)" if "i < 9" for i
    using program_state_kept(1) [OF r(1-3)] that r(4) by simp
  then have "is_cstr (ram_ptr (ram (program_state img p w)) (world_at img)) (str (''World!'' @ crnl))"
    by (rule world_kept [OF b(2)])
  moreover have "breakpoint_ok (program_state img p w)"
    by (rule breakpoint_ok_same [OF b(1)]) (simp_all add: program_state_def clock_at_def)
  ultimately show ?thesis using b(3) by (simp add: shell_ok_def)
qed

lemma shell_ok_command:
  assumes "shell_ok img w" and "e \<noteq> Cmd Run"
  shows "shell_ok img (command_state img P e w)"
proof -
  have b: "breakpoint_ok w" "is_cstr (ram_ptr (ram w) (world_at img)) (str (''World!'' @ crnl))" "tests_ok img"
    using assms by (simp_all add: shell_ok_def)
  have "breakpoint_ok (w\<lparr>ram := m\<rparr>)" for m by (rule breakpoint_ok_same [OF b(1)]) (simp_all add: clock_at_def)
  moreover have "breakpoint_ok (breakpoint_state w)"
    by (rule breakpoint_ok_same [OF b(1)]) (simp_all add: clock_at_def breakpoint_state_def)
  moreover have "is_cstr (ram_ptr (basic_ram img (ram w)) (world_at img)) (str (''World!'' @ crnl))"
    using b(3) basic_ram_same by (intro world_kept [OF b(2)]) (simp add: tests_ok_def)
  ultimately show ?thesis
    using b assms(2) by (auto simp: command_state_eq shell_ok_def breakpoint_state_def)
qed

lemma session_ok_command:
  assumes ok: "session_ok img user_main P (uses_run e + k) w" and e: "e = Cmd Run \<Longrightarrow> P \<noteq> None"
  shows "session_ok img user_main P k (command_state img P e w)"
proof (cases P)
  case None
  then show ?thesis using assms shell_ok_command [of img w e P] by (auto simp: session_ok_def)
next
  case (Some p)
  have w: "shell_ok img w" "runs_ok img user_main p (uses_run e + k) w" using ok Some by (simp_all add: session_ok_def)
  show ?thesis
  proof (cases "e = Cmd Run")
    case True
    then have r: "runs_ok img user_main p (Suc k) w" using w(2) by (simp add: uses_run_def)
    then have "runs_ok img user_main p k (program_state img p w)"
      using program_state_kept [of user_main p img w k] by (simp add: runs_ok_def)
    then show ?thesis
      using shell_ok_run [OF w(1) r] Some True by (simp add: session_ok_def)
  next
    case False
    have r: "image_holds img p (ram w)" "\<And>i. i < unat (user_prog_size img) \<Longrightarrow> \<not> in_arrays img (user_prog_start img + of_nat i)"
      using w(2) by (simp_all add: runs_ok_def)
    have "bytes_at (basic_ram img (ram w)) (user_prog_start img) (unat (user_prog_size img)) =
        bytes_at (ram w) (user_prog_start img) (unat (user_prog_size img))"
      unfolding bytes_at_def by (rule map_cong [OF refl]) (simp add: basic_ram_same r(2))
    then have "image_holds img p (basic_ram img (ram w))" using r(1) by (simp add: image_holds_def)
    then have "runs_ok img user_main p k (command_state img P e w)"
      using w(2) False by (auto simp: command_state_eq runs_ok_def uses_run_def breakpoint_state_def)
    then show ?thesis using shell_ok_command [OF w(1) False] Some by (simp add: session_ok_def)
  qed
qed

lemma then_continue_finished [simp]: "then_continue (finished (Some w)) = Some (Done 1, w)"
  by (simp add: then_continue_def finished_def)

lemma runs_outputs:
  assumes "runs f (heap w) (ram w) h m bs" and "uart_live w"
  shows "\<exists>w'. then_continue (finished (f w)) = Some (Done 1, w') \<and> uart_io 0 (bs (uart_ty w)) (w\<lparr>heap := h, ram := m\<rparr>) w'"
  using assms by (auto elim!: runsE)

lemma prints_continues:
  assumes "prints f bs" and "uart_live w"
  shows "\<exists>w'. then_continue (finished (f w)) = Some (Done 1, w') \<and> uart_io 0 (bs (uart_ty w)) w w'"
  using assms by (auto elim!: printsE)

definition command_result :: "user_program option \<Rightarrow> command \<Rightarrow> int run" where
  "command_result P c = (if c = Quit then Done 0 else if c = Reboot then Restarted
     else if c = Run \<and> (\<exists>p. P = Some p \<and> prog_halts p) then Stopped else Done 1)"

lemma prints_leaving:
  "prints (uart_puts (lit (''Rebooting system...'' @ crnl))) (\<lambda>t. msg (''Rebooting system...'' @ crnl))"
  "prints (uart_puts (lit (''Entering idle loop. System will wait for interrupts.'' @ crnl)))
     (\<lambda>t. msg (''Entering idle loop. System will wait for interrupts.'' @ crnl))"
  by (rule prints_lit; simp add: crnl_def)+

lemma run_command_effect:
  assumes ok: "session_ok img user_main P (uses_run (Cmd c) + k) w" and c: "c = Run \<Longrightarrow> P \<noteq> None"
  shows "\<exists>w'. run_command img user_main c w = Some (command_result P c, w') \<and>
    uart_io 0 (command_text img P (Cmd c) w) (command_state img P (Cmd c) w) w'"
proof (cases c)
  have shell: "shell_ok img w" using ok by (rule session_ok_shell)
  note live = shell_ok_live [OF shell]
  {
    case Help
    then show ?thesis using prints_continues [OF prints_help live] by (simp add: run_command.simps command_result_def)
  next
    case Info
    obtain w' where "info_message w = Some w'" "uart_io 0 (info_text (READ_SSTATUS w) (READ_STVEC w) (uart_ty w)) w w'"
      using performsE [OF info_performs live] by blast
    then show ?thesis using Info by (simp add: run_command.simps command_result_def)
  next
    case Mem
    then show ?thesis using runs_outputs [OF runs_stats live] by (simp add: run_command.simps command_result_def)
  next
    case Test
    have "4 \<le> mem_dst_at img - mem_src_at img" using shell by (simp add: shell_ok_def tests_ok_def)
    then show ?thesis using runs_outputs [OF test_basic_runs live] Test by (simp add: run_command.simps command_result_def)
  next
    case Fp
    then show ?thesis using prints_continues [OF prints_floating_point live] by (simp add: run_command.simps command_result_def)
  next
    case Syscall
    have "is_cstr (ram_ptr (ram w) (world_at img)) (str (''World!'' @ crnl))" using shell by (simp add: shell_ok_def)
    from runs_outputs [OF test_syscalls_runs [OF this] live] show ?thesis using Syscall by (simp add: run_command.simps command_result_def)
  next
    case Exception
    have "breakpoint_ok w" using shell by (simp add: shell_ok_def)
    then obtain w' where "test_exception_handling img w = Some (Done (), w')"
        "uart_io 0 (exception_text img (trap_count w + 1)) (breakpoint_state w) w'"
      using test_exception_returns [of w img] by blast
    then show ?thesis using Exception by (simp add: run_command.simps command_result_def then_continue_def)
  next
    case Quit
    then show ?thesis using live by (auto simp: run_command.simps command_result_def elim!: printsE [OF prints_leaving(2)])
  next
    case Reboot
    then show ?thesis using live by (auto simp: run_command.simps command_result_def elim!: printsE [OF prints_leaving(1)])
  next
    case Run
    obtain p where p: "P = Some p" using c [OF Run] by auto
    have r: "runs_as user_main p" "image_holds img p (ram w)" "stack_room p (Suc k) (heap w)"
      using ok p Run by (simp_all add: session_ok_def runs_ok_def uses_run_def)
    obtain w' where "run_user_prog img user_main w = Some (if prog_halts p then Stopped else Done (), w')"
        "uart_io 0 (program_text img p w) (program_state img p w) w'"
      using run_user_prog_effect [OF live r] by blast
    then show ?thesis using Run p by (simp add: run_command.simps command_result_def then_continue_def)
  }
qed

text \<open>The same for a typed line.\<close>

definition entry_result :: "user_program option \<Rightarrow> entry \<Rightarrow> int run" where
  "entry_result P e = (case e of Cmd c \<Rightarrow> command_result P c | _ \<Rightarrow> Done 1)"

lemma process_entry:
  assumes cmd: "is_cstr cmd (typed_command line)" and ok: "session_ok img user_main P (uses_run (entry_of line) + k) w"
    and e: "entry_of line = Cmd Run \<Longrightarrow> P \<noteq> None"
  shows "\<exists>w'. process_command img user_main cmd w = Some (entry_result P (entry_of line), w') \<and>
    uart_io 0 (command_text img P (entry_of line) w) (command_state img P (entry_of line) w) w'"
proof (cases "lookup_command (typed_command line)")
  case (Some c)
  then have "entry_of line = Cmd c" by (simp add: entry_of_def)
  then show ?thesis
    using run_command_effect [of img user_main P c k w] ok e Some
    by (simp add: process_command_table [OF cmd] entry_result_def)
next
  case None
  show ?thesis
  proof (cases "typed_command line = []")
    case True
    then have "entry_of line = Blank" using None by (simp add: entry_of_def)
    then show ?thesis
      using None True uart_io_refl by (auto simp: process_command_table [OF cmd] entry_result_def)
  next
    case False
    then have "entry_of line = Unknown (typed_command line)" using None by (simp add: entry_of_def Let_def)
    then show ?thesis
      using None False prints_continues [OF prints_unknown [OF cmd] shell_ok_live [OF session_ok_shell [OF ok]]]
      by (simp add: process_command_table [OF cmd] entry_result_def)
  qed
qed

section \<open>A session\<close>

lemma steady_command: "steady (command_text img P e)"
  unfolding steady_def
proof (intro allI)
  fix w :: "'a trap_machine_scheme" and c l
  show "command_text img P e (w\<lparr>mmio_cnt := c, mmio_log := l\<rparr>) = command_text img P e w"
    by (induction img P e w rule: command_text.induct) (simp_all add: READ_SSTATUS_def READ_STVEC_def program_text_def started_ram_def split: option.split)
qed

lemma line_read:
  assumes live: "uart_live w" "rx_live w" and buf: "length buf = 128"
    and line: "edit_line (line_end (uart_ty w)) 127 [] cs = Some (line, echo, length cs)"
    and input: "\<forall>j < length cs. rx_input w j = cs ! j"
  shows "\<exists>buf' buf1 w'. uart_gets buf 128 w = Some (buf1, int (length line), w') \<and>
    trim_line buf1 (int (length line)) = Some buf' \<and> length buf' = 128 \<and> length buf1 = 128 \<and>
    is_cstr (obj buf') (typed_command line) \<and>
    uart_io (length cs) (concat (map (char_text (uart_ty w)) echo)) w w'"
proof -
  have len: "length line \<le> 127" using edit_line_length [OF line] by simp
  have enc: "uart_enc w = char_text (uart_ty w)" by (simp add: uart_enc_def char_text_def fun_eq_iff)
  have "\<exists>buf1 w'. uart_gets buf 128 w = Some (buf1, s32 (int (length line)), w') \<and>
    length buf1 = length buf \<and> take (length line) buf1 = line \<and> buf1 ! length line = 0 \<and>
    uart_io (length cs) (concat (map (uart_enc w) echo)) w w'"
    by (rule uart_gets_line [OF live _ _ _ input]) (use buf line in simp_all)
  then obtain buf1 w' where r: "uart_gets buf 128 w = Some (buf1, int (length line), w')"
      "length buf1 = 128" "take (length line) buf1 = line" "buf1 ! length line = 0"
      "uart_io (length cs) (concat (map (char_text (uart_ty w)) echo)) w w'"
    using len buf by (auto simp: s32_id enc)
  then show ?thesis using line_in_buffer [of line buf1] len by auto
qed

lemma prints_prompt: "prints (uart_puts (lit ''testos> '')) (\<lambda>t. msg ''testos> '')"
  and prints_crnl: "prints (uart_puts (lit crnl)) (\<lambda>t. msg crnl)"
  by (rule prints_lit; simp add: crnl_def)+

definition turn_text :: "image \<Rightarrow> user_program option \<Rightarrow> u8 list \<times> u8 list \<Rightarrow> 'a trap_machine_scheme \<Rightarrow> u8 list" where
  "turn_text img P le w = msg ''testos> '' @ concat (map (char_text (uart_ty w)) (snd le)) @ command_text img P (entry_of (fst le)) w"

text \<open>The commands that leave the shell, and how: \<open>quit\<close>, \<open>reboot\<close>, and \<open>run\<close> of a program that does not return.\<close>

definition leaves :: "user_program option \<Rightarrow> entry \<Rightarrow> bool" where
  "leaves P e \<longleftrightarrow> e = Cmd Quit \<or> e = Cmd Reboot \<or> (e = Cmd Run \<and> (\<exists>p. P = Some p \<and> prog_halts p))"

definition shell_exit :: "command \<Rightarrow> unit run" where
  "shell_exit c = (if c = Reboot then Restarted else if c = Run then Stopped else Done ())"

definition exit_of :: "entry \<Rightarrow> unit run" where
  "exit_of e = (case e of Cmd c \<Rightarrow> shell_exit c | _ \<Rightarrow> Done ())"

lemma entry_result_case:
  "(case entry_result P e of Stopped \<Rightarrow> B Stopped | Restarted \<Rightarrow> B Restarted | Done n \<Rightarrow> if n = 0 then B (Done ()) else C) =
     (if leaves P e then B (exit_of e) else C)"
  by (cases e) (auto simp: entry_result_def command_result_def leaves_def exit_of_def shell_exit_def)

text \<open>One turn of the loop.\<close>

lemma shell_reads_line:
  assumes ok: "session_ok img user_main P k w" and rx: "rx_live w" and buf: "length buf = 128"
    and line: "edit_line (line_end (uart_ty w)) 127 [] cs = Some (line, echo, length cs)"
    and input: "\<forall>j < length cs. rx_input w j = cs ! j"
  obtains w1 buf1 buf' w2 where "uart_puts (lit ''testos> '') w = Some w1"
    "uart_gets buf 128 w1 = Some (buf1, int (length line), w2)" "trim_line buf1 (int (length line)) = Some buf'"
    "length buf' = 128" "length buf1 = 128" "is_cstr (obj buf') (typed_command line)" "session_ok img user_main P k w2"
    "uart_io (length cs) (msg ''testos> '' @ concat (map (char_text (uart_ty w)) echo)) w w2"
proof -
  obtain w1 where w1: "uart_puts (lit ''testos> '') w = Some w1" "uart_io 0 (msg ''testos> '') w w1"
    using prints_prompt shell_ok_live [OF session_ok_shell [OF ok]] by (rule printsE)
  have ok1: "session_ok img user_main P k w1" and rx1: "rx_live w1" using session_ok_io [OF ok w1(2)] rx_live_io [OF rx w1(2)] by auto
  have ty: "uart_ty w1 = uart_ty w" using uart_io_frame [OF w1(2)] by simp
  have line1: "edit_line (line_end (uart_ty w1)) 127 [] cs = Some (line, echo, length cs)" using line ty by simp
  have input1: "\<forall>j < length cs. rx_input w1 j = cs ! j" using input rx_input_io [OF w1(2)] by simp
  obtain buf1 buf' w2 where g: "uart_gets buf 128 w1 = Some (buf1, int (length line), w2)"
      "trim_line buf1 (int (length line)) = Some buf'" "length buf' = 128" "length buf1 = 128" "is_cstr (obj buf') (typed_command line)"
      "uart_io (length cs) (concat (map (char_text (uart_ty w)) echo)) w1 w2"
    using line_read [OF shell_ok_live [OF session_ok_shell [OF ok1]] rx1 buf line1 input1] unfolding ty by blast
  show ?thesis
    using that [OF w1(1) g(1-5) session_ok_io [OF ok1 g(6)]] uart_io_trans [OF w1(2) g(6)] by simp
qed

lemma shell_turn:
  assumes ok: "session_ok img user_main P (uses_run (entry_of line) + k) w" and rx: "rx_live w" and buf: "length buf = 128"
    and line: "edit_line (line_end (uart_ty w)) 127 [] cs = Some (line, echo, length cs)"
    and input: "\<forall>j < length cs. rx_input w j = cs ! j"
    and e: "entry_of line = Cmd Run \<Longrightarrow> P \<noteq> None"
  shows "\<exists>buf' w'. length buf' = 128 \<and>
    uart_io (length cs) (turn_text img P (line, echo) w) (command_state img P (entry_of line) w) w' \<and>
    shell_loop img user_main buf w = (if leaves P (entry_of line)
      then Some (exit_of (entry_of line), w')
      else do { w \<leftarrow> uart_puts (lit crnl) w'; shell_loop img user_main buf' w })"
proof -
  let ?e = "entry_of line" and ?echo = "concat (map (char_text (uart_ty w)) echo)"
  obtain w1 buf1 buf' w2 where g: "uart_puts (lit ''testos> '') w = Some w1"
      "uart_gets buf 128 w1 = Some (buf1, int (length line), w2)" "trim_line buf1 (int (length line)) = Some buf'"
      "length buf' = 128" "length buf1 = 128" "is_cstr (obj buf') (typed_command line)" "session_ok img user_main P (uses_run ?e + k) w2"
      and io2: "uart_io (length cs) (msg ''testos> '' @ ?echo) w w2"
    using ok rx buf line input by (rule shell_reads_line)
  have same: "command_text img P ?e w2 = command_text img P ?e w" by (rule steady_io [OF steady_command io2])
  show ?thesis
  proof (cases "line = []")
    case True
    then have "?e = Blank" by (simp add: entry_of_def typed_command_def trim_end_def lookup_command_chain)
    moreover have "shell_loop img user_main buf w = do { w \<leftarrow> uart_puts (lit crnl) w2; shell_loop img user_main buf1 w }"
      using g(1,2) True by (subst shell_loop.simps) simp
    ultimately show ?thesis
      using io2 g(5) by (intro exI [of _ buf1] exI [of _ w2]) (simp add: turn_text_def leaves_def)
  next
    case False
    obtain w3 where w3: "process_command img user_main (obj buf') w2 = Some (entry_result P ?e, w3)"
        "uart_io 0 (command_text img P ?e w) (command_state img P ?e w2) w3"
      using process_entry [OF g(6,7) e] same by auto
    have "uart_io (length cs + 0) ((msg ''testos> '' @ ?echo) @ command_text img P ?e w) (command_state img P ?e w) w3"
      by (rule uart_io_trans [OF neutral_io [OF neutral_command io2] w3(2)])
    then have io: "uart_io (length cs) (turn_text img P (line, echo) w) (command_state img P ?e w) w3" by (simp add: turn_text_def)
    have "shell_loop img user_main buf w = (case entry_result P ?e of Stopped \<Rightarrow> Some (Stopped, w3)
        | Restarted \<Rightarrow> Some (Restarted, w3)
        | Done n \<Rightarrow> if n = 0 then Some (Done (), w3) else do { w \<leftarrow> uart_puts (lit crnl) w3; shell_loop img user_main buf' w })"
      using g(1-3) w3(1) False by (subst shell_loop.simps) simp
    also have "\<dots> = (if leaves P ?e then Some (exit_of ?e, w3)
        else do { w \<leftarrow> uart_puts (lit crnl) w3; shell_loop img user_main buf' w })"
      by (rule entry_result_case [where B = "\<lambda>r. Some (r, w3)"])
    finally have "shell_loop img user_main buf w = (if leaves P ?e then Some (exit_of ?e, w3)
        else do { w \<leftarrow> uart_puts (lit crnl) w3; shell_loop img user_main buf' w })" .
    then show ?thesis using g(4) io by blast
  qed
qed

fun session_text :: "image \<Rightarrow> user_program option \<Rightarrow> (u8 list \<times> u8 list) list \<Rightarrow> 'a trap_machine_scheme \<Rightarrow> u8 list" where
  "session_text img P [] w = []"
| "session_text img P (le # ls) w = turn_text img P le w @ (if leaves P (entry_of (fst le)) then []
     else msg crnl @ session_text img P ls (command_state img P (entry_of (fst le)) w))"

fun session_state :: "image \<Rightarrow> user_program option \<Rightarrow> (u8 list \<times> u8 list) list \<Rightarrow> 'a trap_machine_scheme \<Rightarrow> 'a trap_machine_scheme" where
  "session_state img P [] w = w"
| "session_state img P (le # ls) w = session_state img P ls (command_state img P (entry_of (fst le)) w)"

text \<open>Lines up to the first that leaves the shell, which is the command \<open>c\<close>, and how many of them run the user program.\<close>

fun ends_in :: "user_program option \<Rightarrow> command \<Rightarrow> (u8 list \<times> u8 list) list \<Rightarrow> bool" where
  "ends_in P c [] = False"
| "ends_in P c (le # ls) = (if leaves P (entry_of (fst le)) then entry_of (fst le) = Cmd c \<and> ls = []
     else (entry_of (fst le) = Cmd Run \<longrightarrow> P \<noteq> None) \<and> ends_in P c ls)"

fun run_count :: "(u8 list \<times> u8 list) list \<Rightarrow> nat" where
  "run_count [] = 0"
| "run_count (le # ls) = uses_run (entry_of (fst le)) + run_count ls"

text \<open>The keys \<open>cs\<close> complete the line \<open>le\<close> (its text and its echo).\<close>

definition types :: "uart_type \<Rightarrow> u8 list \<Rightarrow> u8 list \<times> u8 list \<Rightarrow> bool" where
  "types ty cs le \<longleftrightarrow> edit_line (line_end ty) 127 [] cs = Some (fst le, snd le, length cs)"

lemma neutral_session: "neutral (session_state img P ls)"
proof (induction ls)
  case (Cons le ls)
  have "session_state img P (le # ls) = (\<lambda>w. session_state img P ls (command_state img P (entry_of (fst le)) w))" by (rule ext) simp
  then show ?case using neutral_comp [OF neutral_command Cons.IH] by simp
qed (simp add: neutral_def)

lemma steady_session: "steady (session_text img P ls)"
proof (induction ls)
  case (Cons le ls)
  have turn: "steady (turn_text img P le)" using steady_command unfolding turn_text_def steady_def by simp
  have "session_text img P (le # ls) = (\<lambda>w. turn_text img P le w @ (if leaves P (entry_of (fst le)) then []
     else msg crnl @ session_text img P ls (command_state img P (entry_of (fst le)) w)))" by (rule ext) simp
  then show ?case
    using steady_pair [OF turn steady_neutral [OF neutral_command Cons.IH]] by simp
qed (simp add: steady_def)

lemma neutral_ty: "neutral u \<Longrightarrow> uart_ty (u w) = uart_ty w"
  by (simp add: neutral_def)

lemma neutral_rx: "neutral u \<Longrightarrow> rx_live (u w) = rx_live w" "neutral u \<Longrightarrow> rx_input (u w) j = rx_input w j"
  by (simp_all add: neutral_def rx_live_def rx_input_def uart_status_def uart_data_def cong: uart_type.case_cong)

lemma turn_newline:
  assumes ok: "session_ok img user_main P (uses_run e + k) w" and e: "e = Cmd Run \<Longrightarrow> P \<noteq> None" and rx: "rx_live w"
    and io: "uart_io (length cs) text (command_state img P e w) w'"
    and input: "\<forall>j < length (cs @ ds). rx_input w j = (cs @ ds) ! j"
  obtains w2 where "uart_puts (lit crnl) w' = Some w2" "uart_io (length cs) (text @ msg crnl) (command_state img P e w) w2"
    "session_ok img user_main P k w2" "rx_live w2" "uart_ty w2 = uart_ty w" "\<forall>j < length ds. rx_input w2 j = ds ! j"
proof -
  have ok': "session_ok img user_main P k w'" by (rule session_ok_io [OF session_ok_command [OF ok e] io])
  from prints_crnl shell_ok_live [OF session_ok_shell [OF ok']] obtain w2 where w2: "uart_puts (lit crnl) w' = Some w2" "uart_io 0 (msg crnl) w' w2"
    by (rule printsE)
  have io2: "uart_io (length cs) (text @ msg crnl) (command_state img P e w) w2" using uart_io_trans [OF io w2(2)] by simp
  have "rx_live w2" using rx_live_io [OF _ io2] rx neutral_rx(1) [OF neutral_command] by blast
  moreover have "rx_input w2 j = ds ! j" if "j < length ds" for j
    using that input [rule_format, of "length cs + j"] rx_input_io [OF io2, of j]
      neutral_rx(2) [OF neutral_command [of img P e], of w "length cs + j"]
    by simp
  moreover have "uart_ty w2 = uart_ty w" using uart_io_frame(2) [OF io2] neutral_ty [OF neutral_command, of img P e w] by simp
  ultimately show ?thesis using that w2(1) io2 session_ok_io [OF ok' w2(2)] by blast
qed

lemma session_runs:
  assumes "list_all2 (types (uart_ty w)) css ls" and "ends_in P c ls" and "session_ok img user_main P (run_count ls) w" and "rx_live w"
    and "length buf = 128" and "\<forall>j < length (concat css). rx_input w j = concat css ! j"
  shows "\<exists>w'. shell_loop img user_main buf w = Some (shell_exit c, w') \<and>
    uart_io (length (concat css)) (session_text img P ls w) (session_state img P ls w) w'"
  using assms
proof (induction ls arbitrary: css buf w rule: list.induct)
  case (Cons le ls)
  obtain cs css' where css: "css = cs # css'" and cs: "types (uart_ty w) cs le" and rest: "list_all2 (types (uart_ty w)) css' ls"
    using Cons.prems(1) by (auto simp: list_all2_Cons2)
  let ?e = "entry_of (fst le)"
  have e: "?e = Cmd Run \<Longrightarrow> P \<noteq> None" using Cons.prems(2) by (auto simp: leaves_def split: if_splits)
  have ok: "session_ok img user_main P (uses_run ?e + run_count ls) w" using Cons.prems(3) by simp
  have line: "edit_line (line_end (uart_ty w)) 127 [] cs = Some (fst le, snd le, length cs)" using cs by (simp add: types_def)
  have input: "\<forall>j < length cs. rx_input w j = cs ! j" using Cons.prems(6) by (simp add: css nth_append)
  obtain buf' w' where t: "length buf' = 128" "uart_io (length cs) (turn_text img P le w) (command_state img P ?e w) w'"
      "shell_loop img user_main buf w = (if leaves P ?e then Some (exit_of ?e, w')
         else do { w \<leftarrow> uart_puts (lit crnl) w'; shell_loop img user_main buf' w })"
    using shell_turn [OF ok Cons.prems(4,5) line input e] by auto
  show ?case
  proof (cases "leaves P ?e")
    case True
    then have "ls = []" "?e = Cmd c" "exit_of ?e = shell_exit c"
      using Cons.prems(2) by (auto simp: exit_of_def)
    then show ?thesis using t True rest by (auto simp: css)
  next
    case False
    let ?u = "command_state img P ?e w"
    have "\<forall>j < length (cs @ concat css'). rx_input w j = (cs @ concat css') ! j" using Cons.prems(6) by (simp add: css)
    with ok e Cons.prems(4) t(2) obtain w2 where w2: "uart_puts (lit crnl) w' = Some w2"
      "session_ok img user_main P (run_count ls) w2" "rx_live w2" "uart_ty w2 = uart_ty w" "\<forall>j < length (concat css'). rx_input w2 j = concat css' ! j"
      and io: "uart_io (length cs) (turn_text img P le w @ msg crnl) ?u w2"
      by (rule turn_newline)
    have "ends_in P c ls" using Cons.prems(2) False by (simp split: if_splits)
    then obtain w3 where w3: "shell_loop img user_main buf' w2 = Some (shell_exit c, w3)"
        "uart_io (length (concat css')) (session_text img P ls w2) (session_state img P ls w2) w3"
      using Cons.IH [OF _ _ w2(2,3) t(1), of css'] rest w2(4,5) by auto
    have same: "session_text img P ls w2 = session_text img P ls ?u" by (rule steady_io [OF steady_session io])
    have "uart_io (length cs + length (concat css')) ((turn_text img P le w @ msg crnl) @ session_text img P ls w2)
        (session_state img P ls ?u) w3"
      by (rule uart_io_trans [OF neutral_io [OF neutral_session io] w3(2)])
    then show ?thesis using t(3) False w2(1) w3(1) same by (auto simp: css)
  qed
qed simp

definition banner_text :: "u8 list" where
  "banner_text = msg crnl @ msg (''========================================'' @ crnl) @
     msg (''     RISC-V testos Interactive Shell   '' @ crnl) @ msg (''========================================'' @ crnl) @
     msg (''Type '' @ [CHR 0x27] @ ''help'' @ [CHR 0x27] @ '' for available commands.'' @ crnl @ crnl)"

lemma interactive_shell_banner:
  assumes "uart_live w"
  shows "\<exists>w1. uart_io 0 banner_text w w1 \<and> interactive_shell img user_main buf w = shell_loop img user_main buf w1"
proof -
  have "prints (\<lambda>w. uart_puts (lit crnl) w \<bind> (\<lambda>w. uart_puts (lit (''========================================'' @ crnl)) w \<bind>
      (\<lambda>w. uart_puts (lit (''     RISC-V testos Interactive Shell   '' @ crnl)) w \<bind>
      (\<lambda>w. uart_puts (lit (''========================================'' @ crnl)) w \<bind>
      uart_puts (lit (''Type '' @ [CHR 0x27] @ ''help'' @ [CHR 0x27] @ '' for available commands.'' @ crnl @ crnl))))))
      (\<lambda>t. banner_text)"
    unfolding banner_text_def by (intro prints_bind prints_lit) (simp_all add: crnl_def)
  then show ?thesis
    using assms unfolding interactive_shell_def bind_assoc_option by (rule printsE) (simp, blast)
qed

lemma session_from_banner:
  assumes "list_all2 (types (uart_ty w)) css ls" and "ends_in P c ls" and "session_ok img user_main P (run_count ls) w" and "rx_live w"
    and "length buf = 128" and "\<forall>j < length (concat css). rx_input w j = concat css ! j"
  shows "\<exists>w'. interactive_shell img user_main buf w = Some (shell_exit c, w') \<and>
    uart_io (length (concat css)) (banner_text @ session_text img P ls w) (session_state img P ls w) w'"
proof -
  obtain w1 where w1: "uart_io 0 banner_text w w1"
      "interactive_shell img user_main buf w = shell_loop img user_main buf w1"
    using interactive_shell_banner [OF shell_ok_live [OF session_ok_shell [OF assms(3)]]] by blast
  have same: "uart_ty w1 = uart_ty w" "session_text img P ls w1 = session_text img P ls w"
    using uart_io_frame(2) [OF w1(1)] steady_io [OF steady_session w1(1)] by auto
  have "\<exists>w'. shell_loop img user_main buf w1 = Some (shell_exit c, w') \<and>
      uart_io (length (concat css)) (session_text img P ls w1) (session_state img P ls w1) w'"
    using assms(1,2,5,6) same(1) rx_input_io [OF w1(1)]
    by (intro session_runs session_ok_io [OF assms(3) w1(1)] rx_live_io [OF assms(4) w1(1)]) simp_all
  then show ?thesis
    using uart_io_trans [OF neutral_io [OF neutral_session w1(1)]] w1(2) same(2) by fastforce
qed

section \<open>Properties\<close>

text \<open>
  C14.  \<open>process_command\<close> is the command table: a string in it runs its command, the empty string does
  nothing, and any other string gets the message for unknown commands.
\<close>

theorem process_command_dispatch:
  assumes "is_cstr cmd s"
  shows "process_command img user_main cmd w = (case lookup_command s of
      Some c \<Rightarrow> run_command img user_main c w
    | None \<Rightarrow> if s = [] then Some (Done 1, w) else then_continue (finished (unknown_message cmd w)))"
  using assms by (rule process_command_table)

theorem process_command_dispatch_witness:
  "process_command demo_image exit_code (lit ''float'') demo_trap_machine =
     run_command demo_image exit_code Fp demo_trap_machine \<and>
   process_command demo_image exit_code (lit ''floa'') demo_trap_machine =
     then_continue (finished (unknown_message (lit ''floa'') demo_trap_machine))"
proof
  have "lookup_command (str ''float'') = Some Fp" "lookup_command (str ''floa'') = None"
    unfolding lookup_command_chain by simp_all
  then show "process_command demo_image exit_code (lit ''float'') demo_trap_machine =
     run_command demo_image exit_code Fp demo_trap_machine"
    "process_command demo_image exit_code (lit ''floa'') demo_trap_machine =
     then_continue (finished (unknown_message (lit ''floa'') demo_trap_machine))"
    using process_command_dispatch [OF is_cstr_lit, of "''float''" demo_image exit_code demo_trap_machine]
      process_command_dispatch [OF is_cstr_lit, of "''floa''" demo_image exit_code demo_trap_machine] by simp_all
qed

text \<open>
  C5.  A session: if what is typed completes the lines \<open>ls\<close>, the last of which (and only that) is the command \<open>c\<close>
  that leaves the shell, \<open>quit\<close>, \<open>reboot\<close> or \<open>run\<close> of a program that does not return, then the shell ends the way \<open>c\<close> says after
  exactly this input, having sent the banner and for every line the prompt, the echo and the text of its command
  (lines of blanks do nothing, unknown commands get a message), with every command started in the state the
  commands before it left.  Lines may run the user program \<open>P\<close> as often as there is heap for its stacks.
\<close>

theorem shell_session:
  assumes "list_all2 (types (uart_ty w)) css ls" and "ends_in P c ls" and "session_ok img user_main P (run_count ls) w" and "rx_live w"
    and "length buf = 128" and "\<forall>j < length (concat css). rx_input w j = concat css ! j"
  shows "\<exists>w'. interactive_shell img user_main buf w = Some (shell_exit c, w') \<and>
    uart_io (length (concat css)) (banner_text @ session_text img P ls w) (session_state img P ls w) w'"
  using assms by (rule session_from_banner)

text \<open>The kernel with keys waiting at the console.\<close>

definition demo_shell_machine :: "u8 list \<Rightarrow> trap_machine" where
  "demo_shell_machine keys = demo_trap_machine\<lparr>ram := put_str (world_at demo_image) (str (''World!'' @ crnl)) (ram demo_trap_machine),
     mmio_rd := (\<lambda>a k. if a = UART_BASE PLATFORM_QEMU then (if k < length keys then ucast (keys ! k) else 0) else 0x61)\<rparr>"

lemma demo_shell_facts:
  "shell_ok demo_image (demo_shell_machine keys)" "rx_live (demo_shell_machine keys)"
  "uart_ty (demo_shell_machine keys) = UART_TYPE_DW" "trap_count (demo_shell_machine keys) = 0"
  "\<forall>j < length keys. rx_input (demo_shell_machine keys) j = keys ! j"
proof -
  let ?w = "demo_shell_machine keys"
  have p: "plat ?w = PLATFORM_QEMU" "uart_ty ?w = UART_TYPE_DW" "mmio_cnt ?w a = 0" "trap_count ?w = 0" for a
    by (simp_all add: demo_shell_machine_def demo_trap_eq trap_boot_def demo_timer_machine_def timer_boot_def
        demo_heap_machine_def ready_machine_def timer_machine.defs trap_machine.defs heap_machine.defs)
  then show "uart_ty ?w = UART_TYPE_DW" "trap_count ?w = 0" by simp_all
  have s: "uart_status ?w = 0x10000005" "uart_data ?w = 0x10000000"
    using p by (simp_all add: uart_status_def uart_data_def DW_UART_LSR_def UART_REG_SHIFT_def)
  show "rx_live ?w" by (auto simp: rx_live_def s p rx_ok_def) (auto simp: demo_shell_machine_def)
  have live: "uart_live ?w" by (auto simp: uart_live_def tx_live_def s p tx_ok_def) (auto simp: demo_shell_machine_def)
  show "\<forall>j < length keys. rx_input ?w j = keys ! j" by (simp add: rx_input_def s p) (simp add: demo_shell_machine_def)
  have h: "handler_of ?w CAUSE_BREAKPOINT = handler_of demo_trap_machine 3"
    by (simp add: handler_of_def exception_entry_def interrupt_entry_def demo_shell_machine_def cause_defs Let_def)
  have "kernel_ok ?w"
    using demo_trap_ok(1) live by (simp add: kernel_ok_def tables_wf_def clock_at_def) (simp add: demo_shell_machine_def)
  then have "breakpoint_ok ?w" using h demo_trap_entries by (simp add: breakpoint_ok_def)
  moreover have "\<not> in_arrays demo_image (world_at demo_image + of_nat i)" if "i < 9" for i
  proof -
    have i: "unat (of_nat i :: u64) = i" using that by (simp add: unat_of_nat_64)
    then show ?thesis using that by (simp add: in_arrays_def demo_image_def unat_sub_if')
  qed
  then have "tests_ok demo_image" by (simp add: tests_ok_def) (simp add: demo_image_def)
  moreover have "is_cstr (ram_ptr (ram ?w) (world_at demo_image)) (str (''World!'' @ crnl))"
    unfolding demo_shell_machine_def by (simp del: str_simps) (rule put_str_cstr; simp add: crnl_def)
  ultimately show "shell_ok demo_image ?w" by (simp add: shell_ok_def)
qed

lemma demo_outside_arrays: "i < 4096 \<Longrightarrow> \<not> in_arrays demo_image (0x80208000 + of_nat i)"
  using unat_of_nat_64 [of i] by (simp add: in_arrays_def demo_image_def unat_sub_if' unat_word_ariths)

lemma demo_world_ram: "i < 4096 \<Longrightarrow> put_str (world_at demo_image) (str (''World!'' @ crnl)) (\<lambda>a. 0) (0x80208000 + of_nat i) = 0"
  using unat_of_nat_64 [of i] by (simp add: put_str_def put_bytes_def demo_image_def crnl_def unat_sub_if' unat_word_ariths)

lemma demo_runs_ok:
  assumes "runs_as user_main p" and p: "prog_bytes p = replicate 4096 0" "prog_low p = 0x80400000" and "k \<le> 32"
    and h: "stack_room p k (heap w)" and m: "ram w = put_str (world_at demo_image) (str (''World!'' @ crnl)) (\<lambda>a. 0)"
  shows "runs_ok demo_image user_main p k w"
proof -
  have "image_holds demo_image p (ram w)" unfolding m by (intro demo_image_holds p demo_world_ram)
  moreover have "unat (world_at demo_image) + 9 \<le> unat (prog_low p)" by (simp add: p demo_image_def)
  moreover have "user_prog_start demo_image = 0x80208000" "unat (user_prog_size demo_image) = 4096"
    by (simp_all add: demo_image_def user_prog_size_def)
  ultimately show ?thesis using assms(1) h demo_outside_arrays by (simp add: runs_ok_def)
qed

lemma demo_session_ok:
  assumes "runs_as user_main p" and "prog_bytes p = replicate 4096 0" "prog_low p = 0x80400000" and "k \<le> 32"
  shows "session_ok demo_image user_main (Some p) k (demo_shell_machine keys)"
proof -
  have "heap (demo_shell_machine keys) = demo_heap" "ram demo_trap_machine = (\<lambda>a. 0)"
    by (simp_all add: demo_shell_machine_def demo_trap_eq trap_boot_def demo_timer_machine_def timer_boot_def
        demo_heap_machine_def ready_machine_def timer_machine.defs trap_machine.defs heap_machine.defs)
  then have "runs_ok demo_image user_main p k (demo_shell_machine keys)"
    using demo_stack_room [OF assms(3,4)] by (intro demo_runs_ok [OF assms]) (simp_all add: demo_shell_machine_def)
  then show ?thesis using demo_shell_facts(1) by (simp add: session_ok_def)
qed

theorem shell_session_witness:
  "\<exists>w'. interactive_shell demo_image exit_code (replicate 128 7)
       (demo_shell_machine (str ''u'' @ [13] @ str ''e '' @ [13] @ str ''q'' @ [13])) = Some (Done (), w') \<and>
     trap_count w' = 1 \<and> heap_current (heap w') = heap_current demo_heap + 0x10000"
proof -
  let ?css = "[str ''u'' @ [13], str ''e '' @ [13], str ''q'' @ [13]]"
  let ?ls = "[(str ''u'', str ''u'' @ [13, 10]), (str ''e '', str ''e '' @ [13, 10]), (str ''q'', str ''q'' @ [13, 10])]"
  let ?w = "demo_shell_machine (concat ?css)" and ?P = "Some quiet_program"
  have e: "entry_of (str ''u'') = Cmd Run" "entry_of (str ''e '') = Cmd Exception" "entry_of (str ''q'') = Cmd Quit"
    by (simp_all add: entry_of_def typed_command_def trim_end_def lookup_command_chain)
  have ls: "list_all2 (types (uart_ty ?w)) ?css ?ls"
    by (simp add: types_def demo_shell_facts line_end_def)
  have ends: "ends_in ?P Quit ?ls" using e by (simp add: leaves_def quiet_program_def del: str_simps)
  have count: "run_count ?ls = 1" using e by (simp add: uses_run_def del: str_simps)
  have ok: "session_ok demo_image exit_code ?P (run_count ?ls) ?w"
    unfolding count by (rule demo_session_ok [OF quiet_runs]) (simp_all add: quiet_program_def)
  obtain w' where w': "interactive_shell demo_image exit_code (replicate 128 7) ?w = Some (Done (), w')"
      "uart_io (length (concat ?css)) (banner_text @ session_text demo_image ?P ?ls ?w) (session_state demo_image ?P ?ls ?w) w'"
    using shell_session [OF ls ends ok, of "replicate 128 7"] demo_shell_facts by (auto simp: shell_exit_def simp del: str_simps)
  have "heap ?w = demo_heap"
    by (simp add: demo_shell_machine_def demo_trap_eq trap_boot_def demo_timer_machine_def timer_boot_def
        demo_heap_machine_def ready_machine_def timer_machine.defs trap_machine.defs heap_machine.defs)
  then have "trap_count (session_state demo_image ?P ?ls ?w) = 1"
    "heap_current (heap (session_state demo_image ?P ?ls ?w)) = heap_current demo_heap + 0x10000"
    using e by (simp_all add: command_state_eq breakpoint_state_def program_state_def demo_shell_facts take_piece_def ALIGN_UP_def del: str_simps)
  moreover have "heap w' = heap (session_state demo_image ?P ?ls ?w)" using w'(2) by (auto simp: uart_io_def)
  ultimately show ?thesis using w'(1) trap_tables_io(4) [OF w'(2)] by (intro exI [of _ w']) simp
qed

end
