(* ===== verification/Kernel.thy ===== *)
theory Kernel
  imports Shell
begin

text \<open>
  \<open>kernel_main\<close> of \<^verbatim>\<open>src/entry.c\<close>: booting, the shell, and the idle loop after it.  The first part
  is \<open>kernel_boot\<close>, the part after the shell \<open>kernel_idle\<close>.
\<close>

section \<open>Definitions\<close>

definition kernel_boot :: "image \<Rightarrow> u64 \<Rightarrow> 'a trap_machine_scheme \<Rightarrow> 'a trap_machine_scheme option" where
  "kernel_boot img hart_id w = do {
     w \<leftarrow> say (logger nl []) w;
     w \<leftarrow> say (logger_info (''=========================================='' @ nl) []) w;
     w \<leftarrow> say (logger_info (''    RISC-V testos - Simple OS Kernel     '' @ nl) []) w;
     w \<leftarrow> say (logger_info (''=========================================='' @ nl) []) w;
     w \<leftarrow> say (logger_info (''Compiled: %s %s'' @ nl) [date_at img, time_at img]) w;
     w \<leftarrow> say (logger_info (''Hart ID: 0x%llx'' @ nl) [hart_id]) w;
     w \<leftarrow> say (logger nl []) w;
     w \<leftarrow> say (logger_info (''Enabling floating-point unit...'' @ nl) []) w;
     let sstatus_val = READ_SSTATUS w;
     let sstatus_val = sstatus_val OR push_bit 13 0x3;
     let w = WRITE_SSTATUS sstatus_val w;
     w \<leftarrow> say (logger_info (''Initializing exception handling...'' @ nl) []) w;
     let w = exception_init (current_sp img) w;
     w \<leftarrow> say (logger_info (''Initializing timer...'' @ nl) []) w;
     w \<leftarrow> timer_init w;
     w \<leftarrow> timer_enable w;
     let w = register_syscall_handler 0 SysPutchar w;
     let w = register_syscall_handler 1 SysPuts w;
     w \<leftarrow> say (logger_info (''Initializing memory management...'' @ nl) []) w;
     w \<leftarrow> say (logger_info (''Running memory allocator test...'' @ nl) []) w;
     w \<leftarrow> mem_test w;
     w \<leftarrow> say (logger_info (nl @ ''System initialization completed!'' @ nl) []) w;
     say (logger_info (''Supervisor status: 0x%llx'' @ nl) [READ_SSTATUS w]) w }"

text \<open>After the shell: interrupts are enabled, and \<^verbatim>\<open>while (1) WFI();\<close> does not end.\<close>

definition kernel_idle :: "'a trap_machine_scheme \<Rightarrow> (unit run \<times> 'a trap_machine_scheme) option" where
  "kernel_idle w = do {
     w \<leftarrow> say (logger_info (''Before enabling interrupts - SIE: 0x%llx'' @ nl) [READ_SIE w]) w;
     let w = CSR_SET_sstatus SSTATUS_SIE w;
     w \<leftarrow> say (logger_info (''Global interrupts enabled.'' @ nl) []) w;
     w \<leftarrow> say (logger_info (''After enabling interrupts - SSTATUS: 0x%llx, SIE: 0x%llx'' @ nl) [READ_SSTATUS w, READ_SIE w]) w;
     w \<leftarrow> say (logger_info (''Entering WFI loop...'' @ nl) []) w;
     w \<leftarrow> say (logger_warn (''Kernel main function returned. Entering idle loop.'' @ nl) []) w;
     Some (Stopped, w) }"

definition kernel_main :: "image \<Rightarrow> 'a trap_machine_scheme user_code \<Rightarrow> u8 list \<Rightarrow> u64 \<Rightarrow> 'a trap_machine_scheme \<Rightarrow>
    (unit run \<times> 'a trap_machine_scheme) option" where
  "kernel_main img user_main cmd_buffer hart_id w = do {
     w \<leftarrow> kernel_boot img hart_id w;
     (r, w) \<leftarrow> interactive_shell img user_main cmd_buffer w;
     case r of
       Done _ \<Rightarrow> kernel_idle w
     | Stopped \<Rightarrow> Some (Stopped, w)
     | Restarted \<Rightarrow> Some (Restarted, w) }"

section \<open>Booting\<close>

lemma performs_hex_line:
  assumes "37 \<notin> set (str a)" and "37 \<notin> set (str b)" and "s = a @ ''%llx'' @ b"
  shows "performs (\<lambda>w. True) (say (logger_output level (str s) [v])) (\<lambda>w. w) (\<lambda>w. hex_line level a v b)"
  by (rule performs_print [OF prints_hex_line [OF assms]])

lemma performs_d:
  assumes "37 \<notin> set (str a)" and "37 \<notin> set (str b)"
  shows "performs (\<lambda>w. True) (say (logger_output level (str a @ str ''%d'' @ str b) [v])) (\<lambda>w. w)
    (\<lambda>w. log_line level (str a @ show_int (sint (ucast v :: u32)) @ str b))"
  by (rule performs_print [OF prints_d [OF assms]])

definition timer_init_state :: "'a timer_machine_scheme \<Rightarrow> 'a timer_machine_scheme" where
  "timer_init_state w = timer_reset_stats (CSR_WRITE_sie (READ_SIE w AND NOT SIE_STIE) w)"

definition timer_init_text :: "u64 \<Rightarrow> u8 list" where
  "timer_init_text freq = log_line LOG_LEVEL_INFO (str (''Timer initialization:'' @ nl)) @
     log_line LOG_LEVEL_INFO (str ''  Timer frequency: '' @ show_nat 10 (unat freq) @ str ('' Hz'' @ nl)) @
     log_line LOG_LEVEL_INFO (str ''  Target frequency: '' @ show_int (sint (ucast TIMER_FREQUENCY_HZ :: u32)) @ str ('' Hz'' @ nl)) @
     log_line LOG_LEVEL_INFO (str ''  Tick interval: '' @ show_int (sint (ucast TIMER_TICK_MS :: u32)) @ str ('' ms'' @ nl)) @
     log_line LOG_LEVEL_INFO (str (''Timer disabled'' @ nl)) @
     log_line LOG_LEVEL_INFO (str (''Timer initialized successfully'' @ nl))"

lemma timer_init_performs:
  "performs (\<lambda>w. True) timer_init timer_init_state (\<lambda>w. timer_init_text (g_timer_frequency w))"
proof -
  let ?line = "\<lambda>s. log_line LOG_LEVEL_INFO (str (s @ nl))"
  have freq: "performs (\<lambda>w. True) (\<lambda>w. say (logger_info (''  Timer frequency: %llu Hz'' @ nl) [g_timer_frequency w]) w) (\<lambda>w. w)
      (\<lambda>w. log_line LOG_LEVEL_INFO (str ''  Timer frequency: '' @ show_nat 10 (unat (g_timer_frequency w)) @ str ('' Hz'' @ nl)))"
    using performs_read [OF performs_llu [of "''  Timer frequency: ''" "'' Hz'' @ nl" LOG_LEVEL_INFO], of g_timer_frequency]
    by (simp add: steady_def log_defs nl_def)
  have d: "performs (\<lambda>w. True) (say (logger_info (''  Target frequency: %d Hz'' @ nl) [v])) (\<lambda>w. w)
      (\<lambda>w. log_line LOG_LEVEL_INFO (str ''  Target frequency: '' @ show_int (sint (ucast v :: u32)) @ str ('' Hz'' @ nl)))"
    "performs (\<lambda>w. True) (say (logger_info (''  Tick interval: %d ms'' @ nl) [v])) (\<lambda>w. w)
      (\<lambda>w. log_line LOG_LEVEL_INFO (str ''  Tick interval: '' @ show_int (sint (ucast v :: u32)) @ str ('' ms'' @ nl)))" for v
    using performs_d [of "''  Target frequency: ''" "'' Hz'' @ nl" LOG_LEVEL_INFO v]
      performs_d [of "''  Tick interval: ''" "'' ms'' @ nl" LOG_LEVEL_INFO v] by (simp_all add: log_defs nl_def)
  have reset: "neutral timer_reset_stats" by (rule neutralI) (simp_all add: timer_reset_stats_def)
  have last: "performs (\<lambda>w. True) (\<lambda>w. say (logger_info (''Timer initialized successfully'' @ nl) []) (timer_reset_stats w)) timer_reset_stats
      (\<lambda>w. ?line ''Timer initialized successfully'')"
    unfolding log_defs by (rule performs_after_update [OF reset performs_line]) (simp_all add: steady_const)
  have first: "performs (\<lambda>w. True) (say (logger_info (''Timer initialization:'' @ nl) [])) (\<lambda>w. w) (\<lambda>w. ?line ''Timer initialization:'')"
    unfolding log_defs by (rule performs_line) simp
  note all = performs_bind [OF first performs_bind [OF freq performs_bind [OF d(1) performs_bind [OF d(2)
      performs_bind [OF timer_disable_performs last]]]]]
  show ?thesis
    unfolding timer_init_def [abs_def] Let_def timer_init_state_def timer_init_text_def by (rule all) simp_all
qed

lemma is_cstr_unique:
  assumes "is_cstr v s" and "is_cstr v t"
  shows "s = t"
proof -
  have "length s = length t"
    using strlen_cstr [OF assms(1)] strlen_cstr [OF assms(2)] is_cstr_len [OF assms(1)] is_cstr_len [OF assms(2)]
    by (simp add: of_nat_64_inj)
  then show ?thesis using assms by (auto intro!: nth_equalityI simp: is_cstr_def)
qed

lemma formats_compiled:
  assumes "is_cstr (ram_ptr m a) s" and "is_cstr (ram_ptr m b) t"
  shows "formats m (str (''Compiled: %s %s'' @ nl)) [a, b] (str ''Compiled: '' @ s @ str '' '' @ t @ str nl)"
proof -
  have parse: "parse_format (str ''%s %s'' @ str nl) = [StrArg no_props, Byte 32, StrArg no_props, Byte 10]"
    by (simp add: parse_directive.simps nl_def no_props_def)
  have pad: "pad_text no_props u = u" for u by (simp add: pad_text_def no_props_def)
  have same: "a = b \<Longrightarrow> s = t" using is_cstr_unique [OF assms(1)] assms(2) by simp
  have "formats m (str ''%s %s'' @ str nl) [a, b] (s @ str '' '' @ t @ str nl)"
    unfolding formats_def parse using assms same
    by (intro exI [of _ "\<lambda>p. if p = a then s else t"]) (auto simp: pad nl_def, simp_all add: no_props_def)
  then have "formats m (str ''Compiled: '' @ str ''%s %s'' @ str nl) [a, b] (str ''Compiled: '' @ s @ str '' '' @ t @ str nl)"
    by (intro formats_plain) simp_all
  then show ?thesis by simp
qed

definition dated :: "image \<Rightarrow> u8 list \<Rightarrow> u8 list \<Rightarrow> 'a machine_scheme \<Rightarrow> bool" where
  "dated img date time w \<longleftrightarrow> is_cstr (ram_ptr (ram w) (date_at img)) date \<and> is_cstr (ram_ptr (ram w) (time_at img)) time"

lemma steady_dated: "steady (dated img date time)"
  by (simp add: steady_def dated_def)

definition compiled_text :: "u8 list \<Rightarrow> u8 list \<Rightarrow> u8 list" where
  "compiled_text date time = log_line LOG_LEVEL_INFO (str ''Compiled: '' @ date @ str '' '' @ time @ str nl)"

lemma compiled_performs:
  "performs (dated img date time) (say (logger_info (''Compiled: %s %s'' @ nl) [date_at img, time_at img])) (\<lambda>w. w)
     (\<lambda>w. compiled_text date time)"
  unfolding performs_def
proof (intro conjI allI impI neutral_id steady_const steady_dated)
  fix w :: "'a machine_scheme" assume w: "uart_live w" "dated img date time w"
  then have "formats (ram w) (str (''Compiled: %s %s'' @ nl)) [date_at img, time_at img]
      (str ''Compiled: '' @ date @ str '' '' @ time @ str nl)"
    unfolding dated_def by (intro formats_compiled) simp_all
  from outputs_say [OF w(1) this, of LOG_LEVEL_INFO]
  show "\<exists>w'. say (logger_info (''Compiled: %s %s'' @ nl) [date_at img, time_at img]) w = Some w' \<and>
      uart_io 0 (compiled_text date time) w w'"
    unfolding outputs_def log_defs compiled_text_def .
qed

text \<open>The self test on a heap with room for it.\<close>

definition has_room :: "'a heap_machine_scheme \<Rightarrow> bool" where
  "has_room w \<longleftrightarrow> heap_ok (heap w) \<and> unat (heap_current (heap w)) + 1232 \<le> unat (heap_end (heap w))"

definition tested_heap :: "heap_info_t \<Rightarrow> heap_info_t" where
  "tested_heap h = take_piece 163 (take_piece 40 (take_piece 1024 h))"

definition tested_state :: "'a heap_machine_scheme \<Rightarrow> 'a heap_machine_scheme" where
  "tested_state w = w\<lparr>heap := tested_heap (heap w),
     ram := (\<lambda>a. if a - (heap_current (heap w) + 1024) < 40 then 0 else ram w a)\<rparr>"

definition tested_text :: "heap_info_t \<Rightarrow> uart_type \<Rightarrow> u8 list" where
  "tested_text h = (let p = heap_current h in mem_test_text p (p + 1024) (ALIGN_UP (p + 1064) 64) (tested_heap h))"

lemma mem_test_performs:
  "performs has_room mem_test tested_state (\<lambda>w. tested_text (heap w) (uart_ty w))"
  unfolding performs_def
proof (intro conjI allI impI)
  show "neutral tested_state" by (rule neutralI) (simp_all add: tested_state_def cong: if_cong)
  show "steady (\<lambda>w :: 'a heap_machine_scheme. tested_text (heap w) (uart_ty w))" "steady (has_room :: 'a heap_machine_scheme \<Rightarrow> bool)"
    by (simp_all add: steady_def has_room_def)
  fix w :: "'a heap_machine_scheme" assume w: "uart_live w" "has_room w"
  then have "runs mem_test (heap w) (ram w) (tested_heap (heap w))
      (\<lambda>a. if a - (heap_current (heap w) + 1024) < 40 then 0 else ram w a) (tested_text (heap w))"
    using mem_test_free_heap [of "heap w" "ram w"] by (simp add: has_room_def tested_heap_def tested_text_def Let_def)
  then show "\<exists>w'. mem_test w = Some w' \<and> uart_io 0 (tested_text (heap w) (uart_ty w)) (tested_state w) w'"
    using w(1) unfolding tested_state_def by (auto elim: runsE)
qed

section \<open>The whole boot\<close>

definition fpu_on :: "'a machine_scheme \<Rightarrow> 'a machine_scheme" where
  "fpu_on w = WRITE_SSTATUS (READ_SSTATUS w OR push_bit 13 0x3) w"

definition header_text :: "u8 list \<Rightarrow> u8 list \<Rightarrow> u64 \<Rightarrow> u8 list" where
  "header_text date time hart_id = log_line LOG_LEVEL_NORMAL (str nl) @
     log_line LOG_LEVEL_INFO (str (''=========================================='' @ nl)) @
     log_line LOG_LEVEL_INFO (str (''    RISC-V testos - Simple OS Kernel     '' @ nl)) @
     log_line LOG_LEVEL_INFO (str (''=========================================='' @ nl)) @
     compiled_text date time @ hex_line LOG_LEVEL_INFO ''Hart ID: 0x'' hart_id nl @ log_line LOG_LEVEL_NORMAL (str nl) @
     log_line LOG_LEVEL_INFO (str (''Enabling floating-point unit...'' @ nl))"

text \<open>The state of the kernel when the shell starts.\<close>

definition ready_state :: "image \<Rightarrow> 'a trap_machine_scheme \<Rightarrow> 'a trap_machine_scheme" where
  "ready_state img w = tested_state (register_syscall_handler 1 SysPuts (register_syscall_handler 0 SysPutchar
     (enable_state (timer_init_state (exception_init (current_sp img) (fpu_on w))))))"

definition boot_text :: "image \<Rightarrow> u8 list \<Rightarrow> u8 list \<Rightarrow> u64 \<Rightarrow> 'a trap_machine_scheme \<Rightarrow> u8 list" where
  "boot_text img date time hart_id w = header_text date time hart_id @
     log_line LOG_LEVEL_INFO (str (''Initializing exception handling...'' @ nl)) @
     log_line LOG_LEVEL_INFO (str (''Initializing timer...'' @ nl)) @
     timer_init_text (g_timer_frequency w) @ enable_text (g_timer_frequency w) @
     log_line LOG_LEVEL_INFO (str (''Initializing memory management...'' @ nl)) @
     log_line LOG_LEVEL_INFO (str (''Running memory allocator test...'' @ nl)) @
     tested_text (heap w) (uart_ty w) @
     log_line LOG_LEVEL_INFO (str (nl @ ''System initialization completed!'' @ nl)) @
     hex_line LOG_LEVEL_INFO ''Supervisor status: 0x'' (READ_SSTATUS w OR push_bit 13 0x3) nl"

lemma neutral_exception_init: "neutral (exception_init sp)"
  by (rule neutralI) (simp_all add: exception_init_def Let_def register_exception_handler_def CSR_WRITE_sscratch_def)

lemma neutral_register: "neutral (register_syscall_handler n h)"
  by (rule neutralI) (simp_all add: register_syscall_handler_def)

lemma neutral_fpu: "neutral fpu_on"
  by (rule neutralI) (simp_all add: fpu_on_def WRITE_SSTATUS_def READ_SSTATUS_def)

lemma performs_any: "performs (\<lambda>w. True) f u bs \<Longrightarrow> steady P \<Longrightarrow> performs P f u bs"
  by (rule performs_weaken) simp_all

lemma header_performs:
  "performs (dated img date time) (\<lambda>w. do {
     w \<leftarrow> say (logger nl []) w;
     w \<leftarrow> say (logger_info (''=========================================='' @ nl) []) w;
     w \<leftarrow> say (logger_info (''    RISC-V testos - Simple OS Kernel     '' @ nl) []) w;
     w \<leftarrow> say (logger_info (''=========================================='' @ nl) []) w;
     w \<leftarrow> say (logger_info (''Compiled: %s %s'' @ nl) [date_at img, time_at img]) w;
     w \<leftarrow> say (logger_info (''Hart ID: 0x%llx'' @ nl) [hart_id]) w;
     w \<leftarrow> say (logger nl []) w;
     say (logger_info (''Enabling floating-point unit...'' @ nl) []) w }) (\<lambda>w. w) (\<lambda>w. header_text date time hart_id)"
proof -
  have plain: "performs (dated img date time) (say (logger nl [])) (\<lambda>w. w) (\<lambda>w. log_line LOG_LEVEL_NORMAL (str nl))"
    unfolding log_defs by (rule performs_any [OF performs_note steady_dated]) (simp add: nl_def)
  have line: "37 \<notin> set (str s) \<Longrightarrow> performs (dated img date time) (say (logger_info (s @ nl) [])) (\<lambda>w. w)
      (\<lambda>w. log_line LOG_LEVEL_INFO (str (s @ nl)))" for s
    unfolding log_defs by (rule performs_any [OF performs_line steady_dated])
  have hart: "performs (dated img date time) (say (logger_info (''Hart ID: 0x%llx'' @ nl) [hart_id])) (\<lambda>w. w)
      (\<lambda>w. hex_line LOG_LEVEL_INFO ''Hart ID: 0x'' hart_id nl)"
    unfolding log_defs by (rule performs_any [OF performs_hex_line steady_dated]) (simp_all add: nl_def)
  show ?thesis
    unfolding header_text_def by (intro performs_seq plain line hart compiled_performs) simp_all
qed

lemma room_same:
  "has_room (fpu_on w) = has_room w" "has_room (exception_init sp w) = has_room w" "has_room (timer_init_state w) = has_room w"
  "has_room (enable_state w) = has_room w" "has_room (register_syscall_handler n h w) = has_room w"
  by (simp_all add: has_room_def fpu_on_def WRITE_SSTATUS_def exception_init_def Let_def register_exception_handler_def
      CSR_WRITE_sscratch_def timer_init_state_def timer_reset_stats_def CSR_WRITE_sie_def enable_state_def register_syscall_handler_def)

lemma ready_fields:
  "g_timer_frequency (exception_init sp w) = g_timer_frequency w" "heap (exception_init sp w) = heap w"
  "uart_ty (exception_init sp w) = uart_ty w" "csr_sstatus (exception_init sp w) = csr_sstatus w"
  "g_timer_frequency (timer_init_state w) = g_timer_frequency w" "heap (timer_init_state w) = heap w"
  "uart_ty (timer_init_state w) = uart_ty w" "csr_sstatus (timer_init_state w) = csr_sstatus w"
  "heap (enable_state w) = heap w" "uart_ty (enable_state w) = uart_ty w" "csr_sstatus (enable_state w) = csr_sstatus w"
  "heap (register_syscall_handler n h v) = heap v" "uart_ty (register_syscall_handler n h v) = uart_ty v"
  "csr_sstatus (register_syscall_handler n h v) = csr_sstatus v" "csr_sstatus (tested_state w) = csr_sstatus w"
  "g_timer_frequency (fpu_on w) = g_timer_frequency w" "heap (fpu_on w) = heap w" "uart_ty (fpu_on w) = uart_ty w"
  "csr_sstatus (fpu_on w) = csr_sstatus w OR push_bit 13 0x3"
  "ram (exception_init sp w) = ram w" "ram (timer_init_state w) = ram w" "ram (enable_state w) = ram w"
  "ram (register_syscall_handler n h v) = ram v" "ram (fpu_on w) = ram w"
  by (simp_all add: fpu_on_def WRITE_SSTATUS_def READ_SSTATUS_def exception_init_def Let_def register_exception_handler_def
      CSR_WRITE_sscratch_def timer_init_state_def timer_reset_stats_def CSR_WRITE_sie_def enable_state_def
      register_syscall_handler_def tested_state_def)

lemma performs_neutral: "performs P f u bs \<Longrightarrow> neutral u"
  by (simp add: performs_def)

lemmas neutral_parts = performs_neutral [OF mem_test_performs] performs_neutral [OF timer_enable_performs]
  performs_neutral [OF timer_init_performs]

lemma neutral_ready: "neutral (ready_state img)"
  unfolding ready_state_def [abs_def]
  by (rule neutral_comp [OF neutral_fpu neutral_comp [OF neutral_exception_init neutral_comp [OF neutral_parts(3)
      neutral_comp [OF neutral_parts(2) neutral_comp [OF neutral_register neutral_comp [OF neutral_register neutral_parts(1)]]]]]])

lemma steady_boot_text: "steady (boot_text img date time hart_id)"
  by (simp add: steady_def boot_text_def READ_SSTATUS_def)

lemma kernel_boot_performs:
  "performs (\<lambda>w. dated img date time w \<and> has_room w) (kernel_boot img hart_id) (ready_state img) (boot_text img date time hart_id)"
proof -
  let ?line = "\<lambda>s. log_line LOG_LEVEL_INFO (str (s @ nl))"
  have room: "steady has_room" by (simp add: steady_def has_room_def)
  have both: "steady (\<lambda>w. dated img date time w \<and> has_room w)" using steady_pair [OF steady_dated room] .
  have line: "37 \<notin> set (str s) \<Longrightarrow> performs (\<lambda>w. True) (say (logger_info (s @ nl) [])) (\<lambda>w. w) (\<lambda>w. ?line s)" for s
    unfolding log_defs by (rule performs_line)
  have after: "neutral u \<Longrightarrow> 37 \<notin> set (str s) \<Longrightarrow> performs has_room (\<lambda>w. say (logger_info (s @ nl) []) (u w)) u (\<lambda>w. ?line s)" for u s
    by (rule performs_after_update [OF _ line _ room]) simp_all
  note s1 = performs_weaken [OF header_performs _ both]
  have s2: "performs has_room (\<lambda>w. say (logger_info (''Initializing exception handling...'' @ nl) []) (fpu_on w)) fpu_on
      (\<lambda>w. ?line ''Initializing exception handling...'')" by (rule after [OF neutral_fpu]) simp
  have s3: "performs has_room (\<lambda>w. say (logger_info (''Initializing timer...'' @ nl) []) (exception_init (current_sp img) w))
      (exception_init (current_sp img)) (\<lambda>w. ?line ''Initializing timer...'')" by (rule after [OF neutral_exception_init]) simp
  note s4 = performs_any [OF timer_init_performs room] and s5 = performs_any [OF timer_enable_performs room]
  have s6: "performs has_room (\<lambda>w. say (logger_info (''Initializing memory management...'' @ nl) [])
        (register_syscall_handler 1 SysPuts (register_syscall_handler 0 SysPutchar w)))
      (\<lambda>w. register_syscall_handler 1 SysPuts (register_syscall_handler 0 SysPutchar w))
      (\<lambda>w. ?line ''Initializing memory management...'')" by (rule after [OF neutral_comp [OF neutral_register neutral_register]]) simp
  have s7: "performs has_room (say (logger_info (''Running memory allocator test...'' @ nl) [])) (\<lambda>w. w)
      (\<lambda>w. ?line ''Running memory allocator test...'')" by (rule performs_any [OF line room]) simp
  have s9: "performs (\<lambda>w. True) (say (logger_info (nl @ ''System initialization completed!'' @ nl) [])) (\<lambda>w. w)
      (\<lambda>w. log_line LOG_LEVEL_INFO (str (nl @ ''System initialization completed!'' @ nl)))"
    unfolding log_defs by (rule performs_note) (simp add: nl_def)
  have s10: "performs (\<lambda>w. True) (\<lambda>w. say (logger_info (''Supervisor status: 0x%llx'' @ nl) [READ_SSTATUS w]) w) (\<lambda>w. w)
      (\<lambda>w. hex_line LOG_LEVEL_INFO ''Supervisor status: 0x'' (READ_SSTATUS w) nl)"
    unfolding log_defs by (rule performs_read [OF performs_hex_line steady_csr(1)]) (simp_all add: nl_def)
  note all = performs_bind [OF s1 performs_bind [OF s2 performs_bind [OF s3 performs_bind [OF s4 performs_bind [OF s5
      performs_bind [OF s6 performs_bind [OF s7 performs_bind [OF mem_test_performs performs_bind [OF s9 s10]]]]]]]]]
  show ?thesis
    unfolding kernel_boot_def [abs_def] Let_def fpu_on_def [symmetric]
    by (rule performs_cong [OF all [unfolded bind_assoc_option [symmetric]]])
      (simp_all add: room_same ready_state_def boot_text_def ready_fields READ_SSTATUS_def
        neutral_ready steady_boot_text)
qed

section \<open>The booted kernel\<close>

text \<open>What holds when \<open>kernel_main\<close> is called: \<open>mem_init\<close> has run, the tables are those of the image, and so is the read-only data.\<close>

definition boot_ok :: "image \<Rightarrow> 'a trap_machine_scheme \<Rightarrow> bool" where
  "boot_ok img w \<longleftrightarrow> uart_live w \<and> (\<exists>n. clock_at n w) \<and> tables_wf w \<and> has_room w \<and> tests_ok img \<and>
     is_cstr (ram_ptr (ram w) (world_at img)) (str (''World!'' @ crnl)) \<and>
     unat (world_at img) + 9 \<le> unat (heap_start (heap w))"

lemma boot_ok_io:
  assumes "boot_ok img w" and "uart_io k bs w w'"
  shows "boot_ok img w'"
proof -
  have "clock_at n w' = clock_at n w" "tables_wf w' = tables_wf w" "has_room w' = has_room w" "heap w' = heap w" for n
    using assms(2) by (auto simp: uart_io_def clock_at_def tables_wf_def has_room_def)
  then show ?thesis
    using assms uart_live_io [OF _ assms(2)] uart_io_frame(3) [OF assms(2)] by (simp add: boot_ok_def)
qed

lemma ready_breakpoint_ok:
  assumes "boot_ok img w"
  shows "breakpoint_ok (ready_state img w)"
proof -
  let ?e = "exception_init (current_sp img) (fpu_on w)"
  obtain n where n: "clock_at n (fpu_on w)"
    using assms by (auto simp: boot_ok_def clock_at_def fpu_on_def WRITE_SSTATUS_def)
  have wf: "tables_wf (fpu_on w)" using assms by (simp add: boot_ok_def tables_wf_def fpu_on_def WRITE_SSTATUS_def)
  have live: "uart_live (fpu_on w)" using assms neutral_live [OF neutral_fpu, of w] by (simp add: boot_ok_def)
  have "kernel_ok ?e" by (rule exception_init_ok [OF live n wf])
  moreover have "handler_of ?e CAUSE_BREAKPOINT = EbreakHandler"
    using exception_init_tables(2) [OF wf, of 3 "current_sp img"] by (simp add: handler_of_def cause_defs INTERRUPT_BIT_def)
  ultimately have e: "breakpoint_ok ?e" by (simp add: breakpoint_ok_def)
  have "breakpoint_ok (timer_init_state ?e)"
    by (rule breakpoint_ok_same [OF e]) (simp_all add: timer_init_state_def timer_reset_stats_def CSR_WRITE_sie_def clock_at_def)
  then have t: "breakpoint_ok (enable_state (timer_init_state ?e))"
    by (rule breakpoint_ok_same) (simp_all add: enable_state_def clock_at_def)
  have reg: "breakpoint_ok (register_syscall_handler k h v)" if "breakpoint_ok v" for k h and v :: "'a trap_machine_scheme"
  proof -
    have "handler_of (register_syscall_handler k h v) c = handler_of v c" for c
      by (simp add: handler_of_def Let_def exception_entry_def interrupt_entry_def register_syscall_handler_def)
    then show ?thesis using that register_ok(3) [of v k h] by (simp add: breakpoint_ok_def)
  qed
  show ?thesis
    unfolding ready_state_def
    by (rule breakpoint_ok_same [OF reg [OF reg [OF t]]]) (simp_all add: tested_state_def clock_at_def)
qed

lemma tested_ram: "ram (tested_state w) = (\<lambda>a. if a - (heap_current (heap w) + 1024) < 40 then 0 else ram w a)"
  by (simp add: tested_state_def)

lemma ready_ram:
  "ram (ready_state img w) = (\<lambda>a. if a - (heap_current (heap w) + 1024) < 40 then 0 else ram w a)"
  by (simp only: ready_state_def tested_ram ready_fields)

lemma ready_ram_below:
  assumes "has_room w" and "unat a < unat (heap_start (heap w))"
  shows "ram (ready_state img w) a = ram w a"
proof -
  let ?cur = "heap_current (heap w)"
  have h: "unat ?cur + 1232 \<le> unat (heap_end (heap w))" "unat (heap_start (heap w)) \<le> unat ?cur"
    using assms(1) by (simp_all add: has_room_def heap_ok_def word_le_nat_alt)
  have "unat (?cur + 1024) = unat ?cur + 1024"
    using add_less_no_wrap [of ?cur 1024] h unat_less_64 [of "heap_end (heap w)"] by simp
  then have "\<not> a - (?cur + 1024) < 40"
    using assms(2) h unat_sub_if' [of a "?cur + 1024"] unat_less_64 [of "heap_end (heap w)"] by (simp add: word_less_nat_alt)
  then show ?thesis by (simp only: ready_ram if_False)
qed

lemma ready_shell_ok:
  assumes "boot_ok img w"
  shows "shell_ok img (ready_state img w)"
proof -
  let ?p = "world_at img"
  have room: "has_room w" and p: "unat ?p + 9 \<le> unat (heap_start (heap w))" using assms by (simp_all add: boot_ok_def)
  have c: "is_cstr (ram_ptr (ram w) ?p) (str (''World!'' @ crnl))" using assms unfolding boot_ok_def by (elim conjE)
  have "is_cstr (ram_ptr (ram (ready_state img w)) ?p) (str (''World!'' @ crnl))"
  proof (rule world_kept [OF c])
    fix i :: nat assume "i < 9"
    then have "unat (?p + of_nat i) = unat ?p + i"
      using add_less_no_wrap [of ?p i] p unat_less_64 [of "heap_start (heap w)"] by simp
    then show "ram (ready_state img w) (?p + of_nat i) = ram w (?p + of_nat i)"
      using \<open>i < 9\<close> p by (intro ready_ram_below [OF room]) simp
  qed
  then show ?thesis using ready_breakpoint_ok [OF assms] assms by (simp add: shell_ok_def boot_ok_def)
qed

lemma ready_entries:
  assumes "tables_wf w" and "n < 256"
  shows "syscall_entry (ready_state img w) n = (if n = 0 then SysPutchar else if n = 1 then SysPuts else DefaultSyscall)"
proof -
  let ?e = "exception_init (current_sp img) (fpu_on w)"
  have wf0: "tables_wf (fpu_on w)" using assms(1) by (simp add: tables_wf_def fpu_on_def WRITE_SSTATUS_def)
  let ?t = "enable_state (timer_init_state ?e)"
  have same: "syscall_entry ?t k = syscall_entry ?e k" "tables_wf ?t = tables_wf ?e" for k
    by (simp_all add: syscall_entry_def tables_wf_def enable_state_def timer_init_state_def timer_reset_stats_def CSR_WRITE_sie_def)
  have wf: "tables_wf ?t" "tables_wf (register_syscall_handler 0 SysPutchar ?t)"
    using exception_init_tables(1) [OF wf0] same sys.wf_register by auto
  have tested: "syscall_entry (tested_state v) n = syscall_entry v n" for v :: "'a trap_machine_scheme"
    by (simp add: syscall_entry_def tested_state_def)
  show ?thesis
    unfolding ready_state_def tested
    using sys.look_register [OF wf(2) assms(2)] sys.look_register [OF wf(1) assms(2)] same(1) exception_init_tables(4) [OF wf0 assms(2)]
    by auto
qed

section \<open>The idle loop\<close>

definition enabled_text :: "u64 \<Rightarrow> u64 \<Rightarrow> u8 list" where
  "enabled_text ss si = log_line LOG_LEVEL_INFO (str ''After enabling interrupts - SSTATUS: 0x'' @ show_nat 16 (unat ss) @
     str '', SIE: 0x'' @ show_nat 16 (unat si) @ str nl)"

definition idle_text :: "'a machine_scheme \<Rightarrow> u8 list" where
  "idle_text w = hex_line LOG_LEVEL_INFO ''Before enabling interrupts - SIE: 0x'' (READ_SIE w) nl @
     log_line LOG_LEVEL_INFO (str (''Global interrupts enabled.'' @ nl)) @
     enabled_text (READ_SSTATUS w OR SSTATUS_SIE) (READ_SIE w) @
     log_line LOG_LEVEL_INFO (str (''Entering WFI loop...'' @ nl)) @
     log_line LOG_LEVEL_WARN (str (''Kernel main function returned. Entering idle loop.'' @ nl))"

lemma prints_enabled:
  "prints (say (logger_info (''After enabling interrupts - SSTATUS: 0x%llx, SIE: 0x%llx'' @ nl) [ss, si])) (\<lambda>t. enabled_text ss si)"
proof -
  have fmt: "str (''After enabling interrupts - SSTATUS: 0x%llx, SIE: 0x%llx'' @ nl) =
      str ''After enabling interrupts - SSTATUS: 0x'' @ str ''%llx'' @ str '', SIE: 0x'' @ str ''%llx'' @ str nl" by simp
  have "formats m (str (''After enabling interrupts - SSTATUS: 0x%llx, SIE: 0x%llx'' @ nl)) [ss, si]
      (str ''After enabling interrupts - SSTATUS: 0x'' @ show_nat 16 (unat ss) @ str '', SIE: 0x'' @ show_nat 16 (unat si) @ str nl)" for m
    unfolding fmt
    by (rule formats_plain, simp, rule formats_llx, rule formats_plain, simp, rule formats_llx, rule formats_lit) (simp add: nl_def)
  then show ?thesis unfolding log_defs enabled_text_def by (rule prints_say)
qed

lemma kernel_idle_yields:
  "yields (\<lambda>w. True) kernel_idle (\<lambda>w. Stopped) (CSR_SET_sstatus SSTATUS_SIE) (idle_text :: 'a trap_machine_scheme \<Rightarrow> _)"
proof -
  let ?line = "\<lambda>s. say (logger_info (s @ nl) [])" and ?l = "\<lambda>s. log_line LOG_LEVEL_INFO (str (s @ nl))"
  have line: "37 \<notin> set (str s) \<Longrightarrow> performs (\<lambda>w. True) (?line s) (\<lambda>w. w) (\<lambda>w. ?l s)" for s
    unfolding log_defs by (rule performs_line)
  have set: "neutral (CSR_SET_sstatus SSTATUS_SIE)" by (rule neutralI) (simp_all add: CSR_SET_sstatus_def)
  have s1: "performs (\<lambda>w. True) (\<lambda>w. say (logger_info (''Before enabling interrupts - SIE: 0x%llx'' @ nl) [READ_SIE w]) w) (\<lambda>w. w)
      (\<lambda>w. hex_line LOG_LEVEL_INFO ''Before enabling interrupts - SIE: 0x'' (READ_SIE w) nl)"
    unfolding log_defs by (rule performs_read [OF performs_hex_line steady_csr(3)]) (simp_all add: nl_def)
  have s2: "performs (\<lambda>w. True) (\<lambda>w. ?line ''Global interrupts enabled.'' (CSR_SET_sstatus SSTATUS_SIE w)) (CSR_SET_sstatus SSTATUS_SIE)
      (\<lambda>w. ?l ''Global interrupts enabled.'')"
    by (rule performs_after_update [OF set line]) (simp_all add: steady_const)
  have sie: "performs (\<lambda>w. True) (\<lambda>w. say (logger_info (''After enabling interrupts - SSTATUS: 0x%llx, SIE: 0x%llx'' @ nl)
        [x, READ_SIE w]) w) (\<lambda>w. w) (\<lambda>w. enabled_text x (READ_SIE w))" for x
    by (rule performs_read [OF performs_print [OF prints_enabled] steady_csr(3)])
  have s3: "performs (\<lambda>w. True) (\<lambda>w. say (logger_info (''After enabling interrupts - SSTATUS: 0x%llx, SIE: 0x%llx'' @ nl)
        [READ_SSTATUS w, READ_SIE w]) w) (\<lambda>w. w) (\<lambda>w. enabled_text (READ_SSTATUS w) (READ_SIE w))"
    by (rule performs_read [OF sie steady_csr(1)])
  have s4: "performs (\<lambda>w. True) (?line ''Entering WFI loop...'') (\<lambda>w. w) (\<lambda>w. ?l ''Entering WFI loop...'')" by (rule line) simp
  have s5: "performs (\<lambda>w. True) (say (logger_warn (''Kernel main function returned. Entering idle loop.'' @ nl) [])) (\<lambda>w. w)
      (\<lambda>w. log_line LOG_LEVEL_WARN (str (''Kernel main function returned. Entering idle loop.'' @ nl)))"
    unfolding log_defs by (rule performs_line) simp
  note all = performs_yields [OF performs_bind [OF s1 performs_bind [OF s2 performs_bind [OF s3 performs_bind [OF s4 s5]]]]
      yields_result [of Stopped]]
  have "yields (\<lambda>w. True) kernel_idle (\<lambda>w. Stopped) (CSR_SET_sstatus SSTATUS_SIE)
      (\<lambda>w. (hex_line LOG_LEVEL_INFO ''Before enabling interrupts - SIE: 0x'' (READ_SIE w) nl @
       ?l ''Global interrupts enabled.'' @ enabled_text (READ_SSTATUS (CSR_SET_sstatus SSTATUS_SIE w)) (READ_SIE (CSR_SET_sstatus SSTATUS_SIE w)) @
       ?l ''Entering WFI loop...'' @ log_line LOG_LEVEL_WARN (str (''Kernel main function returned. Entering idle loop.'' @ nl))) @ [])"
    unfolding kernel_idle_def [abs_def] Let_def
    by (rule all [unfolded bind_assoc_option [symmetric]]) simp_all
  then show ?thesis
    by (simp only: idle_text_def [abs_def] CSR_SET_sstatus_def READ_SSTATUS_def READ_SIE_def append_Nil2) simp
qed

section \<open>Properties\<close>

lemma kernel_main_shell:
  assumes "boot_ok img w" and "dated img date time w"
  shows "\<exists>w1. uart_io 0 (boot_text img date time hart_id w) (ready_state img w) w1 \<and>
    kernel_main img user_main buf hart_id w = interactive_shell img user_main buf w1 \<bind> (\<lambda>(r, w). case r of
       Done _ \<Rightarrow> kernel_idle w | Stopped \<Rightarrow> Some (Stopped, w) | Restarted \<Rightarrow> Some (Restarted, w))"
proof -
  have "uart_live w" "dated img date time w \<and> has_room w" using assms by (simp_all add: boot_ok_def)
  then obtain w1 where "kernel_boot img hart_id w = Some w1" "uart_io 0 (boot_text img date time hart_id w) (ready_state img w) w1"
    by (rule performsE [OF kernel_boot_performs])
  then show ?thesis by (auto simp: kernel_main_def)
qed

lemma neutral_log: "neutral u \<Longrightarrow> mmio_log (u w) = mmio_log w" "neutral u \<Longrightarrow> uart_data (u w) = uart_data w"
  by (simp_all add: neutral_def uart_data_def)

lemma heap_io: "uart_io k bs w w' \<Longrightarrow> heap w' = heap w" for w :: "'a heap_machine_scheme"
  by (auto simp: uart_io_def)

lemma tested_heap_ok:
  assumes "heap_ok h" and "unat (heap_current h) + 1232 \<le> unat (heap_end h)"
  shows "heap_ok (tested_heap h)"
proof -
  note 1 = take_piece_room(1,2) [OF assms(1), of 1024 208, unfolded piece_consts]
  note 2 = take_piece_room(1,2) [of "take_piece 1024 h" 40 168, unfolded piece_consts]
  note 3 = take_piece_room(1) [of "take_piece 40 (take_piece 1024 h)" 163 0, unfolded piece_consts]
  show ?thesis unfolding tested_heap_def using 1 2 3 assms(2) by simp
qed

lemma register_regs:
  "csr_sie (register_syscall_handler n h w) = csr_sie w" "sbi_timer (register_syscall_handler n h w) = sbi_timer w"
  "csr_sscratch (register_syscall_handler n h w) = csr_sscratch w"
  by (simp_all add: register_syscall_handler_def)

lemma exception_init_regs:
  "csr_sie (exception_init sp w) = csr_sie w" "sbi_timer (exception_init sp w) = sbi_timer w" "csr_sscratch (exception_init sp w) = sp"
  "time_rd (exception_init sp w) = time_rd w" "time_cnt (exception_init sp w) = time_cnt w"
  by (simp_all add: exception_init_def Let_def register_exception_handler_def CSR_WRITE_sscratch_def)

lemma timer_regs:
  "csr_sie (timer_init_state w) = csr_sie w AND NOT 32" "sbi_timer (timer_init_state w) = sbi_timer w"
  "csr_sscratch (timer_init_state w) = csr_sscratch w" "time_rd (timer_init_state w) = time_rd w" "time_cnt (timer_init_state w) = time_cnt w"
  "csr_sie (enable_state w) = csr_sie w OR 32" "csr_sscratch (enable_state w) = csr_sscratch w"
  "sbi_timer (enable_state w) = sbi_timer w @ [time_rd w (time_cnt w) + g_timer_frequency w div 100]"
  by (simp_all add: timer_init_state_def timer_reset_stats_def CSR_WRITE_sie_def READ_SIE_def SIE_STIE_def enable_state_def)

lemma fpu_regs:
  "csr_sie (fpu_on w) = csr_sie w" "sbi_timer (fpu_on w) = sbi_timer w" "csr_sscratch (fpu_on w) = csr_sscratch w"
  "time_rd (fpu_on w) = time_rd w" "time_cnt (fpu_on w) = time_cnt w"
  by (simp_all add: fpu_on_def WRITE_SSTATUS_def)

lemma tested_regs:
  "csr_sie (tested_state w) = csr_sie w" "sbi_timer (tested_state w) = sbi_timer w" "csr_sscratch (tested_state w) = csr_sscratch w"
  "heap (tested_state w) = tested_heap (heap w)"
  by (simp_all add: tested_state_def)

lemma ready_regs:
  "csr_sie (ready_state img w) = csr_sie w AND NOT 32 OR 32" "csr_sscratch (ready_state img w) = current_sp img"
  "sbi_timer (ready_state img w) = sbi_timer w @ [time_rd w (time_cnt w) + g_timer_frequency w div 100]"
  "csr_sstatus (ready_state img w) = csr_sstatus w OR push_bit 13 0x3" "heap (ready_state img w) = tested_heap (heap w)"
  by (simp_all only: ready_state_def tested_regs register_regs timer_regs exception_init_regs fpu_regs ready_fields)

definition demo_boot_machine :: "u8 list \<Rightarrow> trap_machine" where
  "demo_boot_machine keys = (trap_boot demo_timer_machine)\<lparr>ram := put_str (world_at demo_image) (str (''World!'' @ crnl)) (\<lambda>a. 0),
     mmio_rd := (\<lambda>a k. if a = UART_BASE PLATFORM_QEMU then (if k < length keys then ucast (keys ! k) else 0) else 0x61)\<rparr>"

lemma demo_boot_facts:
  "boot_ok demo_image (demo_boot_machine keys)" "dated demo_image [] [] (demo_boot_machine keys)" "rx_live (demo_boot_machine keys)"
  "uart_ty (demo_boot_machine keys) = UART_TYPE_DW" "\<forall>j < length keys. rx_input (demo_boot_machine keys) j = keys ! j"
proof -
  let ?w = "demo_boot_machine keys"
  have p: "plat ?w = PLATFORM_QEMU" "uart_ty ?w = UART_TYPE_DW" "mmio_cnt ?w a = 0" "heap ?w = demo_heap" for a
    by (simp_all add: demo_boot_machine_def trap_boot_def demo_timer_machine_def timer_boot_def
        demo_heap_machine_def ready_machine_def timer_machine.defs trap_machine.defs heap_machine.defs)
  then show "uart_ty ?w = UART_TYPE_DW" by simp
  have s: "uart_status ?w = 0x10000005" "uart_data ?w = 0x10000000"
    using p by (simp_all add: uart_status_def uart_data_def DW_UART_LSR_def UART_REG_SHIFT_def)
  show "rx_live ?w" by (auto simp: rx_live_def s p rx_ok_def) (auto simp: demo_boot_machine_def)
  have live: "uart_live ?w" by (auto simp: uart_live_def tx_live_def s p tx_ok_def) (auto simp: demo_boot_machine_def)
  show "\<forall>j < length keys. rx_input ?w j = keys ! j" by (simp add: rx_input_def s p) (simp add: demo_boot_machine_def)
  have "clock_at 0 (trap_boot demo_timer_machine)" using demo_timer_facts(2) by (simp add: trap_boot_fields)
  then have "clock_at 0 ?w" by (simp add: demo_boot_machine_def clock_at_def)
  moreover have "tables_wf ?w"
    using trap_boot_fields(6) [of demo_timer_machine] by (simp add: demo_boot_machine_def tables_wf_def)
  moreover have "has_room ?w" unfolding has_room_def p using demo_heap_ok by (simp add: demo_heap_eq)
  moreover have "tests_ok demo_image" using demo_shell_facts(1) [of "[]"] by (simp add: shell_ok_def)
  moreover have "is_cstr (ram_ptr (ram ?w) (world_at demo_image)) (str (''World!'' @ crnl))"
    unfolding demo_boot_machine_def by (simp del: str_simps) (rule put_str_cstr; simp add: crnl_def)
  moreover have "unat (world_at demo_image) + 9 \<le> unat (heap_start (heap ?w))" unfolding p by (simp add: demo_heap_eq demo_image_def)
  ultimately show "boot_ok demo_image ?w" using live by (auto simp: boot_ok_def)
  show "dated demo_image [] [] ?w"
    by (simp add: dated_def is_cstr_def ram_ptr_def demo_boot_machine_def put_str_def crnl_def) (simp add: demo_image_def)
qed

text \<open>
  C6.  \<open>kernel_main\<close> boots: it prints the boot log and starts the shell in a state where every exception and interrupt
  has a handler, a breakpoint is stepped over, system calls 0 and 1 are \<open>sys_putchar\<close> and \<open>sys_puts\<close> and all others
  go to the default handler, the timer is armed and its interrupt enabled, the floating-point unit is on and the heap
  is well-formed.
\<close>

theorem kernel_boots:
  assumes "boot_ok img w" and "dated img date time w"
  shows "\<exists>w1. kernel_main img user_main buf hart_id w = interactive_shell img user_main buf w1 \<bind> (\<lambda>(r, w). case r of
       Done _ \<Rightarrow> kernel_idle w | Stopped \<Rightarrow> Some (Stopped, w) | Restarted \<Rightarrow> Some (Restarted, w)) \<and>
    mmio_log w1 = mmio_log w @ map (\<lambda>b. (uart_data w, ucast b)) (boot_text img date time hart_id w) \<and>
    kernel_ok w1 \<and> handler_of w1 CAUSE_BREAKPOINT = EbreakHandler \<and>
    (\<forall>n < 256. syscall_entry w1 n = (if n = 0 then SysPutchar else if n = 1 then SysPuts else DefaultSyscall)) \<and>
    sbi_timer w1 = sbi_timer w @ [time_rd w (time_cnt w) + g_timer_frequency w div 100] \<and> bit (csr_sie w1) 5 \<and>
    bit (csr_sstatus w1) 13 \<and> bit (csr_sstatus w1) 14 \<and> csr_sscratch w1 = current_sp img \<and> heap_ok (heap w1)"
proof -
  let ?r = "ready_state img w"
  obtain w1 where w1: "uart_io 0 (boot_text img date time hart_id w) ?r w1"
    "kernel_main img user_main buf hart_id w = interactive_shell img user_main buf w1 \<bind> (\<lambda>(r, w). case r of
       Done _ \<Rightarrow> kernel_idle w | Stopped \<Rightarrow> Some (Stopped, w) | Restarted \<Rightarrow> Some (Restarted, w))"
    using kernel_main_shell [OF assms] by blast
  have b: "breakpoint_ok w1" by (rule breakpoint_ok_io [OF ready_breakpoint_ok [OF assms(1)] w1(1)])
  have wf: "tables_wf w" and room: "heap_ok (heap w)" "unat (heap_current (heap w)) + 1232 \<le> unat (heap_end (heap w))"
    using assms(1) by (simp_all add: boot_ok_def has_room_def)
  have neutral: "mmio_log ?r = mmio_log w" "uart_data ?r = uart_data w"
    using neutral_log [OF neutral_ready] by auto
  have "syscall_entry w1 n = syscall_entry ?r n" for n by (simp add: syscall_entry_def trap_tables_io(3) [OF w1(1)])
  then have entries: "\<forall>n < 256. syscall_entry w1 n = (if n = 0 then SysPutchar else if n = 1 then SysPuts else DefaultSyscall)"
    using ready_entries [OF wf] by simp
  have regs: "sbi_timer w1 = sbi_timer ?r" "csr_sie w1 = csr_sie ?r" "csr_sstatus w1 = csr_sstatus ?r" "csr_sscratch w1 = csr_sscratch ?r"
    "heap w1 = heap ?r"
    using uart_io_frame [OF w1(1)] heap_io [OF w1(1)] by auto
  have bits: "bit (csr_sie w1) 5" "bit (csr_sstatus w1) 13" "bit (csr_sstatus w1) 14"
    unfolding regs ready_regs by (simp_all add: bit_simps)
  show ?thesis
    using w1 b neutral uart_io_regs(3) [OF w1(1)] entries bits tested_heap_ok [OF room]
    by (intro exI [of _ w1]) (simp add: breakpoint_ok_def regs ready_regs)
qed

theorem kernel_boots_witness:
  "\<exists>w1. kernel_main demo_image exit_code (replicate 128 0) 0 (demo_boot_machine []) =
     interactive_shell demo_image exit_code (replicate 128 0) w1 \<bind> (\<lambda>(r, w). case r of
       Done _ \<Rightarrow> kernel_idle w | Stopped \<Rightarrow> Some (Stopped, w) | Restarted \<Rightarrow> Some (Restarted, w)) \<and>
     kernel_ok w1 \<and> bit (csr_sie w1) 5"
  using kernel_boots [OF demo_boot_facts(1,2), of exit_code "replicate 128 0" 0 "[]"] by blast

text \<open>
  From boot to the end of the shell: with the keys of a session at the console, the kernel prints the boot log and
  the session; after \<open>quit\<close> it goes idle with interrupts enabled, after \<open>reboot\<close> it is at the load address again, and in
  a user program that does not return it stays.
\<close>

definition last_text :: "command \<Rightarrow> 'a machine_scheme \<Rightarrow> u8 list" where
  "last_text c w = (if c = Reboot \<or> c = Run then [] else idle_text w)"

definition last_state :: "command \<Rightarrow> 'a machine_scheme \<Rightarrow> 'a machine_scheme" where
  "last_state c w = (if c = Reboot \<or> c = Run then w else CSR_SET_sstatus SSTATUS_SIE w)"

definition kernel_exit :: "command \<Rightarrow> unit run" where
  "kernel_exit c = (if c = Reboot then Restarted else Stopped)"

lemma after_shell:
  fixes w :: "'a trap_machine_scheme"
  assumes "uart_live w"
  shows "\<exists>w'. (case shell_exit c of Done _ \<Rightarrow> kernel_idle w | Stopped \<Rightarrow> Some (Stopped, w) | Restarted \<Rightarrow> Some (Restarted, w)) =
      Some (kernel_exit c, w') \<and> uart_io 0 (last_text c w) (last_state c w) w'"
proof (cases "c = Reboot \<or> c = Run")
  case True
  then show ?thesis using uart_io_refl by (auto simp: shell_exit_def kernel_exit_def last_text_def last_state_def)
next
  case False
  from assms obtain w' where "kernel_idle w = Some (Stopped, w')" "uart_io 0 (idle_text w) (CSR_SET_sstatus SSTATUS_SIE w) w'"
    by (rule yieldsE [OF kernel_idle_yields]) simp
  then show ?thesis using False by (simp add: shell_exit_def kernel_exit_def last_text_def last_state_def)
qed

lemma neutral_last: "neutral (last_state c)"
  unfolding last_state_def [abs_def]
  by (rule neutral_if [OF steady_const neutral_id]) (rule neutralI; simp add: CSR_SET_sstatus_def)

lemma steady_last: "steady (last_text c)"
  by (simp add: steady_def last_text_def idle_text_def READ_SIE_def READ_SSTATUS_def)

text \<open>
  What a kernel that is to run the program \<open>P\<close>, \<open>k\<close> times, needs when it is started: a program that behaves, in the
  kernel's data, and heap for its stacks behind the blocks of the self test.
\<close>

definition program_ok :: "image \<Rightarrow> 'a trap_machine_scheme user_code \<Rightarrow> user_program option \<Rightarrow> nat \<Rightarrow> 'a trap_machine_scheme \<Rightarrow> bool" where
  "program_ok img user_main P k w \<longleftrightarrow> (case P of None \<Rightarrow> True | Some p \<Rightarrow>
     runs_as user_main p \<and> image_holds img p (ram w) \<and> stack_room p k (tested_heap (heap w)) \<and>
     unat (user_prog_start img) + unat (user_prog_size img) \<le> unat (heap_start (heap w)) \<and>
     unat (world_at img) + 9 \<le> unat (prog_low p) \<and>
     (\<forall>i < unat (user_prog_size img). \<not> in_arrays img (user_prog_start img + of_nat i)))"

lemma program_ok_io:
  assumes "program_ok img user_main P k w" and "uart_io n bs w w'"
  shows "program_ok img user_main P k w'"
proof -
  have "heap w' = heap w" "ram w' = ram w" using assms(2) by (auto simp: uart_io_def)
  then show ?thesis using assms(1) by (simp add: program_ok_def split: option.splits)
qed

lemma ready_session_ok:
  assumes boot: "boot_ok img w" and prog: "program_ok img user_main P k w"
  shows "session_ok img user_main P k (ready_state img w)"
proof (cases P)
  case None
  then show ?thesis using ready_shell_ok [OF boot] by (simp add: session_ok_def)
next
  case (Some p)
  have room: "has_room w" using boot by (simp add: boot_ok_def)
  have p: "image_holds img p (ram w)" "unat (user_prog_start img) + unat (user_prog_size img) \<le> unat (heap_start (heap w))"
    using prog Some by (simp_all add: program_ok_def)
  have "bytes_at (ram (ready_state img w)) (user_prog_start img) (unat (user_prog_size img)) =
      bytes_at (ram w) (user_prog_start img) (unat (user_prog_size img))"
    unfolding bytes_at_def
  proof (rule map_cong [OF refl])
    fix i assume "i \<in> set [0..<unat (user_prog_size img)]"
    then have "unat (user_prog_start img) + i < unat (heap_start (heap w))" using p(2) by simp
    moreover from this have "unat (user_prog_start img + of_nat i) = unat (user_prog_start img) + i"
      using add_less_no_wrap [of "user_prog_start img" i] unat_less_64 [of "heap_start (heap w)"] by simp
    ultimately show "ram (ready_state img w) (user_prog_start img + of_nat i) = ram w (user_prog_start img + of_nat i)"
      by (intro ready_ram_below [OF room]) simp
  qed
  then have "image_holds img p (ram (ready_state img w))" using p(1) by (simp add: image_holds_def)
  then show ?thesis
    using prog Some ready_shell_ok [OF boot] by (simp add: session_ok_def program_ok_def runs_ok_def ready_regs)
qed

lemma kernel_main_session:
  assumes "boot_ok img w" and "dated img date time w" and "rx_live w" and "length buf = 128"
    and "list_all2 (types (uart_ty w)) css ls" and "ends_in P c ls"
    and prog: "program_ok img user_main P (run_count ls) w"
    and input0: "\<forall>j < length (concat css). rx_input w j = concat css ! j"
  shows "\<exists>w'. kernel_main img user_main buf hart_id w = Some (kernel_exit c, w') \<and>
    (let v = session_state img P ls (ready_state img w) in
     uart_io (length (concat css))
       (boot_text img date time hart_id w @ banner_text @ session_text img P ls (ready_state img w) @ last_text c v)
       (last_state c v) w')"
proof -
  let ?r = "ready_state img w" and ?k = "length (concat css)"
  let ?v = "session_state img P ls ?r"
  obtain w1 where w1: "uart_io 0 (boot_text img date time hart_id w) ?r w1"
    "kernel_main img user_main buf hart_id w = interactive_shell img user_main buf w1 \<bind> (\<lambda>(r, w). case r of
       Done _ \<Rightarrow> kernel_idle w | Stopped \<Rightarrow> Some (Stopped, w) | Restarted \<Rightarrow> Some (Restarted, w))"
    using kernel_main_shell [OF assms(1,2)] by blast
  have ok: "session_ok img user_main P (run_count ls) w1" by (rule session_ok_io [OF ready_session_ok [OF assms(1) prog] w1(1)])
  have rx: "rx_live w1" using rx_live_io [OF _ w1(1)] assms(3) neutral_rx(1) [OF neutral_ready] by blast
  have ty: "uart_ty w1 = uart_ty w" using uart_io_frame(2) [OF w1(1)] neutral_ty [OF neutral_ready, of img w] by simp
  have input: "\<forall>j < ?k. rx_input w1 j = concat css ! j"
    using input0 rx_input_io [OF w1(1)] neutral_rx(2) [OF neutral_ready, of img w] by simp
  obtain w2 where w2: "interactive_shell img user_main buf w1 = Some (shell_exit c, w2)"
      "uart_io ?k (banner_text @ session_text img P ls w1) (session_state img P ls w1) w2"
    using session_from_banner [OF _ assms(6) ok rx assms(4) input] assms(5) ty by auto
  have same: "session_text img P ls w1 = session_text img P ls ?r" by (rule steady_io [OF steady_session w1(1)])
  have io: "uart_io ?k (boot_text img date time hart_id w @ banner_text @ session_text img P ls ?r) ?v w2"
    using uart_io_trans [OF neutral_io [OF neutral_session w1(1)] w2(2)] same by simp
  have "uart_live ?r" using neutral_live [OF neutral_ready, of img w] assms(1) by (simp add: boot_ok_def)
  then have "uart_live w2" using uart_live_io [OF _ io] neutral_live [OF neutral_session, of img P ls ?r] by simp
  then obtain w3 where w3: "(case shell_exit c of Done _ \<Rightarrow> kernel_idle w2 | Stopped \<Rightarrow> Some (Stopped, w2)
      | Restarted \<Rightarrow> Some (Restarted, w2)) = Some (kernel_exit c, w3)" "uart_io 0 (last_text c w2) (last_state c w2) w3"
    using after_shell by blast
  have "last_text c w2 = last_text c ?v" by (rule steady_io [OF steady_last io])
  then have "uart_io ?k (boot_text img date time hart_id w @ banner_text @ session_text img P ls ?r @ last_text c ?v) (last_state c ?v) w3"
    using uart_io_trans [OF neutral_io [OF neutral_last io] w3(2)] by simp
  then show ?thesis using w1(2) w2(1) w3(1) by (simp add: Let_def)
qed

end
