(* ===== verification/Boot.thy ===== *)
theory Boot
  imports Kernel
begin

text \<open>
  Starting the machine: \<^verbatim>\<open>_start\<close> of \<^verbatim>\<open>src/boot/boot.S\<close>, from the first instruction to
  \<open>kernel_main\<close>, and the \<open>reboot\<close> command that jumps back to it.  The addresses the linker script
  defines are the record \<open>link_map\<close>.  The module variables of the kernel are fields of the
  machine; clearing \<^verbatim>\<open>.bss\<close> clears those of them that have no initial value.  What
  \<open>mem_init\<close> leaves in \<^verbatim>\<open>a0\<close>, which \<open>kernel_main\<close> takes for the hart id, and the old contents of
  the shell's line buffer are arbitrary at each start.
\<close>

section \<open>Definitions\<close>

record link_map =
  bss_start :: u64
  bss_end :: u64
  heap_symbol :: u64
  trap_vector_at :: u64

definition early_uart_init :: "'a machine_scheme \<Rightarrow> 'a machine_scheme" where
  "early_uart_init w =
     (let t0 = UART_BASE (plat w);
          w = mmio_store (ucast (ch CHR ''B'')) t0 w;
          w = mmio_store (ucast (ch CHR ''o'')) t0 w;
          w = mmio_store (ucast (ch CHR ''o'')) t0 w;
          w = mmio_store (ucast (ch CHR ''t'')) t0 w;
          w = mmio_store (ucast (ch CHR 0x0D)) t0 w
      in mmio_store (ucast (ch CHR 0x0A)) t0 w)"

partial_function (option) bss_clear_loop :: "u64 \<Rightarrow> u64 \<Rightarrow> ram \<Rightarrow> ram option" where
  "bss_clear_loop t0 t1 m = (if t1 \<le> t0 then Some m else bss_clear_loop (t0 + 8) t1 (store64 m t0 0))"

declare bss_clear_loop.simps [code]

text \<open>The kernel's variables without an initial value.\<close>

definition zero_variables :: "'a trap_machine_scheme \<Rightarrow> 'a trap_machine_scheme" where
  "zero_variables w = w\<lparr>
     heap := \<lparr>heap_start = 0, heap_end = 0, heap_current = 0, heap_total_size = 0, heap_allocated = 0, heap_align = 0\<rparr>,
     g_system_ticks := 0, g_uptime_seconds := 0, g_tick_counter := 0,
     g_timer_stats := \<lparr>total_interrupts = 0, total_seconds = 0, last_interrupt_time = 0\<rparr>,
     exception_handlers := replicate 16 NullHandler, interrupt_handlers := replicate 16 NullHandler,
     syscall_handlers := replicate 256 NullSyscall, trap_count := 0\<rparr>"

definition clear_bss :: "link_map \<Rightarrow> 'a trap_machine_scheme \<Rightarrow> 'a trap_machine_scheme option" where
  "clear_bss lm w = do {
     m \<leftarrow> bss_clear_loop (bss_start lm) (bss_end lm) (ram w);
     Some (zero_variables (w\<lparr>ram := m\<rparr>)) }"

definition CSR_WRITE_stvec :: "u64 \<Rightarrow> 'a machine_scheme \<Rightarrow> 'a machine_scheme" where
  "CSR_WRITE_stvec v w = w\<lparr>csr_stvec := v\<rparr>"

text \<open>\<^verbatim>\<open>_start\<close> up to the call of \<open>kernel_main\<close>, and the whole of it; \<^verbatim>\<open>sip\<close> is not part of the machine.\<close>

definition start_hardware :: "link_map \<Rightarrow> 'a trap_machine_scheme \<Rightarrow> 'a trap_machine_scheme option" where
  "start_hardware lm w = do {
     let w = CSR_WRITE_sie 0 w;
     let w = early_uart_init w;
     let w = CSR_WRITE_stvec (trap_vector_at lm) w;
     w \<leftarrow> clear_bss lm w;
     mem_init (heap_symbol lm) w }"

definition start :: "link_map \<Rightarrow> image \<Rightarrow> 'a trap_machine_scheme user_code \<Rightarrow> u8 list \<Rightarrow> u64 \<Rightarrow> 'a trap_machine_scheme \<Rightarrow>
    (unit run \<times> 'a trap_machine_scheme) option" where
  "start lm img user_main cmd_buffer a0 w = do {
     w \<leftarrow> start_hardware lm w;
     (r, w) \<leftarrow> kernel_main img user_main cmd_buffer a0 w;
     case r of
       Done _ \<Rightarrow> Some (Stopped, w)
     | Stopped \<Rightarrow> Some (Stopped, w)
     | Restarted \<Rightarrow> Some (Restarted, w) }"

text \<open>From power-on: a restart is at \<^verbatim>\<open>_start\<close> again.\<close>

partial_function (option) power_on :: "link_map \<Rightarrow> image \<Rightarrow> 'a trap_machine_scheme user_code \<Rightarrow> (nat \<Rightarrow> u8 list \<times> u64) \<Rightarrow> nat \<Rightarrow>
    'a trap_machine_scheme \<Rightarrow> (unit run \<times> 'a trap_machine_scheme) option" where
  "power_on lm img user_main left n w = do {
     (r, w) \<leftarrow> start lm img user_main (fst (left n)) (snd (left n)) w;
     if r = Restarted then power_on lm img user_main left (Suc n) w else Some (r, w) }"

declare power_on.simps [code]

section \<open>Clearing the variables\<close>

lemma bss_clear_loop_range:
  assumes "unat t1 = unat t0 + 8 * k"
  shows "bss_clear_loop t0 t1 m = Some (\<lambda>a. if unat t0 \<le> unat a \<and> unat a < unat t1 then 0 else m a)"
  using assms
proof (induction k arbitrary: t0 m)
  case 0
  then show ?case by (subst bss_clear_loop.simps) (auto simp: word_le_nat_alt fun_eq_iff)
next
  case (Suc k)
  have next0: "unat (t0 + 8) = unat t0 + 8"
    using Suc.prems unat_less_64 [of t1] add_less_no_wrap [of t0 8] by simp
  have "\<not> t1 \<le> t0" using Suc.prems by (simp add: word_le_nat_alt)
  then have "bss_clear_loop t0 t1 m = bss_clear_loop (t0 + 8) t1 (store64 m t0 0)"
    by (subst bss_clear_loop.simps) simp
  also have "\<dots> = Some (\<lambda>a. if unat (t0 + 8) \<le> unat a \<and> unat a < unat t1 then 0 else store64 m t0 0 a)"
    using Suc.prems next0 by (intro Suc.IH) simp
  also have "\<dots> = Some (\<lambda>a. if unat t0 \<le> unat a \<and> unat a < unat t1 then 0 else m a)"
  proof -
    have "unat (a - t0) < 8 \<longleftrightarrow> unat t0 \<le> unat a \<and> unat a < unat t0 + 8" for a
      using unat_sub_if' [of a t0] unat_less_64 [of a] Suc.prems unat_less_64 [of t1] by auto
    then show ?thesis using Suc.prems by (auto simp: next0 store64_eq fun_eq_iff)
  qed
  finally show ?case .
qed

definition bss_cleared :: "link_map \<Rightarrow> 'a trap_machine_scheme \<Rightarrow> 'a trap_machine_scheme" where
  "bss_cleared lm w = zero_variables (w\<lparr>ram := (\<lambda>a. if unat (bss_start lm) \<le> unat a \<and> unat a < unat (bss_end lm) then 0 else ram w a)\<rparr>)"

text \<open>What the linker script guarantees: \<^verbatim>\<open>.bss\<close> is a range of double words, and \<^verbatim>\<open>_heap_start\<close> lies in or behind it.\<close>

definition linked :: "link_map \<Rightarrow> bool" where
  "linked lm \<longleftrightarrow> bss_start lm \<le> bss_end lm \<and> 8 dvd unat (bss_end lm) - unat (bss_start lm) \<and>
     bss_start lm \<le> heap_symbol lm \<and> unat (heap_symbol lm) \<le> 0x8DFFF000"

lemma clear_bss_clears:
  assumes "linked lm"
  shows "clear_bss lm w = Some (bss_cleared lm w)"
proof -
  have "unat (bss_end lm) = unat (bss_start lm) + 8 * ((unat (bss_end lm) - unat (bss_start lm)) div 8)"
    using assms by (simp add: linked_def word_le_nat_alt dvd_mult_div_cancel)
  then show ?thesis unfolding clear_bss_def bss_cleared_def by (subst bss_clear_loop_range) simp_all
qed

section \<open>The state in which kernel_main is called\<close>

definition reset_state :: "link_map \<Rightarrow> 'a trap_machine_scheme \<Rightarrow> 'a trap_machine_scheme" where
  "reset_state lm w = (bss_cleared lm (CSR_WRITE_stvec (trap_vector_at lm) (CSR_WRITE_sie 0 w)))
     \<lparr>heap := mem_init_heap (heap_symbol lm)\<rparr>"

definition hardware_text :: "link_map \<Rightarrow> uart_type \<Rightarrow> u8 list" where
  "hardware_text lm t = str ''Boot'' @ [0x0D, 0x0A] @ mem_init_text (mem_init_heap (heap_symbol lm)) t"

lemma early_uart_io: "uart_io 0 (str ''Boot'' @ [0x0D, 0x0A]) w (early_uart_init w)"
  unfolding uart_io_def early_uart_init_def
  by (rule exI [of _ "mmio_cnt w (uart_status w)"]) (simp add: mmio_store_def uart_data_def Let_def)

lemma neutral_sie: "neutral (CSR_WRITE_sie 0)"
  by (rule neutralI) (simp_all add: CSR_WRITE_sie_def)

lemma neutral_clear: "neutral (\<lambda>w. bss_cleared lm (CSR_WRITE_stvec v w))"
  by (rule neutralI) (simp_all add: bss_cleared_def zero_variables_def CSR_WRITE_stvec_def cong: if_cong)

lemma neutral_heap: "neutral (\<lambda>w :: 'a heap_machine_scheme. w\<lparr>heap := h\<rparr>)"
  by (rule neutralI) simp_all

lemma start_hardware_performs:
  assumes "linked lm"
  shows "performs (\<lambda>w :: 'a trap_machine_scheme. True) (start_hardware lm) (reset_state lm) (\<lambda>w. hardware_text lm (uart_ty w))"
proof -
  have early: "performs (\<lambda>w. True) (\<lambda>w. Some (early_uart_init w)) (\<lambda>w. w) (\<lambda>w. str ''Boot'' @ [0x0D, 0x0A])"
    using early_uart_io by (auto simp: performs_def neutral_id steady_const)
  have clear: "performs (\<lambda>w. True) (\<lambda>w :: 'a trap_machine_scheme. clear_bss lm (CSR_WRITE_stvec (trap_vector_at lm) w))
      (\<lambda>w. bss_cleared lm (CSR_WRITE_stvec (trap_vector_at lm) w)) (\<lambda>w. [])"
    unfolding clear_bss_clears [OF assms] by (rule performs_update [OF neutral_clear])
  have heap: "performs (\<lambda>w. True) (mem_init (heap_symbol lm)) (\<lambda>w :: 'a trap_machine_scheme. w\<lparr>heap := mem_init_heap (heap_symbol lm)\<rparr>)
      (\<lambda>w. mem_init_text (mem_init_heap (heap_symbol lm)) (uart_ty w))"
    using mem_init_outputs neutral_heap unfolding performs_def by (simp add: steady_def) blast
  note all = performs_after_update [OF neutral_sie performs_bind [OF early performs_bind [OF clear heap]]]
  have "performs (\<lambda>w :: 'a trap_machine_scheme. True) (start_hardware lm) (reset_state lm)
      (\<lambda>w. (str ''Boot'' @ [0x0D, 0x0A]) @ [] @ mem_init_text (mem_init_heap (heap_symbol lm))
         (uart_ty (bss_cleared lm (CSR_WRITE_stvec (trap_vector_at lm) (CSR_WRITE_sie 0 w)))))"
    unfolding start_hardware_def [abs_def] reset_state_def [abs_def] Let_def
    using all [of "\<lambda>w :: 'a trap_machine_scheme. True"] by (simp add: steady_const)
  then show ?thesis
    by (simp add: hardware_text_def bss_cleared_def zero_variables_def CSR_WRITE_stvec_def CSR_WRITE_sie_def)
qed

lemma neutral_reset: "linked lm \<Longrightarrow> neutral (reset_state lm)"
  by (rule performs_neutral [OF start_hardware_performs])

lemma reset_room:
  assumes "linked lm"
  shows "has_room (reset_state lm w)" "unat (bss_start lm) \<le> unat (heap_start (heap (reset_state lm w)))"
proof -
  let ?h = "mem_init_heap (heap_symbol lm)"
  have sym: "unat (heap_symbol lm) \<le> 0x8DFFF000" "unat (bss_start lm) \<le> unat (heap_symbol lm)"
    using assms by (simp_all add: linked_def word_le_nat_alt)
  note ok = mem_init_heap_ok [OF sym(1)] and up = round_up_bounds [of 4096 "max (unat (heap_symbol lm)) 0x80400000"]
  obtain q where q: "round_up (max (unat (heap_symbol lm)) 0x80400000) 4096 = 4096 * q" using up(3) by (auto elim: dvdE)
  have "4096 * q < 4096 * 0x8E000" using up(2) sym(1) unfolding q by simp
  then have "unat (heap_start ?h) \<le> 0x8DFFF000" unfolding ok(3) q by simp
  moreover have "heap_current ?h = heap_start ?h" by (simp add: mem_init_heap_def Let_def)
  ultimately show "has_room (reset_state lm w)" using ok(1,2) by (simp add: has_room_def reset_state_def)
  show "unat (bss_start lm) \<le> unat (heap_start (heap (reset_state lm w)))"
    using up(1) sym(2) by (simp add: reset_state_def ok(3))
qed

section \<open>The read-only data\<close>

text \<open>
  The literals \<open>kernel_main\<close> and the shell read from memory lie before \<^verbatim>\<open>.bss\<close>, outside the arrays of the
  tests, so they survive a start and every command.
\<close>

definition rom_same :: "link_map \<Rightarrow> image \<Rightarrow> ram \<Rightarrow> ram \<Rightarrow> bool" where
  "rom_same lm img m m' \<longleftrightarrow> (\<forall>a. unat a < unat (bss_start lm) \<and> \<not> in_arrays img a \<longrightarrow> m' a = m a)"

lemma rom_same_trans: "rom_same lm img m1 m2 \<Longrightarrow> rom_same lm img m2 m3 \<Longrightarrow> rom_same lm img m1 m3"
  by (simp add: rom_same_def)

lemma rom_reset: "rom_same lm img (ram w) (ram (reset_state lm w))"
  by (simp add: rom_same_def reset_state_def bss_cleared_def zero_variables_def CSR_WRITE_stvec_def CSR_WRITE_sie_def)

lemma rom_ready:
  assumes "has_room w" and "unat (bss_start lm) \<le> unat (heap_start (heap w))"
  shows "rom_same lm img (ram w) (ram (ready_state img w))"
  using assms ready_ram_below [OF assms(1)] by (simp add: rom_same_def)

lemma rom_command:
  assumes ok: "session_ok img user_main P (uses_run e + k) w" and low: "\<And>p. P = Some p \<Longrightarrow> unat (bss_start lm) \<le> unat (prog_low p)"
  shows "rom_same lm img (ram w) (ram (command_state img P e w))"
proof (cases "e = Cmd Run \<and> P \<noteq> None")
  case True
  then obtain p where p: "P = Some p" "runs_ok img user_main p (Suc k) w"
    using ok by (auto simp: session_ok_def uses_run_def)
  then show ?thesis
    using program_state_kept(1) [of user_main p img w k] low [OF p(1)] True by (simp add: rom_same_def runs_ok_def)
next
  case False
  then show ?thesis by (auto simp: rom_same_def command_state_eq basic_ram_same breakpoint_state_def)
qed

lemma rom_session:
  assumes "session_ok img user_main P (run_count ls) w" and "ends_in P c ls"
    and low: "\<And>p. P = Some p \<Longrightarrow> unat (bss_start lm) \<le> unat (prog_low p)"
  shows "rom_same lm img (ram w) (ram (session_state img P ls w))"
  using assms(1,2)
proof (induction ls arbitrary: w)
  case (Cons le ls)
  let ?e = "entry_of (fst le)"
  have ok: "session_ok img user_main P (uses_run ?e + run_count ls) w" using Cons.prems(1) by simp
  note first = rom_command [OF ok low]
  show ?case
  proof (cases "leaves P ?e")
    case True
    then show ?thesis using first Cons.prems(2) by simp
  next
    case False
    then have e: "?e = Cmd Run \<Longrightarrow> P \<noteq> None" "ends_in P c ls" using Cons.prems(2) by auto
    have "rom_same lm img (ram (command_state img P ?e w)) (ram (session_state img P ls (command_state img P ?e w)))"
      by (rule Cons.IH [OF session_ok_command [OF ok e(1)] e(2)])
    then show ?thesis using rom_same_trans [OF first] by simp
  qed
qed (simp add: rom_same_def)

text \<open>The same for the embedded program, which is in the data before \<^verbatim>\<open>.bss\<close>.\<close>

definition system_program :: "link_map \<Rightarrow> image \<Rightarrow> 'a trap_machine_scheme user_code \<Rightarrow> user_program option \<Rightarrow> ram \<Rightarrow> bool" where
  "system_program lm img user_main P m \<longleftrightarrow> (case P of None \<Rightarrow> True | Some p \<Rightarrow>
     runs_as user_main p \<and> image_holds img p m \<and> unat (bss_start lm) \<le> unat (prog_low p) \<and>
     unat (user_prog_start img) + unat (user_prog_size img) \<le> unat (bss_start lm) \<and>
     (\<forall>i < unat (user_prog_size img). \<not> in_arrays img (user_prog_start img + of_nat i)))"

text \<open>The heap that a start builds has room for the stacks of a session.\<close>

definition session_fits :: "link_map \<Rightarrow> user_program option \<Rightarrow> (u8 list \<times> u8 list) list \<Rightarrow> bool" where
  "session_fits lm P ls \<longleftrightarrow> (case P of None \<Rightarrow> True | Some p \<Rightarrow>
     stack_room p (run_count ls) (tested_heap (mem_init_heap (heap_symbol lm))))"

lemma system_program_same:
  assumes "system_program lm img user_main P m" and "rom_same lm img m m'"
  shows "system_program lm img user_main P m'"
proof (cases P)
  case (Some p)
  have p: "unat (user_prog_start img) + unat (user_prog_size img) \<le> unat (bss_start lm)"
    "\<And>i. i < unat (user_prog_size img) \<Longrightarrow> \<not> in_arrays img (user_prog_start img + of_nat i)"
    using assms(1) Some by (simp_all add: system_program_def)
  have "bytes_at m' (user_prog_start img) (unat (user_prog_size img)) = bytes_at m (user_prog_start img) (unat (user_prog_size img))"
    unfolding bytes_at_def
  proof (rule map_cong [OF refl])
    fix i assume "i \<in> set [0..<unat (user_prog_size img)]"
    then have i: "unat (user_prog_start img) + i < unat (bss_start lm)" "i < unat (user_prog_size img)" using p(1) by simp_all
    then have "unat (user_prog_start img + of_nat i) = unat (user_prog_start img) + i"
      using add_less_no_wrap [of "user_prog_start img" i] unat_less_64 [of "bss_start lm"] by simp
    then show "m' (user_prog_start img + of_nat i) = m (user_prog_start img + of_nat i)"
      using i p(2) assms(2) by (simp add: rom_same_def)
  qed
  then show ?thesis using assms(1) Some by (simp add: system_program_def image_holds_def)
qed (simp add: system_program_def)

definition literal_at :: "link_map \<Rightarrow> image \<Rightarrow> ram \<Rightarrow> u64 \<Rightarrow> u8 list \<Rightarrow> bool" where
  "literal_at lm img m p s \<longleftrightarrow> is_cstr (ram_ptr m p) s \<and> unat p + length s < unat (bss_start lm) \<and>
     (\<forall>i \<le> length s. \<not> in_arrays img (p + of_nat i))"

lemma literal_same:
  assumes "literal_at lm img m p s" and "rom_same lm img m m'"
  shows "literal_at lm img m' p s"
proof -
  have p: "is_cstr (ram_ptr m p) s" "unat p + length s < unat (bss_start lm)" using assms(1) by (simp_all add: literal_at_def)
  have "ram_ptr m' p (of_nat i) = ram_ptr m p (of_nat i)" if i: "i \<le> length s" for i
  proof -
    have "unat (p + of_nat i) = unat p + i"
      using add_less_no_wrap [of p i] i p(2) unat_less_64 [of "bss_start lm"] by simp
    then show ?thesis using i p(2) assms by (simp add: ram_ptr_def literal_at_def rom_same_def)
  qed
  then have "is_cstr (ram_ptr m' p) s" by (rule is_cstr_cong [OF p(1)])
  then show ?thesis using assms(1) by (simp add: literal_at_def)
qed

text \<open>What holds at power-on, and again after every session.\<close>

definition system_ok :: "link_map \<Rightarrow> image \<Rightarrow> u8 list \<Rightarrow> u8 list \<Rightarrow> 'a machine_scheme \<Rightarrow> bool" where
  "system_ok lm img date time w \<longleftrightarrow> uart_live w \<and> rx_live w \<and> linked lm \<and> tests_ok img \<and>
     literal_at lm img (ram w) (world_at img) (str (''World!'' @ crnl)) \<and>
     literal_at lm img (ram w) (date_at img) date \<and> literal_at lm img (ram w) (time_at img) time"

lemma system_ok_update:
  assumes "system_ok lm img date time w" and "neutral u" and "rom_same lm img (ram w) (ram (u w))"
  shows "system_ok lm img date time (u w)"
  using assms literal_same neutral_live [OF assms(2)] neutral_rx(1) [OF assms(2)] unfolding system_ok_def by blast

lemma system_ok_io:
  assumes "system_ok lm img date time w" and "uart_io k bs w w'"
  shows "system_ok lm img date time w'"
  using assms uart_live_io rx_live_io uart_io_frame(3) [OF assms(2)] by (auto simp: system_ok_def)

lemma reset_boot_ok:
  assumes "system_ok lm img date time w"
  shows "boot_ok img (reset_state lm w)" "dated img date time (reset_state lm w)"
proof -
  let ?v = "reset_state lm w"
  have lm: "linked lm" using assms by (simp add: system_ok_def)
  have ok: "system_ok lm img date time ?v" by (rule system_ok_update [OF assms neutral_reset [OF lm] rom_reset])
  then show "dated img date time ?v" by (simp add: system_ok_def literal_at_def dated_def)
  have "clock_at 0 ?v" "tables_wf ?v"
    by (simp_all add: clock_at_def tables_wf_def reset_state_def bss_cleared_def zero_variables_def)
  then show "boot_ok img ?v"
    using ok reset_room [OF lm, of w] by (auto simp: boot_ok_def system_ok_def literal_at_def crnl_def)
qed

section \<open>From power-on to idle\<close>

definition run_state :: "link_map \<Rightarrow> image \<Rightarrow> user_program option \<Rightarrow> (u8 list \<times> u8 list) list \<Rightarrow> 'a trap_machine_scheme \<Rightarrow> 'a trap_machine_scheme" where
  "run_state lm img P ls w = session_state img P ls (ready_state img (reset_state lm w))"

definition run_text :: "link_map \<Rightarrow> image \<Rightarrow> user_program option \<Rightarrow> u8 list \<Rightarrow> u8 list \<Rightarrow> u64 \<Rightarrow> (u8 list \<times> u8 list) list \<Rightarrow> 'a trap_machine_scheme \<Rightarrow> u8 list" where
  "run_text lm img P date time a0 ls w = hardware_text lm (uart_ty w) @ boot_text img date time a0 (reset_state lm w) @
     banner_text @ session_text img P ls (ready_state img (reset_state lm w))"

lemma neutral_run:
  assumes "linked lm"
  shows "neutral (run_state lm img P ls :: 'a trap_machine_scheme \<Rightarrow> _)"
  unfolding run_state_def [abs_def]
  by (rule neutral_comp [OF neutral_reset [OF assms] neutral_comp [OF neutral_ready neutral_session]])

lemma steady_run_text:
  assumes "linked lm"
  shows "steady (run_text lm img P date time a0 ls :: 'a trap_machine_scheme \<Rightarrow> _)"
proof -
  note reset = neutral_reset [OF assms]
  have "steady (\<lambda>w :: 'a trap_machine_scheme. boot_text img date time a0 (reset_state lm w))"
    "steady (\<lambda>w :: 'a trap_machine_scheme. session_text img P ls (ready_state img (reset_state lm w)))"
    by (rule steady_neutral [OF reset steady_boot_text] steady_neutral [OF neutral_comp [OF reset neutral_ready] steady_session])+
  then show ?thesis by (simp add: run_text_def [abs_def] steady_def)
qed

lemma reset_program_ok:
  fixes w :: "'a trap_machine_scheme" and user_main :: "'a trap_machine_scheme user_code"
  assumes ok: "system_ok lm img date time w" and prog: "system_program lm img user_main P (ram w)" and fits: "session_fits lm P ls"
  shows "program_ok img user_main P (run_count ls) (reset_state lm w)"
proof (cases P)
  case (Some p)
  have lm: "linked lm" using ok by (simp add: system_ok_def)
  have "system_program lm img user_main P (ram (reset_state lm w))" by (rule system_program_same [OF prog rom_reset])
  moreover have "heap (reset_state lm w) = mem_init_heap (heap_symbol lm)" by (simp add: reset_state_def)
  moreover have "unat (world_at img) + 9 \<le> unat (bss_start lm)" using ok by (simp add: system_ok_def literal_at_def crnl_def)
  ultimately show ?thesis
    using fits Some reset_room(2) [OF lm, of w] by (simp add: program_ok_def system_program_def session_fits_def)
qed (simp add: program_ok_def)

lemma run_rom:
  fixes w :: "'a trap_machine_scheme" and user_main :: "'a trap_machine_scheme user_code"
  assumes ok: "system_ok lm img date time w" and prog: "system_program lm img user_main P (ram w)"
    and ls: "session_fits lm P ls" "ends_in P c ls"
  shows "rom_same lm img (ram w) (ram (run_state lm img P ls w))"
proof -
  let ?v = "reset_state lm w"
  have lm: "linked lm" using ok by (simp add: system_ok_def)
  have 1: "rom_same lm img (ram ?v) (ram (ready_state img ?v))" by (rule rom_ready [OF reset_room [OF lm]])
  have "session_ok img user_main P (run_count ls) (ready_state img ?v)"
    by (rule ready_session_ok [OF reset_boot_ok(1) [OF ok] reset_program_ok [OF ok prog ls(1)]])
  then have "rom_same lm img (ram (ready_state img ?v)) (ram (run_state lm img P ls w))"
    unfolding run_state_def by (rule rom_session [OF _ ls(2)]) (use prog in \<open>simp add: system_program_def\<close>)
  then show ?thesis using rom_same_trans [OF rom_same_trans [OF rom_reset 1]] by blast
qed

lemma run_keeps_ok:
  fixes w :: "'a trap_machine_scheme" and user_main :: "'a trap_machine_scheme user_code"
  assumes "system_ok lm img date time w" and "system_program lm img user_main P (ram w)"
    and "session_fits lm P ls" and "ends_in P c ls"
  shows "system_ok lm img date time (run_state lm img P ls w)" and "system_program lm img user_main P (ram (run_state lm img P ls w))"
proof -
  have lm: "linked lm" using assms(1) by (simp add: system_ok_def)
  note rom = run_rom [OF assms]
  show "system_ok lm img date time (run_state lm img P ls w)" by (rule system_ok_update [OF assms(1) neutral_run [OF lm] rom])
  show "system_program lm img user_main P (ram (run_state lm img P ls w))" by (rule system_program_same [OF assms(2) rom])
qed

text \<open>One start.\<close>

lemma start_session:
  assumes ok: "system_ok lm img date time w" and buf: "length buf = 128"
    and prog: "system_program lm img user_main P (ram w)" "session_fits lm P ls"
    and ls: "list_all2 (types (uart_ty w)) css ls" "ends_in P c ls"
    and input: "\<forall>j < length (concat css). rx_input w j = concat css ! j"
  shows "\<exists>w'. start lm img user_main buf a0 w = Some (kernel_exit c, w') \<and>
    uart_io (length (concat css)) (run_text lm img P date time a0 ls w @ last_text c (run_state lm img P ls w))
      (last_state c (run_state lm img P ls w)) w'"
proof -
  let ?v = "reset_state lm w" and ?k = "length (concat css)"
  let ?kernel = "\<lambda>v. boot_text img date time a0 v @ banner_text @ session_text img P ls (ready_state img v) @
      last_text c (session_state img P ls (ready_state img v))"
  have lm: "linked lm" and live: "uart_live w" and rx: "rx_live w" using ok by (simp_all add: system_ok_def)
  note neutral = neutral_reset [OF lm]
  from live obtain w1 where w1: "start_hardware lm w = Some w1" "uart_io 0 (hardware_text lm (uart_ty w)) ?v w1"
    by (rule performsE [OF start_hardware_performs [OF lm]]) simp
  have ty: "uart_ty w1 = uart_ty w" using uart_io_frame(2) [OF w1(2)] neutral_ty [OF neutral, of w] by simp
  have boot: "boot_ok img w1" "dated img date time w1"
    using reset_boot_ok [OF ok] boot_ok_io [OF _ w1(2)] steady_io [OF steady_dated w1(2)] by auto
  have prog1: "program_ok img user_main P (run_count ls) w1"
    by (rule program_ok_io [OF reset_program_ok [OF ok prog] w1(2)])
  have rx1: "rx_live w1" using rx_live_io [OF _ w1(2)] rx neutral_rx(1) [OF neutral] by blast
  have in1: "\<forall>j < ?k. rx_input w1 j = concat css ! j"
    using input rx_input_io [OF w1(2)] neutral_rx(2) [OF neutral, of w] by simp
  obtain w2 where w2: "kernel_main img user_main buf a0 w1 = Some (kernel_exit c, w2)"
      "uart_io ?k (?kernel w1) (last_state c (session_state img P ls (ready_state img w1))) w2"
    using kernel_main_session [OF boot rx1 buf _ ls(2) prog1 in1, of a0] ls(1) ty by (auto simp: Let_def)
  have after: "neutral (\<lambda>v. session_state img P ls (ready_state img v))" by (rule neutral_comp [OF neutral_ready neutral_session])
  have same: "?kernel w1 = ?kernel ?v"
    using steady_io [OF steady_boot_text w1(2)] steady_io [OF steady_neutral [OF neutral_ready steady_session] w1(2)]
      steady_io [OF steady_neutral [OF after steady_last] w1(2)] by simp
  have "uart_io ?k (hardware_text lm (uart_ty w) @ ?kernel ?v) (last_state c (session_state img P ls (ready_state img ?v))) w2"
    using uart_io_trans [OF neutral_io [OF neutral_comp [OF after neutral_last] w1(2)] w2(2)] same by simp
  moreover have "start lm img user_main buf a0 w = Some (kernel_exit c, w2)"
    using w1(1) w2(1) by (simp add: start_def kernel_exit_def)
  ultimately show ?thesis by (simp add: run_text_def run_state_def)
qed

text \<open>Sessions of which all but the last end in \<open>reboot\<close>, and the last in \<open>c\<close>: \<open>quit\<close>, or a program that does not return.\<close>

fun reboots :: "user_program option \<Rightarrow> command \<Rightarrow> (u8 list \<times> u8 list) list list \<Rightarrow> bool" where
  "reboots P c [] = False"
| "reboots P c (ls # rs) = (if rs = [] then ends_in P c ls \<and> c \<noteq> Reboot else ends_in P Reboot ls \<and> reboots P c rs)"

fun system_state :: "link_map \<Rightarrow> image \<Rightarrow> user_program option \<Rightarrow> (u8 list \<times> u8 list) list list \<Rightarrow> 'a trap_machine_scheme \<Rightarrow> 'a trap_machine_scheme" where
  "system_state lm img P [] w = w"
| "system_state lm img P (ls # rs) w = system_state lm img P rs (run_state lm img P ls w)"

fun system_text :: "link_map \<Rightarrow> image \<Rightarrow> user_program option \<Rightarrow> command \<Rightarrow> u8 list \<Rightarrow> u8 list \<Rightarrow> (nat \<Rightarrow> u8 list \<times> u64) \<Rightarrow> nat \<Rightarrow> (u8 list \<times> u8 list) list list \<Rightarrow>
    'a trap_machine_scheme \<Rightarrow> u8 list" where
  "system_text lm img P c date time left n [] w = last_text c w"
| "system_text lm img P c date time left n (ls # rs) w = run_text lm img P date time (snd (left n)) ls w @
     system_text lm img P c date time left (Suc n) rs (run_state lm img P ls w)"

lemma neutral_system:
  assumes "linked lm"
  shows "neutral (system_state lm img P rs :: 'a trap_machine_scheme \<Rightarrow> _)"
proof (induction rs)
  case (Cons ls rs)
  have "system_state lm img P (ls # rs) = (\<lambda>w :: 'a trap_machine_scheme. system_state lm img P rs (run_state lm img P ls w))" by (rule ext) simp
  then show ?case using neutral_comp [OF neutral_run [OF assms] Cons.IH] by simp
qed (simp add: neutral_def)

lemma steady_system:
  assumes "linked lm"
  shows "steady (system_text lm img P c date time left n rs :: 'a trap_machine_scheme \<Rightarrow> _)"
proof (induction rs arbitrary: n)
  case Nil
  have "system_text lm img P c date time left n [] = (last_text c :: 'a trap_machine_scheme \<Rightarrow> _)" by (rule ext) simp
  then show ?case using steady_last by simp
next
  case (Cons ls rs)
  have "system_text lm img P c date time left n (ls # rs) = (\<lambda>w :: 'a trap_machine_scheme. run_text lm img P date time (snd (left n)) ls w @
     system_text lm img P c date time left (Suc n) rs (run_state lm img P ls w))" by (rule ext) simp
  then show ?case
    using steady_pair [OF steady_run_text [OF assms] steady_neutral [OF neutral_run [OF assms] Cons.IH]] by simp
qed

text \<open>Where a session has ended in \<^verbatim>\<open>reboot\<close>, the next one starts as the first did.\<close>

lemma restart_ready:
  fixes w :: "'a trap_machine_scheme" and user_main :: "'a trap_machine_scheme user_code"
  assumes ok: "system_ok lm img date time w" "system_program lm img user_main P (ram w)" "session_fits lm P ls" "ends_in P c ls"
    and io: "uart_io (length cs) text (run_state lm img P ls w) w1"
    and input: "\<forall>j < length (cs @ ds). rx_input w j = (cs @ ds) ! j"
  shows "system_ok lm img date time w1" and "system_program lm img user_main P (ram w1)" and "uart_ty w1 = uart_ty w"
    and "\<forall>j < length ds. rx_input w1 j = ds ! j"
proof -
  have lm: "linked lm" using ok(1) by (simp add: system_ok_def)
  show "system_ok lm img date time w1" by (rule system_ok_io [OF run_keeps_ok(1) [OF ok] io])
  show "system_program lm img user_main P (ram w1)" using run_keeps_ok(2) [OF ok] uart_io_frame(3) [OF io] by simp
  show "uart_ty w1 = uart_ty w" using uart_io_frame(2) [OF io] neutral_ty [OF neutral_run [OF lm], of img P ls w] by simp
  show "\<forall>j < length ds. rx_input w1 j = ds ! j"
    using input rx_input_io [OF io] neutral_rx(2) [OF neutral_run [OF lm], of img P ls w] nth_append_length_plus [of cs ds]
    by simp
qed

lemma power_on_sessions:
  assumes "system_ok lm img date time w" and "\<forall>n. length (fst (left n)) = 128"
    and "list_all2 (list_all2 (types (uart_ty w))) ts rs" and "reboots P c rs"
    and "\<forall>j < length (concat (concat ts)). rx_input w j = concat (concat ts) ! j"
    and "system_program lm img user_main P (ram w)" and "list_all (session_fits lm P) rs"
  shows "\<exists>w'. power_on lm img user_main left n w = Some (Stopped, w') \<and>
    uart_io (length (concat (concat ts))) (system_text lm img P c date time left n rs w)
      (last_state c (system_state lm img P rs w)) w'"
  using assms
proof (induction rs arbitrary: ts n w rule: list.induct)
  case (Cons ls rs)
  obtain css ts' where ts: "ts = css # ts'" and css: "list_all2 (types (uart_ty w)) css ls"
      and rest: "list_all2 (list_all2 (types (uart_ty w))) ts' rs"
    using Cons.prems(3) by (auto simp: list_all2_Cons2)
  define d where "d = (if rs = [] then c else Reboot)"
  have d: "ends_in P d ls" using Cons.prems(4) by (auto simp: d_def split: if_splits)
  let ?u = "run_state lm img P ls w" and ?k = "length (concat css)" and ?buf = "fst (left n)" and ?a0 = "snd (left n)"
  have lm: "linked lm" and fits: "session_fits lm P ls" using Cons.prems(1,7) by (simp_all add: system_ok_def)
  have input: "\<forall>j < ?k. rx_input w j = concat css ! j" using Cons.prems(5) by (simp add: ts nth_append)
  have buf: "length ?buf = 128" using Cons.prems(2) by blast
  obtain w1 where w1: "start lm img user_main ?buf ?a0 w = Some (kernel_exit d, w1)"
      "uart_io ?k (run_text lm img P date time ?a0 ls w @ last_text d ?u) (last_state d ?u) w1"
    using start_session [OF Cons.prems(1) buf Cons.prems(6) fits css d input] by blast
  show ?case
  proof (cases "rs = []")
    case True
    then have "power_on lm img user_main left n w = Some (Stopped, w1)"
      using w1(1) Cons.prems(4) by (subst power_on.simps) (simp add: d_def kernel_exit_def)
    then show ?thesis using w1(2) True rest by (simp add: ts d_def)
  next
    case False
    then have io: "uart_io ?k (run_text lm img P date time ?a0 ls w) ?u w1"
      using w1(2) by (simp add: d_def last_text_def last_state_def)
    have on: "power_on lm img user_main left n w = power_on lm img user_main left (Suc n) w1"
      using w1(1) False by (subst power_on.simps) (simp add: d_def kernel_exit_def)
    have "\<forall>j < length (concat css @ concat (concat ts')). rx_input w j = (concat css @ concat (concat ts')) ! j"
      using Cons.prems(5) by (simp add: ts)
    note next_run = restart_ready [OF Cons.prems(1,6) fits d io this]
    have rs: "reboots P c rs" "list_all (session_fits lm P) rs" using Cons.prems(4,7) False by simp_all
    obtain w2 where w2: "power_on lm img user_main left (Suc n) w1 = Some (Stopped, w2)"
        "uart_io (length (concat (concat ts'))) (system_text lm img P c date time left (Suc n) rs w1)
           (last_state c (system_state lm img P rs w1)) w2"
      using Cons.IH [OF next_run(1) Cons.prems(2) _ rs(1) next_run(4,2) rs(2)] rest next_run(3) by auto
    have same: "system_text lm img P c date time left (Suc n) rs w1 = system_text lm img P c date time left (Suc n) rs ?u"
      by (rule steady_io [OF steady_system [OF lm] io])
    show ?thesis
      using on w2(1) uart_io_trans [OF neutral_io [OF neutral_comp [OF neutral_system [OF lm] neutral_last] io] w2(2)] same
      by (simp add: ts)
  qed
qed simp

section \<open>Properties\<close>

text \<open>
  C4.  From power-on to the end, through any number of restarts: if the keys that arrive are sessions that end with
  \<open>reboot\<close>, and a last one that ends with \<open>quit\<close> or by running a program that does not return, then the machine never gets stuck;
  it starts once for every session, clearing the kernel's variables and building the heap anew each time, prints for each start the
  hardware and boot messages, the banner and the session with the output of the programs it runs, and ends in the
  idle loop with interrupts enabled, or in the program.
\<close>

theorem system_runs:
  assumes "system_ok lm img date time w" and "\<forall>n. length (fst (left n)) = 128"
    and "list_all2 (list_all2 (types (uart_ty w))) ts rs" and "reboots P c rs"
    and "\<forall>j < length (concat (concat ts)). rx_input w j = concat (concat ts) ! j"
    and "system_program lm img user_main P (ram w)" and "list_all (session_fits lm P) rs"
  shows "\<exists>w'. power_on lm img user_main left 0 w = Some (Stopped, w') \<and>
    uart_io (length (concat (concat ts))) (system_text lm img P c date time left 0 rs w)
      (last_state c (system_state lm img P rs w)) w' \<and> (c = Quit \<longrightarrow> bit (csr_sstatus w') 1)"
proof -
  obtain w' where w': "power_on lm img user_main left 0 w = Some (Stopped, w')"
      "uart_io (length (concat (concat ts))) (system_text lm img P c date time left 0 rs w)
         (last_state c (system_state lm img P rs w)) w'"
    using power_on_sessions [OF assms] by blast
  then have "c = Quit \<longrightarrow> bit (csr_sstatus w') 1"
    using uart_io_frame [OF w'(2)] by (simp add: last_state_def CSR_SET_sstatus_def SSTATUS_SIE_def bit_simps)
  then show ?thesis using w' by blast
qed

definition demo_link :: link_map where
  "demo_link = \<lparr>bss_start = 0x8020E000, bss_end = 0x80211000, heap_symbol = 0x80210000, trap_vector_at = 0x80200100\<rparr>"

lemma demo_system_ok: "system_ok demo_link demo_image [] [] (demo_boot_machine keys)"
proof -
  let ?w = "demo_boot_machine keys"
  have b: "boot_ok demo_image ?w" "dated demo_image [] [] ?w" "rx_live ?w" by (rule demo_boot_facts)+
  then have parts: "uart_live ?w" "tests_ok demo_image" "is_cstr (ram_ptr (ram ?w) (world_at demo_image)) (str (''World!'' @ crnl))"
    "is_cstr (ram_ptr (ram ?w) (date_at demo_image)) []" "is_cstr (ram_ptr (ram ?w) (time_at demo_image)) []"
    by (simp_all add: boot_ok_def dated_def)
  have "\<not> in_arrays demo_image (world_at demo_image + of_nat i)" if "i \<le> 8" for i
    using parts(2) that by (simp add: tests_ok_def)
  moreover have "\<not> in_arrays demo_image (date_at demo_image)" "\<not> in_arrays demo_image (time_at demo_image)"
    by (simp_all add: in_arrays_def demo_image_def)
  moreover have "unat (world_at demo_image) + 8 < unat (bss_start demo_link)" "date_at demo_image < bss_start demo_link"
    "time_at demo_image < bss_start demo_link" "linked demo_link"
    by (simp_all add: demo_image_def demo_link_def linked_def)
  ultimately show ?thesis
    using parts b(3) by (simp add: system_ok_def literal_at_def crnl_def word_less_nat_alt)
qed

lemma demo_system_program:
  assumes "runs_as user_main p" and "prog_bytes p = replicate 4096 0" and "prog_low p = 0x80400000"
  shows "system_program demo_link demo_image user_main (Some p) (ram (demo_boot_machine keys))"
proof -
  have ram: "ram (demo_boot_machine keys) = put_str (world_at demo_image) (str (''World!'' @ crnl)) (\<lambda>a. 0)"
    by (simp add: demo_boot_machine_def)
  have "image_holds demo_image p (ram (demo_boot_machine keys))"
    unfolding ram by (intro demo_image_holds assms demo_world_ram)
  moreover have "user_prog_start demo_image = 0x80208000" "unat (user_prog_size demo_image) = 4096"
    "unat (bss_start demo_link) = 0x8020E000"
    by (simp_all add: demo_image_def user_prog_size_def demo_link_def)
  ultimately show ?thesis using assms(1,3) demo_outside_arrays by (simp add: system_program_def)
qed

lemma demo_tested_heap:
  "mem_init_heap (heap_symbol demo_link) = demo_heap" "heap_current (tested_heap demo_heap) = 0x804004D0"
  "heap_end (tested_heap demo_heap) = 0x8E000000" "heap_ok (tested_heap demo_heap)"
proof -
  show "mem_init_heap (heap_symbol demo_link) = demo_heap" by (simp add: demo_heap_def demo_link_def)
  show "heap_ok (tested_heap demo_heap)" by (rule tested_heap_ok [OF demo_heap_ok]) (simp add: demo_heap_eq)
  show "heap_current (tested_heap demo_heap) = 0x804004D0" "heap_end (tested_heap demo_heap) = 0x8E000000"
    by (simp_all add: tested_heap_def take_piece_def demo_heap_eq ALIGN_UP_def)
qed

lemma demo_session_fits: "prog_low p = 0x80400000 \<Longrightarrow> run_count ls \<le> 32 \<Longrightarrow> session_fits demo_link (Some p) ls"
  by (simp add: session_fits_def stack_room_def demo_tested_heap)

theorem system_runs_witness:
  "(\<exists>w'. power_on demo_link demo_image exit_code (\<lambda>n. (replicate 128 0, 0)) 0
      (demo_boot_machine (str ''u'' @ [13] @ str ''r'' @ [13] @ str ''q'' @ [13])) = Some (Stopped, w') \<and> bit (csr_sstatus w') 1) \<and>
   (\<exists>w'. power_on demo_link demo_image greet_code (\<lambda>n. (replicate 128 0, 0)) 0
      (demo_boot_machine (str ''r'' @ [13] @ str ''u'' @ [13])) = Some (Stopped, w') \<and> heap_current (heap w') = 0x804104D0)"
proof
  let ?ts = "[[str ''u'' @ [13], str ''r'' @ [13]], [str ''q'' @ [13]]]"
  let ?rs = "[[(str ''u'', str ''u'' @ [13, 10]), (str ''r'', str ''r'' @ [13, 10])], [(str ''q'', str ''q'' @ [13, 10])]]"
  let ?w = "demo_boot_machine (concat (concat ?ts))" and ?P = "Some quiet_program"
  have e: "entry_of (str ''u'') = Cmd Run" "entry_of (str ''r'') = Cmd Reboot" "entry_of (str ''q'') = Cmd Quit"
    by (simp_all add: entry_of_def typed_command_def trim_end_def lookup_command_chain)
  have 1: "list_all2 (list_all2 (types (uart_ty ?w))) ?ts ?rs" by (simp add: types_def demo_boot_facts line_end_def)
  have 2: "reboots ?P Quit ?rs" using e by (simp add: leaves_def quiet_program_def del: str_simps)
  have 3: "system_program demo_link demo_image exit_code ?P (ram ?w)"
    by (rule demo_system_program [OF quiet_runs]) (simp_all add: quiet_program_def)
  have 4: "list_all (session_fits demo_link ?P) ?rs"
    using e by (simp del: str_simps) (intro conjI demo_session_fits; simp add: quiet_program_def uses_run_def del: str_simps)
  show "\<exists>w'. power_on demo_link demo_image exit_code (\<lambda>n. (replicate 128 0, 0)) 0
      (demo_boot_machine (str ''u'' @ [13] @ str ''r'' @ [13] @ str ''q'' @ [13])) = Some (Stopped, w') \<and> bit (csr_sstatus w') 1"
    using system_runs [OF demo_system_ok _ 1 2 _ 3 4, of "\<lambda>n. (replicate 128 0, 0)"] demo_boot_facts(5)
    by (auto simp del: str_simps)
next
  let ?ts = "[[str ''r'' @ [13]], [str ''u'' @ [13]]]"
  let ?rs = "[[(str ''r'', str ''r'' @ [13, 10])], [(str ''u'', str ''u'' @ [13, 10])]]"
  let ?w = "demo_boot_machine (concat (concat ?ts))" and ?P = "Some greet_program"
  have p: "prog_bytes greet_program = replicate 4096 0" "prog_low greet_program = 0x80400000" "prog_halts greet_program"
    by (simp_all add: greet_program_def quiet_program_def)
  have e: "entry_of (str ''u'') = Cmd Run" "entry_of (str ''r'') = Cmd Reboot"
    by (simp_all add: entry_of_def typed_command_def trim_end_def lookup_command_chain)
  have 1: "list_all2 (list_all2 (types (uart_ty ?w))) ?ts ?rs" by (simp add: types_def demo_boot_facts line_end_def)
  have 2: "reboots ?P Run ?rs" using e by (simp add: leaves_def p del: str_simps)
  have 3: "system_program demo_link demo_image greet_code ?P (ram ?w)" by (rule demo_system_program [OF greet_runs p(1,2)])
  have 4: "list_all (session_fits demo_link ?P) ?rs"
    using e by (simp del: str_simps) (intro conjI demo_session_fits; simp add: p uses_run_def del: str_simps)
  have "heap_current (heap (system_state demo_link demo_image ?P ?rs ?w)) = 0x804104D0"
    using e by (simp add: run_state_def command_state_eq program_state_def reset_state_def ready_regs take_piece_def ALIGN_UP_def
        demo_tested_heap [unfolded take_piece_def] del: str_simps)
  then show "\<exists>w'. power_on demo_link demo_image greet_code (\<lambda>n. (replicate 128 0, 0)) 0
      (demo_boot_machine (str ''r'' @ [13] @ str ''u'' @ [13])) = Some (Stopped, w') \<and> heap_current (heap w') = 0x804104D0"
    using system_runs [OF demo_system_ok _ 1 2 _ 3 4, of "\<lambda>n. (replicate 128 0, 0)"] demo_boot_facts(5)
    by (auto simp: uart_io_def last_state_def simp del: str_simps)
qed

end
