(* ===== verification/Idle.thy ===== *)
theory Idle
  imports Boot
begin

text \<open>
  The idle loop at the end of \<^verbatim>\<open>kernel_main\<close>, \<^verbatim>\<open>while (1) WFI();\<close>, and the timer interrupts that arrive in it.  A run of the
  loop is given by the number of times the timer fires; the handler's leftovers in registers and stack are arbitrary.
\<close>

section \<open>Definitions\<close>

text \<open>The cause of a timer interrupt; the hart takes it only when \<^verbatim>\<open>SIE\<close> and \<^verbatim>\<open>STIE\<close> are set.\<close>

definition timer_cause :: u64 where
  "timer_cause = INTERRUPT_BIT OR IRQ_S_TIMER"

definition interrupts_on :: "'a machine_scheme \<Rightarrow> bool" where
  "interrupts_on w \<longleftrightarrow> READ_SSTATUS w AND SSTATUS_SIE \<noteq> 0 \<and> READ_SIE w AND SIE_STIE \<noteq> 0"

definition take_interrupt :: "u64 \<Rightarrow> cpu_t \<Rightarrow> cpu_t \<Rightarrow> 'a trap_machine_scheme \<Rightarrow> (cpu_t outcome \<times> 'a trap_machine_scheme) option" where
  "take_interrupt slot0 left cpu w = do {
     let w = WRITE_SSTATUS (trap_sstatus (READ_SSTATUS w)) w;
     (r, w) \<leftarrow> trap_handler slot0 left (cpu\<lparr>csr_scause := timer_cause, csr_stval := 0\<rparr>) w;
     Some (case r of
         Returned cpu \<Rightarrow> (Returned cpu, WRITE_SSTATUS (sret_sstatus (READ_SSTATUS w)) w)
       | Halted \<Rightarrow> (Halted, w)) }"

text \<open>The loop while the timer fires \<open>n\<close> times; \<open>left\<close> gives what the handler leaves each time.\<close>

fun idle_loop :: "(nat \<Rightarrow> u64 \<times> cpu_t) \<Rightarrow> nat \<Rightarrow> cpu_t \<Rightarrow> 'a trap_machine_scheme \<Rightarrow> (cpu_t outcome \<times> 'a trap_machine_scheme) option" where
  "idle_loop left 0 cpu w = Some (Returned cpu, w)"
| "idle_loop left (Suc n) cpu w =
     (if interrupts_on w then do {
        (r, w) \<leftarrow> take_interrupt (fst (left n)) (snd (left n)) cpu w;
        case r of
          Returned cpu \<Rightarrow> idle_loop left n cpu w
        | Halted \<Rightarrow> Some (Halted, w) }
      else idle_loop left n cpu w)"

section \<open>One interrupt\<close>

definition idle_ok :: "nat \<Rightarrow> 'a trap_machine_scheme \<Rightarrow> bool" where
  "idle_ok n w \<longleftrightarrow> kernel_ok w \<and> clock_at n w \<and> handler_of w timer_cause = DefaultInterrupt \<and> interrupts_on w"

definition irq_state :: "nat \<Rightarrow> 'a trap_machine_scheme \<Rightarrow> 'a trap_machine_scheme" where
  "irq_state n w = tick_state n (w\<lparr>csr_sstatus := sret_sstatus (trap_sstatus (csr_sstatus w)), trap_count := trap_count w + 1\<rparr>)"

definition same_code :: "cpu_t \<Rightarrow> cpu_t \<Rightarrow> bool" where
  "same_code c d \<longleftrightarrow> gpr d = gpr c \<and> fpr d = fpr c \<and> csr_sepc d = csr_sepc c \<and> csr_fcsr d = csr_fcsr c"

lemma neutral_irq: "neutral (irq_state n)"
  by (rule neutralI) (simp_all add: irq_state_def tick_state_def)

lemma sie_after_sret: "bit s 1 \<Longrightarrow> bit (sret_sstatus (trap_sstatus s)) 1"
  by (simp add: sret_sstatus_def trap_sstatus_def bit_simps)

lemma interrupts_on_bits: "interrupts_on w \<longleftrightarrow> bit (csr_sstatus w) 1 \<and> bit (csr_sie w) 5"
  by (simp only: interrupts_on_def READ_SSTATUS_def READ_SIE_def SSTATUS_SIE_def SIE_STIE_def bit_iff_and_push_bit_not_eq_0)

lemma idle_ok_irq:
  assumes "idle_ok n w"
  shows "idle_ok (Suc n) (irq_state (Suc n) w)"
proof -
  let ?v = "irq_state (Suc n) w"
  have "uart_live ?v = uart_live w" by (rule uart_live_cong) (simp_all add: irq_state_def tick_state_def)
  moreover have "clock_at (Suc n) ?v" unfolding irq_state_def by (rule clock_tick_state)
  moreover have "tables_wf ?v = tables_wf w" "handler_of ?v c = handler_of w c"
    "exception_handlers ?v = exception_handlers w" "interrupt_handlers ?v = interrupt_handlers w" for c
    by (simp_all add: tables_wf_def handler_of_def Let_def exception_entry_def interrupt_entry_def irq_state_def tick_state_def)
  moreover have "interrupts_on ?v"
    using assms sie_after_sret [of "csr_sstatus w"] by (simp add: idle_ok_def interrupts_on_bits irq_state_def tick_state_def)
  ultimately show ?thesis using assms by (auto simp: idle_ok_def kernel_ok_def)
qed

lemma idle_ok_io:
  assumes "idle_ok n w" and "uart_io k bs w w'"
  shows "idle_ok n w'"
  using assms kernel_ok_io [OF _ assms(2)] clock_io [OF assms(2)] handler_of_io [OF assms(2)] uart_io_frame [OF assms(2)]
  by (simp add: idle_ok_def interrupts_on_bits)

lemma take_interrupt_ticks:
  assumes "idle_ok n w" and "length (gpr cpu) = 32" and "gpr cpu ! 0 = 0"
  shows "\<exists>cpu' w'. take_interrupt slot0 left cpu w = Some (Returned cpu', w') \<and> same_code cpu cpu' \<and>
    uart_io 0 (count_text (trap_count w + 1) @ tick_text (Suc n)) (irq_state (Suc n) w) w'"
proof -
  let ?v = "WRITE_SSTATUS (trap_sstatus (csr_sstatus w)) w"
  let ?c = "cpu\<lparr>csr_scause := timer_cause, csr_stval := 0\<rparr>"
  have cause: "timer_cause = 0x8000000000000005" by (simp add: timer_cause_def INTERRUPT_BIT_def cause_defs)
  have v: "kernel_ok ?v" "clock_at n ?v" "handler_of ?v 0x8000000000000005 = DefaultInterrupt"
    using assms(1) by (simp_all add: idle_ok_def cause) (simp add: clock_at_def WRITE_SSTATUS_def)
  have c: "csr_scause ?c = 0x8000000000000005" "length (gpr ?c) = 32" "gpr ?c ! 0 = 0" using assms(2,3) by (simp_all add: cause)
  obtain w1 where w1: "trap_handler slot0 left ?c ?v = Some (Returned (?c\<lparr>csr_scause := csr_scause left, csr_stval := csr_stval left\<rparr>), w1)"
      "uart_io 0 (count_text (trap_count ?v + 1) @ tick_text (Suc n)) (tick_state (Suc n) (?v\<lparr>trap_count := trap_count ?v + 1\<rparr>)) w1"
    using timer_trap [OF v(1,2) c(1) v(3) c(2,3)] by blast
  have s: "csr_sstatus w1 = trap_sstatus (csr_sstatus w)"
    using uart_io_frame [OF w1(2)] by (simp add: tick_state_def WRITE_SSTATUS_def)
  let ?w' = "WRITE_SSTATUS (sret_sstatus (csr_sstatus w1)) w1"
  have eq: "WRITE_SSTATUS (sret_sstatus (csr_sstatus w1)) (tick_state (Suc n) (?v\<lparr>trap_count := trap_count ?v + 1\<rparr>)) = irq_state (Suc n) w"
    by (simp add: s irq_state_def tick_state_def WRITE_SSTATUS_def)
  have "uart_io 0 (count_text (trap_count w + 1) @ tick_text (Suc n)) (irq_state (Suc n) w) ?w'"
    using neutral_io [OF neutral_sstatus [of "sret_sstatus (csr_sstatus w1)"] w1(2)] unfolding eq by (simp add: WRITE_SSTATUS_def)
  moreover have "take_interrupt slot0 left cpu w = Some (Returned (?c\<lparr>csr_scause := csr_scause left, csr_stval := csr_stval left\<rparr>), ?w')"
    using w1(1) by (simp add: take_interrupt_def READ_SSTATUS_def)
  moreover have "same_code cpu (?c\<lparr>csr_scause := csr_scause left, csr_stval := csr_stval left\<rparr>)" by (simp add: same_code_def)
  ultimately show ?thesis by blast
qed

section \<open>Any number of interrupts\<close>

fun irq_states :: "nat \<Rightarrow> nat \<Rightarrow> 'a trap_machine_scheme \<Rightarrow> 'a trap_machine_scheme" where
  "irq_states k 0 w = w"
| "irq_states k (Suc n) w = irq_states (Suc k) n (irq_state (Suc k) w)"

definition irqs_text :: "nat \<Rightarrow> u64 \<Rightarrow> nat \<Rightarrow> u8 list" where
  "irqs_text k c n = concat (map (\<lambda>i. count_text (c + of_nat (Suc i)) @ tick_text (Suc (k + i))) [0..<n])"

lemma irqs_text_Suc: "irqs_text k c (Suc n) = (count_text (c + 1) @ tick_text (Suc k)) @ irqs_text (Suc k) (c + 1) n"
proof -
  have "[0..<Suc n] = 0 # map Suc [0..<n]" by (simp add: upt_conv_Cons map_Suc_upt del: upt_Suc)
  then show ?thesis unfolding irqs_text_def by (simp add: o_def ac_simps)
qed

lemma neutral_irqs: "neutral (irq_states k n :: 'a trap_machine_scheme \<Rightarrow> _)"
proof (induction n arbitrary: k)
  case (Suc n)
  have "irq_states k (Suc n) = (\<lambda>w :: 'a trap_machine_scheme. irq_states (Suc k) n (irq_state (Suc k) w))" by (rule ext) simp
  then show ?case using neutral_comp [OF neutral_irq Suc.IH] by simp
qed (simp add: neutral_def)

lemma idle_ok_irqs: "idle_ok k w \<Longrightarrow> idle_ok (k + n) (irq_states k n w)"
proof (induction n arbitrary: k w)
  case (Suc n)
  then show ?case using Suc.IH [OF idle_ok_irq [OF Suc.prems]] by simp
qed simp

lemma same_code_trans: "same_code c d \<Longrightarrow> same_code d e \<Longrightarrow> same_code c e"
  by (simp add: same_code_def)

lemma idle_loop_ticks:
  assumes "idle_ok k w" and "length (gpr cpu) = 32" and "gpr cpu ! 0 = 0"
  shows "\<exists>cpu' w'. idle_loop left n cpu w = Some (Returned cpu', w') \<and> same_code cpu cpu' \<and>
    uart_io 0 (irqs_text k (trap_count w) n) (irq_states k n w) w'"
  using assms
proof (induction n arbitrary: k cpu w)
  case 0
  show ?case using uart_io_refl by (auto simp: same_code_def irqs_text_def)
next
  case (Suc n)
  obtain c1 w1 where w1: "take_interrupt (fst (left n)) (snd (left n)) cpu w = Some (Returned c1, w1)" "same_code cpu c1"
      "uart_io 0 (count_text (trap_count w + 1) @ tick_text (Suc k)) (irq_state (Suc k) w) w1"
    using take_interrupt_ticks [OF Suc.prems] by blast
  have ok: "idle_ok (Suc k) w1" by (rule idle_ok_io [OF idle_ok_irq [OF Suc.prems(1)] w1(3)])
  have count: "trap_count w1 = trap_count w + 1"
    using trap_tables_io(4) [OF w1(3)] by (simp add: irq_state_def tick_state_def)
  have regs: "length (gpr c1) = 32" "gpr c1 ! 0 = 0" using w1(2) Suc.prems by (simp_all add: same_code_def)
  obtain c2 w2 where w2: "idle_loop left n c1 w1 = Some (Returned c2, w2)" "same_code c1 c2"
      "uart_io 0 (irqs_text (Suc k) (trap_count w1) n) (irq_states (Suc k) n w1) w2"
    using Suc.IH [OF ok regs] by blast
  have "uart_io 0 (irqs_text k (trap_count w) (Suc n)) (irq_states k (Suc n) w) w2"
    using uart_io_trans [OF neutral_io [OF neutral_irqs w1(3)] w2(3)] count by (simp add: irqs_text_Suc)
  moreover have "idle_loop left (Suc n) cpu w = Some (Returned c2, w2)"
    using w1(1) w2(1) Suc.prems(1) by (simp add: idle_ok_def)
  ultimately show ?case using same_code_trans [OF w1(2) w2(2)] by blast
qed

section \<open>The idle loop of the started system\<close>

text \<open>What a session leaves of the timer: it stands at 0, with its interrupt armed and its handler in place.\<close>

definition timer_waiting :: "'a trap_machine_scheme \<Rightarrow> bool" where
  "timer_waiting w \<longleftrightarrow> kernel_ok w \<and> clock_at 0 w \<and> handler_of w timer_cause = DefaultInterrupt \<and> bit (csr_sie w) 5"

lemma timer_waiting_io:
  assumes "timer_waiting w" and "uart_io k bs w w'"
  shows "timer_waiting w'"
  using assms kernel_ok_io [OF _ assms(2)] clock_io [OF assms(2)] handler_of_io [OF assms(2)] uart_io_frame [OF assms(2)]
  by (simp add: timer_waiting_def)

lemma timer_waiting_same:
  assumes "timer_waiting w" and "kernel_ok v" and "\<And>n. clock_at n v = clock_at n w"
    and "exception_handlers v = exception_handlers w" and "interrupt_handlers v = interrupt_handlers w" and "csr_sie v = csr_sie w"
  shows "timer_waiting v"
proof -
  have "handler_of v timer_cause = handler_of w timer_cause"
    unfolding handler_of_def exception_entry_def interrupt_entry_def assms(4,5) ..
  then show ?thesis using assms by (simp add: timer_waiting_def)
qed

lemma ready_timer_waiting:
  assumes "boot_ok img w" and "clock_at 0 w"
  shows "timer_waiting (ready_state img w)"
proof -
  let ?e = "exception_init (current_sp img) (fpu_on w)" and ?r = "ready_state img w"
  have ok: "kernel_ok ?r" using ready_shell_ok [OF assms(1)] by (simp add: shell_ok_def breakpoint_ok_def)
  have wf: "tables_wf (fpu_on w)" using assms(1) by (simp add: boot_ok_def tables_wf_def fpu_on_def WRITE_SSTATUS_def)
  have clock: "clock_at 0 ?r"
    using assms(2) by (simp add: ready_state_def clock_at_def tested_state_def register_syscall_handler_def enable_state_def
        timer_init_state_def timer_reset_stats_def CSR_WRITE_sie_def exception_init_def Let_def register_exception_handler_def
        CSR_WRITE_sscratch_def fpu_on_def WRITE_SSTATUS_def)
  have "interrupt_handlers ?r = interrupt_handlers ?e"
    by (simp add: ready_state_def tested_state_def register_syscall_handler_def enable_state_def
        timer_init_state_def timer_reset_stats_def CSR_WRITE_sie_def)
  then have "interrupt_entry ?r 5 = DefaultInterrupt"
    using exception_init_tables(3) [OF wf, of 5] by (simp add: interrupt_entry_def)
  then have "handler_of ?r timer_cause = DefaultInterrupt"
    by (simp add: handler_of_def timer_cause_def INTERRUPT_BIT_def cause_defs)
  then show ?thesis using ok clock by (simp add: timer_waiting_def ready_regs bit_simps)
qed

lemma command_tables:
  "exception_handlers (command_state img P e w) = exception_handlers w" "interrupt_handlers (command_state img P e w) = interrupt_handlers w"
  "syscall_handlers (command_state img P e w) = syscall_handlers w" "csr_sie (command_state img P e w) = csr_sie w"
  "clock_at n (command_state img P e w) = clock_at n w"
  by (cases P; simp add: command_state_eq breakpoint_state_def program_state_def clock_at_def)+

lemma command_timer_waiting: "timer_waiting w \<Longrightarrow> timer_waiting (command_state img P e w)"
  by (rule timer_waiting_same)
    (auto simp: timer_waiting_def kernel_ok_def tables_wf_def command_tables neutral_live [OF neutral_command])

lemma session_timer_waiting: "timer_waiting w \<Longrightarrow> timer_waiting (session_state img P ls w)"
  by (induction ls arbitrary: w) (simp_all add: command_timer_waiting)

lemma run_timer_waiting:
  assumes "system_ok lm img date time w"
  shows "timer_waiting (run_state lm img P ls w)"
proof -
  have "boot_ok img (reset_state lm w)" by (rule reset_boot_ok [OF assms])
  moreover have "clock_at 0 (reset_state lm w)" by (simp add: clock_at_def reset_state_def bss_cleared_def zero_variables_def)
  ultimately show ?thesis unfolding run_state_def by (intro session_timer_waiting ready_timer_waiting)
qed

lemma system_timer_waiting:
  fixes w :: "'a trap_machine_scheme" and user_main :: "'a trap_machine_scheme user_code"
  assumes "system_ok lm img date time w" and "system_program lm img user_main P (ram w)"
    and "list_all (session_fits lm P) rs" and "reboots P c rs"
  shows "timer_waiting (system_state lm img P rs w)"
  using assms
proof (induction rs arbitrary: w)
  case (Cons ls rs)
  show ?case
  proof (cases "rs = []")
    case True
    then show ?thesis using run_timer_waiting [OF Cons.prems(1), of P ls] by simp
  next
    case False
    then have ls: "session_fits lm P ls" "ends_in P Reboot ls" using Cons.prems(3,4) by simp_all
    show ?thesis
      using Cons.IH [OF run_keeps_ok [OF Cons.prems(1,2) ls]] Cons.prems(3,4) False by simp
  qed
qed simp

lemma idle_ok_started:
  assumes t: "timer_waiting (system_state lm img P rs w)"
    and io: "uart_io k bs (CSR_SET_sstatus SSTATUS_SIE (system_state lm img P rs w)) w'"
  shows "idle_ok 0 w'"
proof -
  let ?v = "CSR_SET_sstatus SSTATUS_SIE (system_state lm img P rs w)"
  have eq: "?v = WRITE_SSTATUS (csr_sstatus (system_state lm img P rs w) OR SSTATUS_SIE) (system_state lm img P rs w)"
    by (simp add: CSR_SET_sstatus_def WRITE_SSTATUS_def)
  have "kernel_ok ?v" "handler_of ?v timer_cause = DefaultInterrupt" using t unfolding eq by (simp_all add: timer_waiting_def)
  moreover have "clock_at 0 ?v" "interrupts_on ?v"
    using t by (simp_all add: timer_waiting_def clock_at_def interrupts_on_bits CSR_SET_sstatus_def SSTATUS_SIE_def bit_simps)
  ultimately show ?thesis by (intro idle_ok_io [OF _ io]) (simp add: idle_ok_def)
qed

section \<open>Properties\<close>

text \<open>
  C39.  The started system keeps time: after the sessions of \<open>system_runs\<close> the kernel idles with interrupts on, and
  while the timer fires \<open>n\<close> times the loop's registers are preserved, every interrupt is taken and counted, the uptime is that of
  \<open>n\<close> ticks of 10 ms, and exactly the trap counts and the uptime lines are printed.
\<close>

theorem system_keeps_time:
  assumes "system_ok lm img date time w" and "\<forall>n. length (fst (left n)) = 128"
    and "list_all2 (list_all2 (types (uart_ty w))) ts rs" and "reboots P Quit rs"
    and "\<forall>j < length (concat (concat ts)). rx_input w j = concat (concat ts) ! j"
    and "system_program lm img user_main P (ram w)" and "list_all (session_fits lm P) rs"
    and "length (gpr cpu) = 32" and "gpr cpu ! 0 = 0"
  shows "\<exists>w' cpu' w''. power_on lm img user_main left 0 w = Some (Stopped, w') \<and>
    idle_loop leave n cpu w' = Some (Returned cpu', w'') \<and> same_code cpu cpu' \<and>
    timer_get_system_ticks w'' = of_nat n \<and> timer_get_uptime_ms w'' = of_nat (10 * n) \<and>
    timer_get_uptime_seconds w'' = of_nat (n div 100) \<and>
    mmio_log w'' = mmio_log w' @ map (\<lambda>b. (uart_data w', ucast b)) (irqs_text 0 (trap_count w') n) \<and>
    interrupts_on w'' \<and> kernel_ok w''"
proof -
  obtain w' where w': "power_on lm img user_main left 0 w = Some (Stopped, w')"
      "uart_io (length (concat (concat ts))) (system_text lm img P Quit date time left 0 rs w)
         (CSR_SET_sstatus SSTATUS_SIE (system_state lm img P rs w)) w'"
    using power_on_sessions [OF assms(1-7)] by (auto simp: last_state_def)
  have ok: "idle_ok 0 w'"
    by (rule idle_ok_started [OF system_timer_waiting [OF assms(1,6,7,4)] w'(2)])
  obtain cpu' w'' where w'': "idle_loop leave n cpu w' = Some (Returned cpu', w'')" "same_code cpu cpu'"
      "uart_io 0 (irqs_text 0 (trap_count w') n) (irq_states 0 n w') w''"
    using idle_loop_ticks [OF ok assms(8,9)] by blast
  have fin: "idle_ok n w''" using idle_ok_io [OF idle_ok_irqs [OF ok] w''(3)] by simp
  have "mmio_log w'' = mmio_log w' @ map (\<lambda>b. (uart_data w', ucast b)) (irqs_text 0 (trap_count w') n)"
    using uart_io_regs(3) [OF w''(3)] neutral_log [OF neutral_irqs [of 0 n], of w'] by simp
  moreover have "timer_get_system_ticks w'' = of_nat n" "timer_get_uptime_ms w'' = of_nat (10 * n)"
    "timer_get_uptime_seconds w'' = of_nat (n div 100)"
    using fin by (simp_all add: idle_ok_def clock_at_def timer_get_system_ticks_def timer_get_uptime_ms_def
        timer_get_uptime_seconds_def TIMER_TICK_MS_def)
  ultimately show ?thesis using w'(1) w''(1,2) fin unfolding idle_ok_def by blast
qed

theorem system_keeps_time_witness:
  "\<exists>w' cpu' w''. power_on demo_link demo_image exit_code (\<lambda>n. (replicate 128 0, 0)) 0
       (demo_boot_machine (str ''u'' @ [13] @ str ''q'' @ [13])) = Some (Stopped, w') \<and>
     idle_loop (\<lambda>n. (0, demo_cpu 0)) 250 (demo_cpu 0) w' = Some (Returned cpu', w'') \<and>
     timer_get_uptime_seconds w'' = 2 \<and> timer_get_uptime_ms w'' = 2500"
proof -
  let ?ts = "[[str ''u'' @ [13], str ''q'' @ [13]]]" and ?rs = "[[(str ''u'', str ''u'' @ [13, 10]), (str ''q'', str ''q'' @ [13, 10])]]"
  let ?w = "demo_boot_machine (concat (concat ?ts))" and ?P = "Some quiet_program"
  have e: "entry_of (str ''u'') = Cmd Run" "entry_of (str ''q'') = Cmd Quit"
    by (simp_all add: entry_of_def typed_command_def trim_end_def lookup_command_chain)
  have rs: "reboots ?P Quit ?rs" using e by (simp add: leaves_def quiet_program_def del: str_simps)
  have ts: "list_all2 (list_all2 (types (uart_ty ?w))) ?ts ?rs" by (simp add: types_def demo_boot_facts line_end_def)
  have prog: "system_program demo_link demo_image exit_code ?P (ram ?w)"
    by (rule demo_system_program [OF quiet_runs]) (simp_all add: quiet_program_def)
  have fits: "list_all (session_fits demo_link ?P) ?rs"
    using e by (simp del: str_simps) (intro demo_session_fits; simp add: quiet_program_def uses_run_def del: str_simps)
  have cpu: "length (gpr (demo_cpu 0)) = 32" "gpr (demo_cpu 0) ! 0 = 0" by (simp_all add: demo_cpu_def)
  obtain w' cpu' w'' where "power_on demo_link demo_image exit_code (\<lambda>n. (replicate 128 0, 0)) 0 ?w = Some (Stopped, w')"
      "idle_loop (\<lambda>n. (0, demo_cpu 0)) 250 (demo_cpu 0) w' = Some (Returned cpu', w'')"
      "timer_get_uptime_ms w'' = of_nat (10 * 250)" "timer_get_uptime_seconds w'' = of_nat (250 div 100)"
    using system_keeps_time [OF demo_system_ok _ ts rs _ prog fits cpu, of "\<lambda>n. (replicate 128 0, 0)" "\<lambda>n. (0, demo_cpu 0)" 250]
      demo_boot_facts(5) by (auto simp del: str_simps)
  then show ?thesis by auto
qed

end
