(* ===== verification/Spec2Isabelle.thy ===== *)
theory Spec2Isabelle
  imports Heap CString LoggerText Gateway Idle
begin

text \<open>
  TestOS for RISC-V: a verification library for the kernel of \<^verbatim>\<open>testos-riscv\<close>.

  \<^bold>\<open>The program.\<close>  TestOS is a small supervisor-mode kernel for RV64 (QEMU \<^verbatim>\<open>virt\<close> and the SG2002 board).
  \<^verbatim>\<open>src/boot/boot.S\<close> starts it: interrupts off, the word \<^verbatim>\<open>Boot\<close> on the UART, trap vector, \<^verbatim>\<open>.bss\<close> cleared, heap
  initialised, then \<^verbatim>\<open>kernel_main\<close> (\<^verbatim>\<open>src/entry.c\<close>): boot log, floating-point unit, trap tables, timer, two system
  calls, a test of the allocator, and an interactive shell on the UART.  The shell's commands print information, run
  self tests, load and call an embedded user program, jump back to \<^verbatim>\<open>_start\<close> (\<^verbatim>\<open>reboot\<close>) or leave the shell
  (\<^verbatim>\<open>quit\<close>), after which interrupts are enabled and the kernel idles, counting timer ticks.
  Everything that prints goes through the UART drivers, directly or by way of the logger; traps go
  through the assembly entry to the handler tables, the timer handler and the system calls; the shell uses all of them.

  \<^bold>\<open>The theories, and the code they model.\<close>
  \<^item> \<open>TestosPrelude\<close>: the integer types, alignment macros and byte accesses of \<^verbatim>\<open>include/types.h\<close> and of C on RV64;
    character pointers, local arrays, digit expansions, shared word and list lemmas.
  \<^item> \<open>Memory\<close>: double words in byte-addressed memory, for stacks and frames.
  \<^item> \<open>Machine\<close>: memory, device registers, the \<^verbatim>\<open>time\<close> counter, the CSRs of \<^verbatim>\<open>include/sysreg.h\<close> and the configuration of
    \<^verbatim>\<open>include/cfg/cfg.h\<close>; \<open>uart_io k bs w w'\<close> says that \<open>w'\<close> is \<open>w\<close> after \<open>k\<close> bytes were received and \<open>bs\<close> sent.
  \<^item> \<open>Console\<close>: polling loops, character loops and line editing, and the locales \<open>console_tx\<close> and \<open>console\<close>.
  \<^item> \<open>DwUart\<close>, \<open>Pl011\<close>, \<open>Uart\<close>: \<^verbatim>\<open>src/dev/dw_uart.c\<close>, \<^verbatim>\<open>src/dev/pl011.c\<close>, \<^verbatim>\<open>src/dev/uart.c\<close> and \<^verbatim>\<open>include/uart.h\<close>; each
    interprets \<open>console\<close>.
  \<^item> \<open>Heap\<close>: \<^verbatim>\<open>src/mem/mem.c\<close>; the locales \<open>allocator\<close> and \<open>zeroing_allocator\<close>, interpreted as \<open>kheap\<close>.
  \<^item> \<open>CString\<close>: \<^verbatim>\<open>src/lib/string.c\<close>.
  \<^item> \<open>Logger\<close>, \<open>LoggerText\<close>: \<^verbatim>\<open>src/lib/logger.c\<close>, and the text that its formats mean.
  \<^item> \<open>Effects\<close>: how the effects of printing and state-changing calls compose (\<open>performs\<close>, \<open>yields\<close>).
  \<^item> \<open>Timer\<close>: \<^verbatim>\<open>src/timer.c\<close>.
  \<^item> \<open>Trap\<close>, \<open>TrapLaws\<close>: \<^verbatim>\<open>src/exception/exception.c\<close>, the system calls of \<^verbatim>\<open>src/entry.c\<close>, and the entry and exit code of
    \<^verbatim>\<open>src/exception/exception.S\<close>; the locale \<open>handler_table\<close>, interpreted for the three tables as \<open>ex\<close>, \<open>irq\<close> and \<open>sys\<close>.
  \<^item> \<open>TrapFrame\<close>: the instructions of that entry and exit code, and the frame as a C struct on the stack.
  \<^item> \<open>Gateway\<close>: the table of entries that user programs jump to, and the stub behind it, as a call that returns.
  \<^item> \<open>UserProg\<close>, \<open>SelfTest\<close>, \<open>Shell\<close>, \<open>Kernel\<close>: the start stack and the loading of the user program, the self tests, the
    shell, and \<open>kernel_main\<close>, all of \<^verbatim>\<open>src/entry.c\<close>.
  \<^item> \<open>UserRun\<close>: the contract \<open>runs_as\<close> of a user program, what \<open>run_user_prog\<close> does with one that keeps it, and two programs
    that do: one that returns, and one that prints through the gateway and exits.
  \<^item> \<open>Boot\<close>: \<^verbatim>\<open>src/boot/boot.S\<close> with the symbols of \<^verbatim>\<open>src/boot/link.lds\<close>, from power-on through restarts to idle.
  \<^item> \<open>Idle\<close>: the idle loop and the timer interrupts that arrive in it.

  Each C function is the definition of the same name (a suffix or prefix where it would clash); a loop is a
  definition of its own, named after its function.  The state is one record, extended by each
  module by its static variables: \<open>machine\<close>, \<open>heap_machine\<close>, \<open>timer_machine\<close>, \<open>trap_machine\<close>; a function is defined on
  the smallest of them and applies to the others.

  \<^bold>\<open>Conventions.\<close>  Unsigned integers are words of their width and wrap; signed integers are \<open>int\<close>, wrapped by \<open>s32\<close> and \<open>s64\<close>
  where an operation can leave the range, as the \<^verbatim>\<open>-O0\<close> build does.  A result \<open>None\<close> means that the C function has no
  defined result: it reads or writes outside an array, calls a null pointer, reads a missing variable argument or never
  returns.  So every statement \<open>\<exists>w'. f w = Some w' \<and> \<dots>\<close> says that \<open>f\<close> returns.  A function that the code
  itself ends in an endless loop or a jump back to \<^verbatim>\<open>_start\<close> says so in its result (\<open>Halted\<close>, \<open>Stopped\<close>, \<open>Restarted\<close>).
  Devices are not program code: the machine carries for every register the sequence of values its reads return and the log of
  what was written, both arbitrary; that a transmitter becomes ready again and again (\<open>uart_live\<close>) and that
  bytes keep arriving (\<open>rx_live\<close>) are hypotheses of the theorems that need them.

  \<^bold>\<open>What is shown.\<close>
  \<^item> Drivers: what is printed is exactly the bytes asked for, on either driver and for any timing of the device;
    numbers, line input with editing and echo, and the register programming of the 16550 are characterised.
  \<^item> Heap: every sequence of requests keeps the heap well-formed, hands out disjoint blocks inside it, clears
    what \<open>calloc\<close> returns and reports failure when nothing is left, for sizes up to half of the address space; what \<open>malloc\<close> does
    with larger ones, whose sum with the boundary wraps, is stated too.
  \<^item> Strings and logger: each function against its mathematical meaning (first occurrence, lexicographic order, text of a
    format, truncation), numbers converted back and forth.
  \<^item> Timer and traps: any number of ticks keeps the clock consistent; an interrupt is invisible to the code it interrupts; system
    calls do what the registered handler means; an invariant holds in every reachable state, where only a
    call that prints a string in a memory without any zero byte is stuck; the
    assembly code implements the handler on frames that are values, and keeps kernel and register file well-formed; a call
    through the gateway does what its number means and returns with the caller's registers.
  \<^item> Kernel: the command chain is a table; a session at the terminal does what its lines mean in order, the runs of the
    user program included; from power-on, through restarts, to the idle loop or to a program that does not return, all output
    and the final state are determined by what was typed, and the idle loop then counts every timer interrupt.
  \<^item> Where the code goes wrong, theorems say how: formats of the most negative number, size 0, sizes that wrap,
    the user stack allocated over the program just loaded.

  \<^bold>\<open>Bounds and fuel.\<close>  Loops that count are functions with a measure.  Loops that poll a device, walk a string to its NUL or serve
  the shell are partial functions, \<open>None\<close> where they do not end, and are shown to return under the hypotheses
  above.  The only fuel is in a specification: \<open>read_start\<close>, which reads back the user program's start stack, gets 8 as the
  bound of its lists, more than the one argument and the five auxiliary pairs that \<open>prepare_user_stack\<close> writes.

  \<^bold>\<open>Modelling assumptions.\<close>  The addresses that linker and compiler choose are the records \<open>image\<close> and \<open>link_map\<close>.  Function
  pointers are the functions of the program with that type.  Interrupts stay off (\<^verbatim>\<open>sstatus.SIE\<close> is clear) until the shell has
  returned, so they are not interleaved with it; in the idle loop an interrupt may arrive between any two
  rounds.  Of the hardware's own part of a trap the cause, the interrupted address and the \<^verbatim>\<open>sstatus\<close> bits are
  modelled.  The handlers themselves take the frame as a value; \<open>TrapFrame\<close> puts it in memory.  Floating-point arithmetic of the self test is IEEE rounding of positive normal numbers.  The user
  program is a parameter: any function on the machine that returns or ends in an endless loop.  Where a session runs it,
  the contract \<open>runs_as\<close> is assumed: what it prints and leaves in memory depends on the memory it finds, it keeps out of the
  kernel's code and data (its frames on the kernel's stack are, like the kernel's own, not part of the memory), and it returns
  or exits; \<open>stack_room\<close> bounds the number of runs, as every run takes 64 KB of the heap
  for good (about 60 fit below the load address).

  \<^bold>\<open>Not modelled.\<close>  The bits of \<^verbatim>\<open>sip\<close>, the read-only \<^verbatim>\<open>SD\<close> bit of \<^verbatim>\<open>sstatus\<close> (the register is what was
  written to it), the layout of the kernel's own stack, the contents of the embedded user binary (not part of the
  repository), instruction encodings, the one jump of the trap vector, the C functions' own stack frames, macros and constants no code uses (machine-mode CSRs, CLINT, modem registers), and
  the SBI firmware, whose timer call is recorded with its argument.
\<close>

end
